(* ===== verification/Wdl_Prelude.thy ===== *)
theory Wdl_Prelude
  imports Complex_Main "HOL-Library.Char_ord"
begin

text \<open>
  Shared vocabulary of the development: JavaScript values and numbers, the string
  operations the source uses, errors as values of a sum type, and insertion-ordered
  maps (the iteration order of a JavaScript \<open>Map\<close>).

  A JavaScript string is a \<^typ>\<open>string\<close>, one \<^typ>\<open>char\<close> per code unit; code units
  above 255 have no counterpart. A number is a \<open>jsnum\<close>: the three non-finite
  values, or an exact rational. Sums and products are exact: the source keeps the
  numbers it computes with inside the safe-integer range, where doubles are exact.
  Human-readable messages of exceptions are left out, their class, status and
  machine-readable code are kept.
\<close>

named_theorems js_simps \<open>evaluation of the JavaScript primitives\<close>
named_theorems omap_simps \<open>laws of insertion-ordered maps\<close>

section \<open>Errors as values\<close>

datatype js_error =
    JsError                       \<comment> \<open>\<open>new Error(..)\<close>\<close>
  | JsTypeError                   \<comment> \<open>\<open>new TypeError(..)\<close>\<close>
  | JsSyntaxError                 \<comment> \<open>\<open>new SyntaxError(..)\<close>, \<open>JSON.parse\<close>\<close>
  | WatchError                    \<comment> \<open>a nil EXEC\<close>
  | CodedError nat string         \<comment> \<open>an error class with \<open>status\<close> and \<open>code\<close>/\<open>reason\<close>\<close>

type_synonym 'a result = "js_error + 'a"

abbreviation Ok :: "'a \<Rightarrow> 'a result" where "Ok \<equiv> Inr"
abbreviation Throw :: "js_error \<Rightarrow> 'a result" where "Throw \<equiv> Inl"

definition bind_result :: "'a result \<Rightarrow> ('a \<Rightarrow> 'b result) \<Rightarrow> 'b result" where
  "bind_result r f = (case r of Inl e \<Rightarrow> Inl e | Inr x \<Rightarrow> f x)"

lemma bind_result_simps [simp]:
  "bind_result (Inl e) f = Inl e"
  "bind_result (Inr x) f = f x"
  by (simp_all add: bind_result_def)

lemma bind_result_eq_Inr:
  "bind_result r f = Inr y \<longleftrightarrow> (\<exists>x. r = Inr x \<and> f x = Inr y)"
  by (cases r) auto

lemma bind_result_eq_Inl:
  "bind_result r f = Inl e \<longleftrightarrow> r = Inl e \<or> (\<exists>x. r = Inr x \<and> f x = Inl e)"
  by (cases r) auto

section \<open>Numbers\<close>

datatype jsnum = NaN | PosInf | NegInf | Fin rat

definition MAX_SAFE_INTEGER :: int where
  "MAX_SAFE_INTEGER = 9007199254740991"

abbreviation num :: "int \<Rightarrow> jsnum" where "num n \<equiv> Fin (of_int n)"

fun isFinite :: "jsnum \<Rightarrow> bool" where
  "isFinite (Fin _) = True"
| "isFinite _ = False"

fun isInteger :: "jsnum \<Rightarrow> bool" where
  "isInteger (Fin q) = (of_int \<lfloor>q\<rfloor> = q)"
| "isInteger _ = False"

fun toInt :: "jsnum \<Rightarrow> int" where
  "toInt (Fin q) = \<lfloor>q\<rfloor>"
| "toInt _ = 0"

definition isSafeInteger :: "jsnum \<Rightarrow> bool" where
  "isSafeInteger x \<longleftrightarrow> isInteger x \<and> \<bar>toInt x\<bar> \<le> MAX_SAFE_INTEGER"

definition isSafeInt :: "int \<Rightarrow> bool" where
  "isSafeInt n \<longleftrightarrow> \<bar>n\<bar> \<le> MAX_SAFE_INTEGER"

lemma isSafeInteger_num [simp]: "isSafeInteger (num n) \<longleftrightarrow> isSafeInt n"
  by (simp add: isSafeInteger_def isSafeInt_def)

lemma isSafeInteger_cases:
  assumes "isSafeInteger x"
  obtains n where "x = num n" and "isSafeInt n"
  using assms by (cases x) (auto simp: isSafeInteger_def isSafeInt_def)

fun num_lt :: "jsnum \<Rightarrow> jsnum \<Rightarrow> bool" where
  "num_lt NaN _ = False"
| "num_lt _ NaN = False"
| "num_lt (Fin a) (Fin b) = (a < b)"
| "num_lt NegInf b = (b \<noteq> NegInf)"
| "num_lt PosInf b = False"
| "num_lt a NegInf = False"
| "num_lt a PosInf = (a \<noteq> PosInf)"

fun num_eq :: "jsnum \<Rightarrow> jsnum \<Rightarrow> bool" where
  "num_eq NaN _ = False"
| "num_eq a b = (a = b)"

definition num_le :: "jsnum \<Rightarrow> jsnum \<Rightarrow> bool" where
  "num_le a b \<longleftrightarrow> num_lt a b \<or> num_eq a b"

lemma num_le_num [simp]: "num_le (num a) (num b) \<longleftrightarrow> a \<le> b"
  by (auto simp: num_le_def)

section \<open>Values\<close>

datatype jsval =
    JUndef
  | JNull
  | JBool bool
  | JNum jsnum
  | JStr string
  | JArr "jsval list"
  | JObj "(string \<times> jsval) list"

text \<open>\<open>v.key\<close> for a key that is no property of \<open>Object.prototype\<close>.\<close>

fun jget :: "jsval \<Rightarrow> string \<Rightarrow> jsval" where
  "jget (JObj ps) k = (case map_of ps k of None \<Rightarrow> JUndef | Some v \<Rightarrow> v)"
| "jget _ k = JUndef"

fun hasOwn :: "jsval \<Rightarrow> string \<Rightarrow> bool" where
  "hasOwn (JObj ps) k = (map_of ps k \<noteq> None)"
| "hasOwn _ k = False"

fun truthy :: "jsval \<Rightarrow> bool" where
  "truthy JUndef = False"
| "truthy JNull = False"
| "truthy (JBool b) = b"
| "truthy (JNum n) = (n \<noteq> NaN \<and> n \<noteq> Fin 0)"
| "truthy (JStr s) = (s \<noteq> [])"
| "truthy (JArr _) = True"
| "truthy (JObj _) = True"

fun is_string :: "jsval \<Rightarrow> bool" where
  "is_string (JStr _) = True"
| "is_string _ = False"

fun str_of :: "jsval \<Rightarrow> string" where
  "str_of (JStr s) = s"
| "str_of _ = []"

fun is_number :: "jsval \<Rightarrow> bool" where
  "is_number (JNum _) = True"
| "is_number _ = False"

fun num_of :: "jsval \<Rightarrow> jsnum" where
  "num_of (JNum n) = n"
| "num_of _ = NaN"

text \<open>\<open>typeof v === "object"\<close> and \<open>v\<close> is not null: an array or an object.\<close>

fun is_object :: "jsval \<Rightarrow> bool" where
  "is_object (JArr _) = True"
| "is_object (JObj _) = True"
| "is_object _ = False"

fun is_array :: "jsval \<Rightarrow> bool" where
  "is_array (JArr _) = True"
| "is_array _ = False"

definition nullish :: "jsval \<Rightarrow> bool" where
  "nullish v \<longleftrightarrow> v = JUndef \<or> v = JNull"

lemma is_string_iff: "is_string v \<longleftrightarrow> (\<exists>s. v = JStr s)"
  by (cases v) auto

lemma is_number_iff: "is_number v \<longleftrightarrow> (\<exists>n. v = JNum n)"
  by (cases v) auto

section \<open>Strings\<close>

definition starts_with :: "string \<Rightarrow> string \<Rightarrow> bool" where
  "starts_with s p \<longleftrightarrow> take (length p) s = p"

definition ends_with :: "string \<Rightarrow> string \<Rightarrow> bool" where
  "ends_with s p \<longleftrightarrow> length p \<le> length s \<and> drop (length s - length p) s = p"

lemma starts_with_iff: "starts_with s p \<longleftrightarrow> (\<exists>r. s = p @ r)"
proof
  assume "starts_with s p"
  then have "s = p @ drop (length p) s"
    unfolding starts_with_def by (metis append_take_drop_id)
  then show "\<exists>r. s = p @ r" by blast
qed (auto simp: starts_with_def)

lemma ends_with_iff: "ends_with s p \<longleftrightarrow> (\<exists>r. s = r @ p)"
proof
  assume "ends_with s p"
  then have "s = take (length s - length p) s @ p"
    unfolding ends_with_def by (metis append_take_drop_id)
  then show "\<exists>r. s = r @ p" by blast
qed (auto simp: ends_with_def)

text \<open>\<open>s.split(c)\<close> for a one-character separator: never the empty list.\<close>

fun split_char :: "char \<Rightarrow> string \<Rightarrow> string list" where
  "split_char c [] = [[]]"
| "split_char c (x # xs) =
     (if x = c then [] # split_char c xs
      else (case split_char c xs of [] \<Rightarrow> [[x]] | y # ys \<Rightarrow> (x # y) # ys))"

fun join :: "char \<Rightarrow> string list \<Rightarrow> string" where
  "join c [] = []"
| "join c [s] = s"
| "join c (s # t # ss) = s @ c # join c (t # ss)"

lemma split_char_nonempty [simp]: "split_char c s \<noteq> []"
  by (induction s) (auto split: list.splits)

lemma split_char_no_sep: "c \<notin> set s \<Longrightarrow> split_char c s = [s]"
  by (induction s) auto

lemma split_char_append_sep: "split_char c (s @ c # t) = split_char c s @ split_char c t"
proof (induction s)
  case (Cons x s)
  then show ?case by (cases "split_char c s") auto
qed simp

lemma split_char_append:
  "c \<notin> set s \<Longrightarrow> split_char c (s @ c # t) = s # split_char c t"
  by (simp add: split_char_append_sep split_char_no_sep)

lemma split_join:
  "ss \<noteq> [] \<Longrightarrow> \<forall>s \<in> set ss. c \<notin> set s \<Longrightarrow> split_char c (join c ss) = ss"
  by (induction c ss rule: join.induct) (auto simp: split_char_no_sep split_char_append)

lemma join_split: "join c (split_char c s) = s"
proof (induction s)
  case (Cons x xs)
  then show ?case
    by (cases "split_char c xs"; cases "tl (split_char c xs)") auto
qed simp

lemma split_char_parts: "p \<in> set (split_char c s) \<Longrightarrow> c \<notin> set p"
  by (induction s arbitrary: p) (auto split: list.splits if_splits)

text \<open>A separator that does not occur in the first part splits uniquely.\<close>

lemma sep_inject:
  "c \<notin> set a \<Longrightarrow> c \<notin> set a' \<Longrightarrow> a @ c # b = a' @ c # b' \<longleftrightarrow> a = a' \<and> b = b'"
proof (induction a arbitrary: a')
  case Nil
  then show ?case by (cases a') auto
next
  case (Cons x a)
  then show ?case by (cases a') auto
qed

text \<open>\<open>s.indexOf(c)\<close>: the first position, \<open>None\<close> for \<open>-1\<close>.\<close>

fun index_of :: "char \<Rightarrow> string \<Rightarrow> nat option" where
  "index_of c [] = None"
| "index_of c (x # xs) = (if x = c then Some 0 else map_option Suc (index_of c xs))"

lemma index_of_append: "c \<notin> set s \<Longrightarrow> index_of c (s @ c # t) = Some (length s)"
  by (induction s) auto

lemma index_of_None: "index_of c s = None \<longleftrightarrow> c \<notin> set s"
  by (induction s) auto

lemma index_of_Some:
  assumes "index_of c s = Some i"
  shows "i < length s \<and> s ! i = c \<and> c \<notin> set (take i s)"
  using assms by (induction s arbitrary: i) (auto split: if_splits)

text \<open>
  \<open>toLowerCase\<close> on the ASCII letters, and \<open>trim\<close> with the white space and line
  terminators of ECMAScript that lie in the modelled range of code units.
\<close>

definition to_lower_char :: "char \<Rightarrow> char" where
  "to_lower_char c =
     (if CHR ''A'' \<le> c \<and> c \<le> CHR ''Z'' then char_of (of_char c + (32::nat)) else c)"

definition to_lower :: "string \<Rightarrow> string" where
  "to_lower = map to_lower_char"

definition js_space :: "char \<Rightarrow> bool" where
  "js_space c \<longleftrightarrow> c \<in> {CHR 0x09, CHR 0x0A, CHR 0x0B, CHR 0x0C, CHR 0x0D, CHR '' '', CHR 0xA0}"

definition trim :: "string \<Rightarrow> string" where
  "trim s = rev (dropWhile js_space (rev (dropWhile js_space s)))"

lemma length_to_lower [simp]: "length (to_lower s) = length s"
  by (simp add: to_lower_def)

section \<open>Decimal digits\<close>

definition is_digit :: "char \<Rightarrow> bool" where
  "is_digit c \<longleftrightarrow> CHR ''0'' \<le> c \<and> c \<le> CHR ''9''"

definition digit_val :: "char \<Rightarrow> nat" where
  "digit_val c = of_char c - 48"

definition digit_char :: "nat \<Rightarrow> char" where
  "digit_char d = char_of (48 + d)"

text \<open>\<open>String(n)\<close> for a non-negative integer.\<close>

fun show_nat :: "nat \<Rightarrow> string" where
  "show_nat n = (if n < 10 then [digit_char n] else show_nat (n div 10) @ [digit_char (n mod 10)])"

declare show_nat.simps [simp del]

definition show_int :: "int \<Rightarrow> string" where
  "show_int n = (if n < 0 then CHR ''-'' # show_nat (nat (- n)) else show_nat (nat n))"

definition digits_val :: "string \<Rightarrow> nat" where
  "digits_val = foldl (\<lambda>acc c. acc * 10 + digit_val c) 0"

lemma of_char_digit_char: "d < 10 \<Longrightarrow> (of_char (digit_char d) :: nat) = 48 + d"
  by (simp add: digit_char_def)

lemma digit_val_digit_char [simp]: "d < 10 \<Longrightarrow> digit_val (digit_char d) = d"
  by (simp add: digit_val_def of_char_digit_char)

lemma is_digit_iff: "is_digit c \<longleftrightarrow> 48 \<le> (of_char c :: nat) \<and> (of_char c :: nat) \<le> 57"
  by (simp add: is_digit_def less_eq_char_def)

lemma is_digit_digit_char [simp]: "d < 10 \<Longrightarrow> is_digit (digit_char d)"
  by (simp add: is_digit_iff of_char_digit_char)

lemma digit_val_less: "is_digit c \<Longrightarrow> digit_val c < 10"
  unfolding is_digit_iff digit_val_def by arith

lemma digits_val_snoc [simp]: "digits_val (s @ [c]) = digits_val s * 10 + digit_val c"
  by (simp add: digits_val_def)

lemma digits_val_Nil [simp]: "digits_val [] = 0"
  by (simp add: digits_val_def)

lemma show_nat_digits: "\<forall>c \<in> set (show_nat n). is_digit c"
proof (induction n rule: show_nat.induct)
  case (1 n)
  then show ?case by (subst show_nat.simps) auto
qed

text \<open>Evaluation of the decimal form works on binary integers.\<close>

lemma show_int_code [code]:
  "show_int n =
     (if n < 0 then CHR ''-'' # show_int (- n)
      else if n < 10 then [digit_char (nat n)]
      else show_int (n div 10) @ [digit_char (nat (n mod 10))])"
proof -
  have "show_nat (nat n) = (if n < 10 then [digit_char (nat n)] else show_nat (nat (n div 10)) @ [digit_char (nat (n mod 10))])"
    if "0 \<le> n"
    using that by (subst show_nat.simps) (auto simp: nat_less_iff nat_div_distrib nat_mod_distrib)
  moreover have "\<not> n div 10 < 0" if "\<not> n < 0" using that by simp
  ultimately show ?thesis by (auto simp: show_int_def)
qed

lemma show_nat_zero: "show_nat 0 = ''0''"
  by code_simp

lemma show_nat_nonempty [simp]: "show_nat n \<noteq> []"
  by (subst show_nat.simps) auto

lemma digits_val_show_nat [simp]: "digits_val (show_nat n) = n"
proof (induction n rule: show_nat.induct)
  case (1 n)
  show ?case
  proof (cases "n < 10")
    case True
    then show ?thesis
      by (subst show_nat.simps) (simp add: digits_val_def)
  next
    case False
    with "1.IH" show ?thesis
      by (subst show_nat.simps) simp
  qed
qed

lemma show_nat_inject: "show_nat m = show_nat n \<longleftrightarrow> m = n"
  by (metis digits_val_show_nat)

lemma show_nat_leading:
  "0 < n \<Longrightarrow> hd (show_nat n) \<noteq> CHR ''0''"
proof (induction n rule: show_nat.induct)
  case (1 n)
  show ?case
  proof (cases "n < 10")
    case True
    have "(of_char (digit_char n) :: nat) \<noteq> of_char CHR ''0''"
      using True "1.prems" by (simp add: of_char_digit_char)
    then have "digit_char n \<noteq> CHR ''0''" by metis
    with True show ?thesis by (subst show_nat.simps) simp
  next
    case False
    then have "0 < n div 10" by simp
    with False "1.IH" show ?thesis by (subst show_nat.simps) simp
  qed
qed

lemma digit_char_digit_val: "is_digit c \<Longrightarrow> digit_char (digit_val c) = c"
  by (simp add: digit_char_def digit_val_def is_digit_iff)

lemma digits_val_pos:
  assumes "s \<noteq> []" "\<forall>c \<in> set s. is_digit c" "hd s \<noteq> CHR ''0''"
  shows "0 < digits_val s"
  using assms
proof (induction s rule: rev_induct)
  case (snoc c s)
  have zero: "digit_char 0 = CHR ''0''" by code_simp
  show ?case
  proof (cases "s = []")
    case True
    with snoc.prems have "is_digit c" "c \<noteq> CHR ''0''" by simp_all
    moreover have "digit_char (digit_val c) = c" using calculation(1) by (rule digit_char_digit_val)
    ultimately have "0 < digit_val c" using zero by (metis gr0I)
    with True show ?thesis by (simp add: digits_val_def)
  next
    case False
    with snoc show ?thesis by simp
  qed
qed simp

text \<open>Decimal rendering inverts decimal reading on strings without a leading zero.\<close>

lemma show_nat_digits_val:
  assumes "s \<noteq> []" "\<forall>c \<in> set s. is_digit c" "hd s \<noteq> CHR ''0''"
  shows "show_nat (digits_val s) = s"
  using assms
proof (induction s rule: rev_induct)
  case (snoc c s)
  have c: "is_digit c" using snoc.prems by simp
  show ?case
  proof (cases "s = []")
    case True
    with c digit_val_less [OF c] show ?thesis
      by (subst show_nat.simps) (simp add: digits_val_def digit_char_digit_val)
  next
    case False
    with snoc.prems have s: "0 < digits_val s" "show_nat (digits_val s) = s"
      by (auto intro: digits_val_pos snoc.IH)
    with c digit_val_less [OF c] show ?thesis
      by (subst show_nat.simps) (simp add: digit_char_digit_val)
  qed
qed simp

lemma digits_val_bound: "\<forall>c \<in> set s. is_digit c \<Longrightarrow> digits_val s < 10 ^ length s"
proof (induction s rule: rev_induct)
  case (snoc c s)
  then have "digits_val s < 10 ^ length s" "digit_val c < 10" by (simp_all add: digit_val_less)
  then show ?case by simp
qed simp

lemma show_nat_length:
  assumes "0 < k"
  shows "n < 10 ^ k \<longleftrightarrow> length (show_nat n) \<le> k"
  using assms
proof (induction n arbitrary: k rule: show_nat.induct)
  case (1 n)
  show ?case
  proof (cases "n < 10")
    case True
    then have "n < 10 ^ k" using 1(2) by (cases k) (auto intro: order_less_le_trans)
    with True 1(2) show ?thesis by (subst show_nat.simps) simp
  next
    case False
    show ?thesis
    proof (cases "k = 1")
      case True
      with False show ?thesis by (subst show_nat.simps) simp
    next
      case k: False
      with 1(2) obtain j where j: "k = Suc j" "0 < j" by (cases k) auto
      have "n < 10 ^ k \<longleftrightarrow> n div 10 < 10 ^ j" by (simp add: j div_less_iff_less_mult mult.commute)
      also have "\<dots> \<longleftrightarrow> length (show_nat (n div 10)) \<le> j" using "1.IH" [OF False j(2)] .
      finally show ?thesis using False j by (subst show_nat.simps) simp
    qed
  qed
qed

lemma split_show_nat: "\<not> is_digit c \<Longrightarrow> split_char c (show_nat m @ c # show_nat n) = [show_nat m, show_nat n]"
  using show_nat_digits [of m] show_nat_digits [of n]
  by (subst split_char_append) (auto simp: split_char_no_sep)

section \<open>Sorting\<close>

text \<open>\<open>xs.toSorted(cmp)\<close>, which is stable.\<close>

fun insert_by :: "('a \<Rightarrow> 'a \<Rightarrow> int) \<Rightarrow> 'a \<Rightarrow> 'a list \<Rightarrow> 'a list" where
  "insert_by cmp x [] = [x]"
| "insert_by cmp x (y # ys) = (if cmp x y \<le> 0 then x # y # ys else y # insert_by cmp x ys)"

definition toSorted :: "('a \<Rightarrow> 'a \<Rightarrow> int) \<Rightarrow> 'a list \<Rightarrow> 'a list" where
  "toSorted cmp xs = foldr (insert_by cmp) xs []"

lemma set_insert_by [simp]: "set (insert_by cmp x ys) = insert x (set ys)"
  by (induction ys) auto

lemma set_toSorted [simp]: "set (toSorted cmp xs) = set xs"
  by (induction xs) (simp_all add: toSorted_def)

lemma length_insert_by [simp]: "length (insert_by cmp x ys) = Suc (length ys)"
  by (induction ys) auto

lemma length_toSorted [simp]: "length (toSorted cmp xs) = length xs"
  by (induction xs) (simp_all add: toSorted_def)

section \<open>Insertion-ordered maps\<close>

text \<open>
  A JavaScript \<open>Map\<close> as the list of its entries in insertion order: \<open>set\<close> keeps the
  place of a key that is present and appends a new one, \<open>delete\<close> removes the entry.
\<close>

type_synonym ('k, 'v) omap = "('k \<times> 'v) list"

fun omap_set :: "'k \<Rightarrow> 'v \<Rightarrow> ('k, 'v) omap \<Rightarrow> ('k, 'v) omap" where
  "omap_set k v [] = [(k, v)]"
| "omap_set k v ((k', v') # m) =
     (if k' = k then (k, v) # m else (k', v') # omap_set k v m)"

definition omap_delete :: "'k \<Rightarrow> ('k, 'v) omap \<Rightarrow> ('k, 'v) omap" where
  "omap_delete k m = filter (\<lambda>(k', _). k' \<noteq> k) m"

definition omap_keys :: "('k, 'v) omap \<Rightarrow> 'k list" where
  "omap_keys m = map fst m"

definition omap_wf :: "('k, 'v) omap \<Rightarrow> bool" where
  "omap_wf m \<longleftrightarrow> distinct (map fst m)"

lemma map_of_omap_set [simp]: "map_of (omap_set k v m) = (map_of m)(k \<mapsto> v)"
  by (induction k v m rule: omap_set.induct) auto

lemma map_of_omap_delete [simp]: "map_of (omap_delete k m) = (map_of m)(k := None)"
  by (induction m) (auto simp: omap_delete_def)

lemma fst_omap_set:
  "fst ` set (omap_set k v m) = insert k (fst ` set m)"
  by (induction k v m rule: omap_set.induct) auto

lemma omap_wf_Nil [simp, intro]: "omap_wf []"
  by (simp add: omap_wf_def)

lemma omap_wf_set [simp, intro]: "omap_wf m \<Longrightarrow> omap_wf (omap_set k v m)"
  by (induction k v m rule: omap_set.induct) (auto simp: omap_wf_def fst_omap_set simp flip: image_set)

lemma omap_wf_delete [simp, intro]: "omap_wf m \<Longrightarrow> omap_wf (omap_delete k m)"
  by (auto simp: omap_wf_def omap_delete_def distinct_map intro: inj_on_subset)

lemma length_omap_set:
  "length (omap_set k v m) = (if map_of m k = None then Suc (length m) else length m)"
  by (induction k v m rule: omap_set.induct) auto

lemma omap_set_fresh: "map_of m k = None \<Longrightarrow> omap_set k v m = m @ [(k, v)]"
  by (induction k v m rule: omap_set.induct) (auto split: if_splits)

lemma omap_delete_fresh: "map_of m k = None \<Longrightarrow> omap_delete k m = m"
  by (induction m) (auto simp: omap_delete_def split: if_splits)

lemma length_omap_delete: "length (omap_delete k m) \<le> length m"
  by (simp add: omap_delete_def)

lemmas omap_wf_intros = omap_wf_Nil omap_wf_set omap_wf_delete

declare map_of_omap_set [omap_simps] map_of_omap_delete [omap_simps]
  length_omap_set [omap_simps] omap_set_fresh [omap_simps] omap_delete_fresh [omap_simps]

end
