(* ===== verification/Wdl_Regex.thy ===== *)
theory Wdl_Regex
  imports Wdl_Prelude
begin

text \<open>
  Regular expressions. The grammars of the source are JavaScript regular expressions
  anchored by \<open>^\<close> and \<open>$\<close>; they are written here as syntax trees in the same shape and
  tested with derivatives. \<open>rx_test_iff\<close> ties the test to the language of the
  expression, and the lemmas on the recurring shapes (an identifier with a bounded tail,
  a DNS label) turn a test into conditions on length, first, last and inner characters.
\<close>

named_theorems rx_shapes \<open>tests of the recurring shapes as conditions on the string\<close>

type_synonym ranges = "(char \<times> char) list"

datatype rx =
    RZero
  | ROne
  | Cls ranges                \<comment> \<open>a character class such as \<open>[A-Za-z0-9_-]\<close>\<close>
  | NCls ranges               \<comment> \<open>a negated class\<close>
  | RSeq rx rx
  | RAlt rx rx
  | RRep nat nat rx           \<comment> \<open>\<open>r{m,n}\<close>\<close>
  | RStar rx

definition in_cls :: "ranges \<Rightarrow> char \<Rightarrow> bool" where
  "in_cls rs c \<longleftrightarrow> (\<exists>(a, b) \<in> set rs. a \<le> c \<and> c \<le> b)"

lemma in_cls_simps [simp]:
  "in_cls [] c = False"
  "in_cls ((a, b) # rs) c = (a \<le> c \<and> c \<le> b \<or> in_cls rs c)"
  by (auto simp: in_cls_def)

lemma in_cls_append [simp]: "in_cls (rs @ ss) c \<longleftrightarrow> in_cls rs c \<or> in_cls ss c"
  by (auto simp: in_cls_def)

definition RCh :: "char \<Rightarrow> rx" where
  "RCh c = Cls [(c, c)]"

fun RLit :: "string \<Rightarrow> rx" where
  "RLit [] = ROne"
| "RLit (c # cs) = RSeq (RCh c) (RLit cs)"

definition ROpt :: "rx \<Rightarrow> rx" where
  "ROpt r = RRep 0 1 r"

definition RPlus :: "rx \<Rightarrow> rx" where
  "RPlus r = RSeq r (RStar r)"

section \<open>Languages\<close>

definition conc :: "string set \<Rightarrow> string set \<Rightarrow> string set" where
  "conc A B = {a @ b | a b. a \<in> A \<and> b \<in> B}"

fun lpow :: "string set \<Rightarrow> nat \<Rightarrow> string set" where
  "lpow A 0 = {[]}"
| "lpow A (Suc n) = conc A (lpow A n)"

fun lang :: "rx \<Rightarrow> string set" where
  "lang RZero = {}"
| "lang ROne = {[]}"
| "lang (Cls rs) = {[c] | c. in_cls rs c}"
| "lang (NCls rs) = {[c] | c. \<not> in_cls rs c}"
| "lang (RSeq r s) = conc (lang r) (lang s)"
| "lang (RAlt r s) = lang r \<union> lang s"
| "lang (RRep m n r) = (\<Union>k \<in> {m..n}. lpow (lang r) k)"
| "lang (RStar r) = (\<Union>k. lpow (lang r) k)"

lemma concI: "a \<in> A \<Longrightarrow> b \<in> B \<Longrightarrow> a @ b \<in> conc A B"
  by (auto simp: conc_def)

lemma Nil_conc [simp]: "[] \<in> conc A B \<longleftrightarrow> [] \<in> A \<and> [] \<in> B"
  by (auto simp: conc_def)

lemma Nil_lpow [simp]: "[] \<in> lpow A k \<longleftrightarrow> k = 0 \<or> [] \<in> A"
  by (induction k) auto

lemma Cons_conc:
  "c # w \<in> conc A B \<longleftrightarrow>
     (\<exists>u v. w = u @ v \<and> c # u \<in> A \<and> v \<in> B) \<or> ([] \<in> A \<and> c # w \<in> B)"
proof
  assume "c # w \<in> conc A B"
  then obtain a b where ab: "c # w = a @ b" "a \<in> A" "b \<in> B" by (auto simp: conc_def)
  then show "(\<exists>u v. w = u @ v \<and> c # u \<in> A \<and> v \<in> B) \<or> ([] \<in> A \<and> c # w \<in> B)"
    by (cases a) auto
next
  assume "(\<exists>u v. w = u @ v \<and> c # u \<in> A \<and> v \<in> B) \<or> ([] \<in> A \<and> c # w \<in> B)"
  then show "c # w \<in> conc A B"
    using concI [of "c # _" A _ B] concI [of "[]" A "c # w" B] by auto
qed

lemma lpow_pad: "[] \<in> A \<Longrightarrow> w \<in> lpow A k \<Longrightarrow> k \<le> n \<Longrightarrow> w \<in> lpow A n"
proof (induction "n - k" arbitrary: n)
  case (Suc d)
  then obtain m where n: "n = Suc m" by (cases n) auto
  with Suc have "w \<in> lpow A m" by auto
  with Suc.prems(1) n show ?case using concI [of "[]" A w "lpow A m"] by simp
qed simp

lemma Cons_lpow:
  "c # w \<in> lpow A (Suc k) \<longleftrightarrow> (\<exists>u v. w = u @ v \<and> c # u \<in> A \<and> v \<in> lpow A k)"
proof (induction k arbitrary: w)
  case 0
  then show ?case by (auto simp: Cons_conc)
next
  case (Suc k)
  show ?case
  proof
    assume "c # w \<in> lpow A (Suc (Suc k))"
    then consider (head) u v where "w = u @ v" "c # u \<in> A" "v \<in> lpow A (Suc k)"
      | (skip) "[] \<in> A" "c # w \<in> lpow A (Suc k)"
      by (subst (asm) lpow.simps(2)) (auto simp: Cons_conc)
    then show "\<exists>u v. w = u @ v \<and> c # u \<in> A \<and> v \<in> lpow A (Suc k)"
    proof cases
      case skip
      with Suc.IH obtain u v where "w = u @ v" "c # u \<in> A" "v \<in> lpow A k" by blast
      with skip(1) lpow_pad [of A v k "Suc k"] show ?thesis by auto
    qed blast
  next
    assume "\<exists>u v. w = u @ v \<and> c # u \<in> A \<and> v \<in> lpow A (Suc k)"
    then show "c # w \<in> lpow A (Suc (Suc k))"
      by (subst lpow.simps(2)) (auto simp: Cons_conc)
  qed
qed

section \<open>Derivatives\<close>

fun nullable :: "rx \<Rightarrow> bool" where
  "nullable RZero = False"
| "nullable ROne = True"
| "nullable (Cls _) = False"
| "nullable (NCls _) = False"
| "nullable (RSeq r s) = (nullable r \<and> nullable s)"
| "nullable (RAlt r s) = (nullable r \<or> nullable s)"
| "nullable (RRep m n r) = (m \<le> n \<and> (m = 0 \<or> nullable r))"
| "nullable (RStar r) = True"

fun mk_seq :: "rx \<Rightarrow> rx \<Rightarrow> rx" where
  "mk_seq RZero s = RZero"
| "mk_seq ROne s = s"
| "mk_seq r s = RSeq r s"

fun mk_alt :: "rx \<Rightarrow> rx \<Rightarrow> rx" where
  "mk_alt RZero s = s"
| "mk_alt r RZero = r"
| "mk_alt r s = RAlt r s"

fun der :: "char \<Rightarrow> rx \<Rightarrow> rx" where
  "der c RZero = RZero"
| "der c ROne = RZero"
| "der c (Cls rs) = (if in_cls rs c then ROne else RZero)"
| "der c (NCls rs) = (if in_cls rs c then RZero else ROne)"
| "der c (RSeq r s) =
     (if nullable r then mk_alt (mk_seq (der c r) s) (der c s) else mk_seq (der c r) s)"
| "der c (RAlt r s) = mk_alt (der c r) (der c s)"
| "der c (RRep m n r) = (if n = 0 then RZero else mk_seq (der c r) (RRep (m - 1) (n - 1) r))"
| "der c (RStar r) = mk_seq (der c r) (RStar r)"

fun rx_test :: "rx \<Rightarrow> string \<Rightarrow> bool" where
  "rx_test r [] = nullable r"
| "rx_test r (c # w) = rx_test (der c r) w"

lemma conc_simps [simp]: "conc {} B = {}" "conc A {} = {}" "conc {[]} B = B" "conc A {[]} = A"
  by (auto simp: conc_def)

lemma lang_mk_seq [simp]: "lang (mk_seq r s) = conc (lang r) (lang s)"
  by (cases r) auto

lemma lang_mk_alt [simp]: "lang (mk_alt r s) = lang r \<union> lang s"
  by (cases "(r, s)" rule: mk_alt.cases) auto

lemma nullable_iff: "nullable r \<longleftrightarrow> [] \<in> lang r"
  by (induction r) auto

lemma Cons_lpow_pos: "c # w \<in> lpow A k \<Longrightarrow> \<exists>j. k = Suc j"
  by (cases k) auto

lemma lang_rep_iff: "w \<in> lang (RRep m n r) \<longleftrightarrow> (\<exists>k. m \<le> k \<and> k \<le> n \<and> w \<in> lpow (lang r) k)"
  by auto

lemma lang_rep_Cons:
  "c # w \<in> lang (RRep m n r) \<longleftrightarrow>
     n \<noteq> 0 \<and> (\<exists>u v. w = u @ v \<and> c # u \<in> lang r \<and> v \<in> lang (RRep (m - 1) (n - 1) r))"
    (is "?L \<longleftrightarrow> ?R")
proof
  assume ?L
  then obtain k where k: "m \<le> k" "k \<le> n" "c # w \<in> lpow (lang r) k"
    unfolding lang_rep_iff by blast
  then obtain j where j: "k = Suc j" using Cons_lpow_pos by blast
  with k(3) obtain u v where uv: "w = u @ v" "c # u \<in> lang r" "v \<in> lpow (lang r) j"
    unfolding j Cons_lpow by blast
  have "m - 1 \<le> j" "j \<le> n - 1" "n \<noteq> 0" using k j by auto
  with uv show ?R unfolding lang_rep_iff by blast
next
  assume ?R
  then obtain u v j where uv: "n \<noteq> 0" "w = u @ v" "c # u \<in> lang r" "v \<in> lpow (lang r) j"
    and j: "m - 1 \<le> j" "j \<le> n - 1" unfolding lang_rep_iff by blast
  then have "c # w \<in> lpow (lang r) (Suc j)" unfolding Cons_lpow by blast
  moreover have "m \<le> Suc j" "Suc j \<le> n" using j uv(1) by auto
  ultimately show ?L unfolding lang_rep_iff by blast
qed

lemma lang_star_Cons:
  "c # w \<in> lang (RStar r) \<longleftrightarrow> (\<exists>u v. w = u @ v \<and> c # u \<in> lang r \<and> v \<in> lang (RStar r))"
    (is "?L \<longleftrightarrow> ?R")
proof
  assume ?L
  then obtain k where k: "c # w \<in> lpow (lang r) k" by auto
  then obtain j where "k = Suc j" using Cons_lpow_pos by blast
  with k obtain u v where "w = u @ v" "c # u \<in> lang r" "v \<in> lpow (lang r) j"
    unfolding \<open>k = Suc j\<close> Cons_lpow by blast
  then show ?R by auto
next
  assume ?R
  then obtain u v j where "w = u @ v" "c # u \<in> lang r" "v \<in> lpow (lang r) j" by auto
  then have "c # w \<in> lpow (lang r) (Suc j)" unfolding Cons_lpow by blast
  then show ?L by (auto simp del: lpow.simps)
qed

lemma conc_iff: "w \<in> conc A B \<longleftrightarrow> (\<exists>u v. w = u @ v \<and> u \<in> A \<and> v \<in> B)"
  by (auto simp: conc_def)

lemma lang_der: "w \<in> lang (der c r) \<longleftrightarrow> c # w \<in> lang r"
proof (induction r arbitrary: w)
  case (RSeq r s)
  have "c # w \<in> lang (RSeq r s) \<longleftrightarrow>
      w \<in> conc (lang (der c r)) (lang s) \<or> (nullable r \<and> w \<in> lang (der c s))"
    unfolding lang.simps Cons_conc by (simp add: conc_iff nullable_iff RSeq)
  then show ?case by simp
next
  case (RRep m n r)
  have "c # w \<in> lang (RRep m n r) \<longleftrightarrow>
      n \<noteq> 0 \<and> w \<in> conc (lang (der c r)) (lang (RRep (m - 1) (n - 1) r))"
    unfolding lang_rep_Cons by (simp only: conc_iff RRep)
  then show ?case by simp
next
  case (RStar r)
  have "c # w \<in> lang (RStar r) \<longleftrightarrow> w \<in> conc (lang (der c r)) (lang (RStar r))"
    unfolding lang_star_Cons by (simp only: conc_iff RStar)
  then show ?case by simp
qed auto

theorem rx_test_iff: "rx_test r w \<longleftrightarrow> w \<in> lang r"
  by (induction w arbitrary: r) (simp_all add: nullable_iff lang_der)

section \<open>Recurring shapes\<close>

lemma conc_cls: "w \<in> conc {[c] | c. P c} B \<longleftrightarrow> w \<noteq> [] \<and> P (hd w) \<and> tl w \<in> B"
proof
  assume "w \<noteq> [] \<and> P (hd w) \<and> tl w \<in> B"
  then show "w \<in> conc {[c] | c. P c} B"
    using concI [of "[hd w]" "{[c] | c. P c}" "tl w" B] by simp
qed (auto simp: conc_iff)

lemma conc_cls_last: "w \<in> conc A {[c] | c. P c} \<longleftrightarrow> w \<noteq> [] \<and> P (last w) \<and> butlast w \<in> A"
proof
  assume "w \<noteq> [] \<and> P (last w) \<and> butlast w \<in> A"
  then show "w \<in> conc A {[c] | c. P c}"
    using concI [of "butlast w" A "[last w]" "{[c] | c. P c}"] by simp
qed (auto simp: conc_iff)

lemma lpow_cls: "w \<in> lpow {[c] | c. P c} k \<longleftrightarrow> length w = k \<and> (\<forall>c \<in> set w. P c)"
proof (induction k arbitrary: w)
  case (Suc k)
  then show ?case by (cases w) (auto simp: conc_cls)
qed auto

lemma rx_test_rep_cls [rx_shapes]:
  "rx_test (RRep m n (Cls rs)) w \<longleftrightarrow> m \<le> length w \<and> length w \<le> n \<and> (\<forall>c \<in> set w. in_cls rs c)"
  by (auto simp: rx_test_iff lpow_cls)

lemma rx_test_star_cls [rx_shapes]:
  "rx_test (RStar (Cls rs)) w \<longleftrightarrow> (\<forall>c \<in> set w. in_cls rs c)"
  by (auto simp: rx_test_iff lpow_cls)

lemma rx_test_seq_cls: "rx_test (RSeq (Cls rs) r) w \<longleftrightarrow> w \<noteq> [] \<and> in_cls rs (hd w) \<and> rx_test r (tl w)"
  by (simp add: rx_test_iff conc_cls)

lemma rx_test_seq_last:
  "rx_test (RSeq r (Cls rs)) w \<longleftrightarrow> w \<noteq> [] \<and> in_cls rs (last w) \<and> rx_test r (butlast w)"
  by (simp add: rx_test_iff conc_cls_last)

lemma in_cls_single: "in_cls [(c, c)] a \<longleftrightarrow> a = c"
  by auto

lemma rx_test_seq_ch: "rx_test (RSeq (RCh c) r) w \<longleftrightarrow> w \<noteq> [] \<and> hd w = c \<and> rx_test r (tl w)"
  unfolding RCh_def rx_test_seq_cls in_cls_single by blast

lemma rx_test_lit [rx_shapes]: "rx_test (RLit s) w \<longleftrightarrow> w = s"
proof (induction s arbitrary: w)
  case Nil
  then show ?case by (simp add: rx_test_iff)
next
  case (Cons c s)
  then show ?case
    unfolding RLit.simps rx_test_seq_ch by (cases w) (simp_all del: rx_test.simps)
qed

lemma rx_test_alt [rx_shapes]: "rx_test (RAlt r s) w \<longleftrightarrow> rx_test r w \<or> rx_test s w"
  by (simp add: rx_test_iff)

lemma rx_test_seq: "rx_test (RSeq r s) w \<longleftrightarrow> (\<exists>u v. w = u @ v \<and> rx_test r u \<and> rx_test s v)"
  by (simp add: rx_test_iff conc_iff)

lemma rx_test_plus_cls [rx_shapes]:
  "rx_test (RPlus (Cls rs)) w \<longleftrightarrow> w \<noteq> [] \<and> (\<forall>c \<in> set w. in_cls rs c)"
  by (cases w) (auto simp: RPlus_def rx_test_seq_cls rx_test_star_cls simp del: rx_test.simps)

text \<open>\<open>[a][b]{0,n}\<close>: names, ids and identifiers.\<close>

definition rx_ident :: "ranges \<Rightarrow> ranges \<Rightarrow> nat \<Rightarrow> rx" where
  "rx_ident a b n = RSeq (Cls a) (RRep 0 n (Cls b))"

lemma rx_test_ident [rx_shapes]:
  "rx_test (rx_ident a b n) w \<longleftrightarrow>
     w \<noteq> [] \<and> length w \<le> Suc n \<and> in_cls a (hd w) \<and> (\<forall>c \<in> set (tl w). in_cls b c)"
  by (cases w) (auto simp: rx_ident_def rx_test_seq_cls rx_test_rep_cls simp del: rx_test.simps)

text \<open>\<open>[a](?:[b]{0,n}[a])?\<close>: labels that may not start or end with a hyphen.\<close>

definition rx_label :: "ranges \<Rightarrow> ranges \<Rightarrow> nat \<Rightarrow> rx" where
  "rx_label a b n = RSeq (Cls a) (ROpt (RSeq (RRep 0 n (Cls b)) (Cls a)))"

lemma rx_test_opt [rx_shapes]: "rx_test (ROpt r) w \<longleftrightarrow> w = [] \<or> rx_test r w"
proof -
  have "{0..Suc 0} = {0, 1::nat}" by auto
  then show ?thesis by (simp add: rx_test_iff ROpt_def)
qed

lemma set_snoc_split: "w \<noteq> [] \<Longrightarrow> set w = insert (last w) (set (butlast w))"
  by (induction w rule: rev_induct) auto

lemma rx_test_label [rx_shapes]:
  assumes sub: "\<And>c. in_cls a c \<Longrightarrow> in_cls b c"
  shows "rx_test (rx_label a b n) w \<longleftrightarrow>
     w \<noteq> [] \<and> length w \<le> n + 2 \<and> in_cls a (hd w) \<and> in_cls a (last w) \<and> (\<forall>c \<in> set w. in_cls b c)"
proof (cases w)
  case (Cons x xs)
  show ?thesis
  proof (cases "xs = []")
    case True
    with Cons show ?thesis
      by (auto simp: rx_label_def rx_test_seq_cls rx_test_opt simp del: rx_test.simps dest: sub)
  next
    case False
    then have "length (butlast xs) \<le> n \<longleftrightarrow> length xs \<le> Suc n" by auto
    with Cons False show ?thesis
      by (auto simp: rx_label_def rx_test_seq_cls rx_test_opt rx_test_seq_last rx_test_rep_cls
          set_snoc_split [OF False] simp del: rx_test.simps dest: sub)
  qed
qed (simp add: rx_label_def)

lemmas rx_eval = rx_test.simps RCh_def RPlus_def ROpt_def rx_ident_def rx_label_def

declare rx_test.simps [simp del]

end
