(* ===== verification/Ns_Pattern.thy ===== *)
theory Ns_Pattern
  imports Wdl_Regex
begin

text \<open>
  \<^verbatim>\<open>shared/ns-pattern.js\<close>: the grammars of namespaces, worker, workflow, queue, binding
  and bucket names, DNS host names, and module paths, with the sets of reserved names.
  Control validates deployments with them and gateway classifies hosts with them; the
  lemmas give each accepted string's shape, which the key and projection encodings of
  the other theories rely on (no \<open>:\<close>, \<open>/\<close> or tab in an accepted name).
\<close>

section \<open>Character classes\<close>

abbreviation az :: ranges where "az \<equiv> [(CHR ''a'', CHR ''z'')]"
abbreviation AZ :: ranges where "AZ \<equiv> [(CHR ''A'', CHR ''Z'')]"
abbreviation d09 :: ranges where "d09 \<equiv> [(CHR ''0'', CHR ''9'')]"
abbreviation one :: "char \<Rightarrow> ranges" where "one c \<equiv> [(c, c)]"

definition cls_lower :: ranges where           \<comment> \<open>\<open>[a-z0-9]\<close>\<close>
  "cls_lower = az @ d09"
definition cls_lower_hyphen :: ranges where    \<comment> \<open>\<open>[a-z0-9-]\<close>\<close>
  "cls_lower_hyphen = az @ d09 @ one CHR ''-''"
definition cls_alnum :: ranges where           \<comment> \<open>\<open>[A-Za-z0-9]\<close>\<close>
  "cls_alnum = AZ @ az @ d09"
definition cls_alnum_hyphen :: ranges where    \<comment> \<open>\<open>[A-Za-z0-9-]\<close>\<close>
  "cls_alnum_hyphen = AZ @ az @ d09 @ one CHR ''-''"
definition cls_name :: ranges where            \<comment> \<open>\<open>[A-Za-z0-9_-]\<close>\<close>
  "cls_name = AZ @ az @ d09 @ one CHR ''_'' @ one CHR ''-''"
definition cls_word :: ranges where            \<comment> \<open>\<open>[A-Za-z0-9_]\<close>\<close>
  "cls_word = AZ @ az @ d09 @ one CHR ''_''"
definition cls_js_start :: ranges where        \<comment> \<open>\<open>[A-Za-z_$]\<close>\<close>
  "cls_js_start = AZ @ az @ one CHR ''_'' @ one CHR ''$''"
definition cls_js_part :: ranges where         \<comment> \<open>\<open>[A-Za-z0-9_$]\<close>\<close>
  "cls_js_part = AZ @ az @ d09 @ one CHR ''_'' @ one CHR ''$''"
definition cls_module :: ranges where          \<comment> \<open>\<open>[A-Za-z0-9._/-]\<close>\<close>
  "cls_module = AZ @ az @ d09 @ one CHR ''.'' @ one CHR ''_'' @ one CHR ''/'' @ one CHR ''-''"
definition cls_alias :: ranges where           \<comment> \<open>\<open>[a-z0-9._-]\<close>\<close>
  "cls_alias = az @ d09 @ one CHR ''.'' @ one CHR ''_'' @ one CHR ''-''"

lemmas cls_defs = cls_lower_def cls_lower_hyphen_def cls_alnum_def cls_alnum_hyphen_def
  cls_name_def cls_word_def cls_js_start_def cls_js_part_def cls_module_def cls_alias_def

section \<open>Host names\<close>

definition NS_PATTERN :: rx where
  "NS_PATTERN = rx_label cls_lower cls_lower_hyphen 61"

definition DEFAULT_PLATFORM_DOMAIN :: string where
  "DEFAULT_PLATFORM_DOMAIN = ''workers.local''"
definition MAX_PLATFORM_DOMAIN_BYTES :: nat where
  "MAX_PLATFORM_DOMAIN_BYTES = 126"
definition MAX_DNS_HOSTNAME_BYTES :: nat where
  "MAX_DNS_HOSTNAME_BYTES = 253"
definition DNS_LABEL_RE :: rx where
  "DNS_LABEL_RE = rx_label cls_alnum cls_alnum_hyphen 61"
definition DNS_FINAL_LABEL_RE :: rx where
  "DNS_FINAL_LABEL_RE = RPlus (Cls (AZ @ az))"

fun isValidAsciiDnsHostname :: "jsval \<Rightarrow> bool" where
  "isValidAsciiDnsHostname (JStr s) =
     (if length s = 0 \<or> length s > MAX_DNS_HOSTNAME_BYTES then False
      else list_all (rx_test DNS_LABEL_RE) (split_char CHR ''.'' s))"
| "isValidAsciiDnsHostname _ = False"

text \<open>\<open>rawHost.slice(rawHost.lastIndexOf(".") + 1)\<close> is the last part of the split.\<close>

fun configuredHostname :: "jsval \<Rightarrow> string option" where
  "configuredHostname (JStr s) =
     (if trim s = [] then None
      else
        let trimmed = trim s;
            rawHost = (if ends_with trimmed ''.'' then butlast trimmed else trimmed);
            finalLabel = last (split_char CHR ''.'' rawHost)
        in if length rawHost > MAX_PLATFORM_DOMAIN_BYTES
              \<or> \<not> isValidAsciiDnsHostname (JStr rawHost)
              \<or> \<not> rx_test DNS_FINAL_LABEL_RE finalLabel
           then None
           else Some (to_lower rawHost))"
| "configuredHostname _ = None"

definition platformDomainFromEnv :: "jsval \<Rightarrow> string result" where
  "platformDomainFromEnv env =
     (let raw = jget env ''PLATFORM_DOMAIN''
      in if nullish raw \<or> raw = JStr [] \<or> \<not> is_string raw then Ok DEFAULT_PLATFORM_DOMAIN
         else case configuredHostname raw of
                None \<Rightarrow> Throw JsTypeError
              | Some domain \<Rightarrow> Ok domain)"

section \<open>Namespaces\<close>

definition RESERVED_NS :: "string list" where
  "RESERVED_NS = [''__system__'', ''__platform__'', ''__community__'']"

definition RESERVED_NS_PATTERN :: rx where
  "RESERVED_NS_PATTERN = foldr (\<lambda>s r. RAlt (RLit s) r) RESERVED_NS RZero"

definition SUBDOMAIN_NS_PATTERN :: rx where
  "SUBDOMAIN_NS_PATTERN = RAlt NS_PATTERN RESERVED_NS_PATTERN"

definition isReservedNs :: "jsval \<Rightarrow> bool" where
  "isReservedNs ns \<longleftrightarrow> is_string ns \<and> str_of ns \<in> set RESERVED_NS"

definition NS_RE :: rx where
  "NS_RE = NS_PATTERN"

definition RESERVED_TENANT_NS :: "string list" where
  "RESERVED_TENANT_NS = [''admin'']"

definition isValidTenantNs :: "jsval \<Rightarrow> bool" where
  "isValidTenantNs ns \<longleftrightarrow>
     is_string ns \<and> length (str_of ns) > 0 \<and> \<not> isReservedNs ns
     \<and> str_of ns \<notin> set RESERVED_TENANT_NS \<and> rx_test NS_RE (str_of ns)"

definition ROUTES_ALLOWED_RESERVED_NS :: "string list" where
  "ROUTES_ALLOWED_RESERVED_NS = [''__system__'']"

definition PLATFORM_TIER_RESERVED_NS :: "string list" where
  "PLATFORM_TIER_RESERVED_NS = [''__platform__'']"

definition RUNTIME_LOAD_ALLOWED_RESERVED_NS :: "string list" where
  "RUNTIME_LOAD_ALLOWED_RESERVED_NS = ROUTES_ALLOWED_RESERVED_NS @ PLATFORM_TIER_RESERVED_NS"

definition isValidRouteNs :: "jsval \<Rightarrow> bool" where
  "isValidRouteNs ns \<longleftrightarrow>
     isValidTenantNs ns \<or> (is_string ns \<and> str_of ns \<in> set ROUTES_ALLOWED_RESERVED_NS)"

definition isValidRuntimeLoadNs :: "jsval \<Rightarrow> bool" where
  "isValidRuntimeLoadNs ns \<longleftrightarrow>
     isValidTenantNs ns \<or> (is_string ns \<and> str_of ns \<in> set RUNTIME_LOAD_ALLOWED_RESERVED_NS)"

section \<open>Names\<close>

definition WORKER_NAME_RE :: rx where
  "WORKER_NAME_RE = rx_ident cls_alnum cls_name 254"
definition WORKFLOW_NAME_RE :: rx where
  "WORKFLOW_NAME_RE = rx_ident cls_alnum cls_name 63"
definition WORKFLOW_INSTANCE_ID_RE :: rx where
  "WORKFLOW_INSTANCE_ID_RE = rx_ident cls_alnum cls_name 127"
definition WORKFLOW_KEY_RE :: rx where
  "WORKFLOW_KEY_RE = RSeq (RLit ''wf_'') (RRep 32 32 (Cls (d09 @ [(CHR ''a'', CHR ''f'')])))"
definition AI_PROVIDER_NAME_RE :: rx where
  "AI_PROVIDER_NAME_RE = rx_label cls_lower cls_lower_hyphen 30"
definition QUEUE_NAME_RE :: rx where
  "QUEUE_NAME_RE = rx_ident cls_lower cls_lower_hyphen 62"
definition BINDING_NAME_RE :: rx where
  "BINDING_NAME_RE = rx_ident cls_js_start cls_js_part 63"
definition JS_IDENTIFIER_RE :: rx where
  "JS_IDENTIFIER_RE = RSeq (Cls cls_js_start) (RStar (Cls cls_js_part))"
definition WDL_RESERVED_BINDING_RE :: rx where
  "WDL_RESERVED_BINDING_RE = RSeq (RLit ''__WDL_'') (RSeq (RStar (Cls cls_word)) (RLit ''__''))"
definition WDL_RESERVED_ENTRYPOINT_RE :: rx where
  "WDL_RESERVED_ENTRYPOINT_RE = RSeq (RLit ''__Wdl'') (RSeq (RStar (Cls cls_word)) (RLit ''__''))"
definition KV_ID_RE :: rx where
  "KV_ID_RE = rx_ident cls_lower cls_lower_hyphen 62"
definition D1_DATABASE_ID_RE :: rx where
  "D1_DATABASE_ID_RE = rx_ident cls_alnum cls_name 127"
definition R2_BUCKET_NAME_RE :: rx where
  "R2_BUCKET_NAME_RE = rx_ident cls_lower cls_lower_hyphen 62"
definition MODULE_PATH_RE :: rx where
  "MODULE_PATH_RE = RSeq (Cls cls_word) (RStar (Cls cls_module))"

definition js_test :: "rx \<Rightarrow> jsval \<Rightarrow> bool" where
  "js_test r v \<longleftrightarrow> is_string v \<and> rx_test r (str_of v)"

definition isValidWorkerName :: "jsval \<Rightarrow> bool" where
  "isValidWorkerName = js_test WORKER_NAME_RE"
definition isValidWorkflowName :: "jsval \<Rightarrow> bool" where
  "isValidWorkflowName = js_test WORKFLOW_NAME_RE"
definition isValidAiProviderName :: "jsval \<Rightarrow> bool" where
  "isValidAiProviderName = js_test AI_PROVIDER_NAME_RE"
definition isValidQueueName :: "jsval \<Rightarrow> bool" where
  "isValidQueueName = js_test QUEUE_NAME_RE"
definition isValidJsIdentifier :: "jsval \<Rightarrow> bool" where
  "isValidJsIdentifier = js_test JS_IDENTIFIER_RE"
definition isValidKvId :: "jsval \<Rightarrow> bool" where
  "isValidKvId = js_test KV_ID_RE"

text \<open>The look-ahead \<open>(?![0-9]+$)\<close> of \<open>AI_MODEL_ALIAS_RE\<close> refuses digit-only aliases.\<close>

definition AI_MODEL_ALIAS_RE :: "string \<Rightarrow> bool" where
  "AI_MODEL_ALIAS_RE s \<longleftrightarrow>
     \<not> rx_test (RPlus (Cls d09)) s \<and> rx_test (rx_label cls_lower cls_alias 62) s"

definition isValidAiModelAlias :: "jsval \<Rightarrow> bool" where
  "isValidAiModelAlias v \<longleftrightarrow> is_string v \<and> AI_MODEL_ALIAS_RE (str_of v)"

definition MAX_DO_CLASS_NAME_BYTES :: nat where
  "MAX_DO_CLASS_NAME_BYTES = 468"

definition JS_CLASS_DECLARATION_RESERVED_WORDS :: "string list" where
  "JS_CLASS_DECLARATION_RESERVED_WORDS =
    [''arguments'', ''await'', ''break'', ''case'', ''catch'', ''class'', ''const'', ''continue'',
     ''debugger'', ''default'', ''delete'', ''do'', ''else'', ''enum'', ''eval'', ''export'',
     ''extends'', ''false'', ''finally'', ''for'', ''function'', ''if'', ''implements'', ''import'',
     ''in'', ''instanceof'', ''interface'', ''let'', ''new'', ''null'', ''package'', ''private'',
     ''protected'', ''public'', ''return'', ''static'', ''super'', ''switch'', ''this'', ''throw'',
     ''true'', ''try'', ''typeof'', ''var'', ''void'', ''while'', ''with'', ''yield'']"

definition isValidJsClassDeclarationName :: "jsval \<Rightarrow> bool" where
  "isValidJsClassDeclarationName v \<longleftrightarrow>
     is_string v \<and> isValidJsIdentifier v
     \<and> str_of v \<notin> set JS_CLASS_DECLARATION_RESERVED_WORDS"

section \<open>Module paths\<close>

definition RESERVED_OBJECT_KEYS :: "string list" where
  "RESERVED_OBJECT_KEYS =
    [''__proto__'', ''constructor'', ''prototype'', ''hasOwnProperty'', ''isPrototypeOf'',
     ''propertyIsEnumerable'', ''toString'', ''toLocaleString'', ''valueOf'']"

fun validateSegments :: "string list \<Rightarrow> unit result" where
  "validateSegments [] = Ok ()"
| "validateSegments (seg # segs) =
     (if seg = [] \<or> seg = ''.'' \<or> seg = ''..'' then Throw JsError
      else if seg \<in> set RESERVED_OBJECT_KEYS then Throw JsError
      else validateSegments segs)"

definition validateModulePath :: "jsval \<Rightarrow> unit result" where
  "validateModulePath p =
     (if \<not> is_string p \<or> \<not> rx_test MODULE_PATH_RE (str_of p) then Throw JsError
      else validateSegments (split_char CHR ''/'' (str_of p)))"

section \<open>Shapes of accepted names\<close>

lemma cls_lower_sub: "in_cls cls_lower c \<Longrightarrow> in_cls cls_lower_hyphen c"
  by (auto simp: cls_defs)

lemma cls_alnum_sub: "in_cls cls_alnum c \<Longrightarrow> in_cls cls_alnum_hyphen c"
  by (auto simp: cls_defs)

lemma ns_pattern_shape:
  "rx_test NS_PATTERN s \<longleftrightarrow>
     s \<noteq> [] \<and> length s \<le> 63 \<and> in_cls cls_lower (hd s) \<and> in_cls cls_lower (last s)
     \<and> (\<forall>c \<in> set s. in_cls cls_lower_hyphen c)"
  unfolding NS_PATTERN_def by (subst rx_test_label) (auto intro: cls_lower_sub)

lemma dns_label_shape:
  "rx_test DNS_LABEL_RE s \<longleftrightarrow>
     s \<noteq> [] \<and> length s \<le> 63 \<and> in_cls cls_alnum (hd s) \<and> in_cls cls_alnum (last s)
     \<and> (\<forall>c \<in> set s. in_cls cls_alnum_hyphen c)"
  unfolding DNS_LABEL_RE_def by (subst rx_test_label) (auto intro: cls_alnum_sub)

text \<open>Delimiters of Redis keys, worker ids, paths and projections.\<close>

definition delimiters :: "char set" where
  "delimiters = {CHR '':'', CHR ''/'', CHR ''|'', CHR 0x09, CHR ''.''}"

definition clean :: "string \<Rightarrow> bool" where
  "clean s \<longleftrightarrow> s \<noteq> [] \<and> set s \<inter> delimiters = {}"

lemma cls_no_delimiter:
  "in_cls cls_name c \<Longrightarrow> c \<notin> delimiters"
  "in_cls cls_lower_hyphen c \<Longrightarrow> c \<notin> delimiters"
  "in_cls cls_alnum c \<Longrightarrow> c \<notin> delimiters"
  "in_cls cls_lower c \<Longrightarrow> c \<notin> delimiters"
  by (auto simp: cls_defs delimiters_def)

lemma rx_ident_clean:
  assumes "rx_test (rx_ident a b n) s"
    and "\<And>c. in_cls a c \<Longrightarrow> c \<notin> delimiters" and "\<And>c. in_cls b c \<Longrightarrow> c \<notin> delimiters"
  shows "clean s"
  using assms by (cases s) (auto simp: rx_test_ident clean_def)

lemma worker_name_clean: "rx_test WORKER_NAME_RE s \<Longrightarrow> clean s"
  unfolding WORKER_NAME_RE_def by (rule rx_ident_clean) (auto simp: cls_no_delimiter)

lemma ns_pattern_clean: "rx_test NS_PATTERN s \<Longrightarrow> clean s"
  by (auto simp: ns_pattern_shape clean_def dest: cls_no_delimiter)

lemma reserved_ns_clean: "s \<in> set RESERVED_NS \<Longrightarrow> clean s"
  by (auto simp: RESERVED_NS_def clean_def delimiters_def)

lemma reserved_ns_not_pattern: "s \<in> set RESERVED_NS \<Longrightarrow> \<not> rx_test NS_PATTERN s"
  by (auto simp: RESERVED_NS_def ns_pattern_shape cls_defs)

lemma route_ns_clean: "isValidRouteNs (JStr s) \<Longrightarrow> clean s"
  by (auto simp: isValidRouteNs_def isValidTenantNs_def NS_RE_def ROUTES_ALLOWED_RESERVED_NS_def
      intro: ns_pattern_clean reserved_ns_clean simp: RESERVED_NS_def)

lemma runtime_load_ns_clean: "isValidRuntimeLoadNs (JStr s) \<Longrightarrow> clean s"
  by (auto simp: isValidRuntimeLoadNs_def isValidTenantNs_def NS_RE_def
      RUNTIME_LOAD_ALLOWED_RESERVED_NS_def ROUTES_ALLOWED_RESERVED_NS_def
      PLATFORM_TIER_RESERVED_NS_def intro: ns_pattern_clean reserved_ns_clean simp: RESERVED_NS_def)

section \<open>Canonical host names\<close>

lemma to_lower_char_cases:
  "to_lower_char c = (if 65 \<le> (of_char c :: nat) \<and> (of_char c :: nat) \<le> 90
     then char_of (of_char c + (32::nat)) else c)"
  by (simp add: to_lower_char_def less_eq_char_def)

lemma of_char_to_lower:
  "(of_char (to_lower_char c) :: nat) =
     (if 65 \<le> (of_char c :: nat) \<and> (of_char c :: nat) \<le> 90 then of_char c + 32 else of_char c)"
  by (simp add: to_lower_char_cases)

lemma char_eq_nat: "c = d \<longleftrightarrow> (of_char c :: nat) = of_char d"
  by simp

lemma to_lower_char_idem [simp]: "to_lower_char (to_lower_char c) = to_lower_char c"
  by (simp add: char_eq_nat of_char_to_lower del: of_char_eq_iff)

lemma to_lower_idem [simp]: "to_lower (to_lower s) = to_lower s"
  by (simp add: to_lower_def)

lemma to_lower_char_dot [simp]: "to_lower_char c = CHR ''.'' \<longleftrightarrow> c = CHR ''.''"
  unfolding char_eq_nat [of "to_lower_char c"] char_eq_nat [of c] of_char_to_lower by simp

lemma to_lower_cls:
  "in_cls cls_alnum c \<Longrightarrow> in_cls cls_alnum (to_lower_char c)"
  "in_cls cls_alnum_hyphen c \<Longrightarrow> in_cls cls_alnum_hyphen (to_lower_char c)"
  "in_cls (AZ @ az) c \<Longrightarrow> in_cls (AZ @ az) (to_lower_char c)"
  by (auto simp: cls_defs less_eq_char_def of_char_to_lower)

lemma split_to_lower: "split_char CHR ''.'' (to_lower s) = map to_lower (split_char CHR ''.'' s)"
  by (induction s) (auto simp: to_lower_def split: list.splits)

lemma dns_label_to_lower: "rx_test DNS_LABEL_RE s \<Longrightarrow> rx_test DNS_LABEL_RE (to_lower s)"
  by (auto simp: dns_label_shape to_lower_def hd_map last_map to_lower_cls)

lemma hostname_to_lower:
  "isValidAsciiDnsHostname (JStr s) \<Longrightarrow> isValidAsciiDnsHostname (JStr (to_lower s))"
  by (auto simp: split_to_lower list_all_iff dns_label_to_lower split: if_splits)

lemma set_split_char: "set s \<subseteq> insert c (\<Union>(set ` set (split_char c s)))"
proof (induction s)
  case (Cons x xs)
  then show ?case by (cases "split_char c xs") auto
qed simp

lemma hostname_no_space:
  assumes "isValidAsciiDnsHostname (JStr s)" and "c \<in> set s"
  shows "\<not> js_space c"
proof -
  have "c = CHR ''.'' \<or> (\<exists>l \<in> set (split_char CHR ''.'' s). c \<in> set l)"
    using assms(2) set_split_char [of s "CHR ''.''"] by auto
  moreover have "in_cls cls_alnum_hyphen c" if "l \<in> set (split_char CHR ''.'' s)" "c \<in> set l" for l
    using assms(1) that by (auto simp: list_all_iff dns_label_shape split: if_splits)
  ultimately show ?thesis by (auto simp: js_space_def cls_defs)
qed

lemma trim_no_space: "\<forall>c \<in> set s. \<not> js_space c \<Longrightarrow> trim s = s"
proof -
  assume *: "\<forall>c \<in> set s. \<not> js_space c"
  have "dropWhile js_space t = t" if "set t = set s" for t
    unfolding dropWhile_eq_self_iff using * that hd_in_set [of t] by auto
  from this [of s] this [of "rev s"] show ?thesis by (simp add: trim_def)
qed

lemma hostname_last_not_dot:
  assumes "isValidAsciiDnsHostname (JStr s)" shows "\<not> ends_with s ''.''"
proof
  assume "ends_with s ''.''"
  then obtain r where "s = r @ ''.''" by (auto simp: ends_with_iff)
  then have "[] \<in> set (split_char CHR ''.'' s)"
    by (simp add: split_char_append_sep)
  with assms show False by (auto simp: list_all_iff dns_label_shape split: if_splits)
qed

lemma configuredHostname_canonical:
  assumes "configuredHostname v = Some d"
  shows "isValidAsciiDnsHostname (JStr d)" and "length d \<le> 126" and "to_lower d = d"
    and "configuredHostname (JStr d) = Some d"
proof -
  from assms obtain s where v: "v = JStr s" by (cases v) auto
  define raw where "raw = (if ends_with (trim s) ''.'' then butlast (trim s) else trim s)"
  have raw: "d = to_lower raw" "length raw \<le> 126" "isValidAsciiDnsHostname (JStr raw)"
    "rx_test DNS_FINAL_LABEL_RE (last (split_char CHR ''.'' raw))"
    using assms unfolding v configuredHostname.simps Let_def
    by (simp_all add: raw_def [symmetric] MAX_PLATFORM_DOMAIN_BYTES_def not_less
        del: isValidAsciiDnsHostname.simps split: if_splits)
  show valid: "isValidAsciiDnsHostname (JStr d)"
    unfolding raw(1) by (rule hostname_to_lower [OF raw(3)])
  show len: "length d \<le> 126" using raw(1,2) by simp
  show low: "to_lower d = d" by (simp add: raw(1))
  have "trim d = d" using hostname_no_space [OF valid] by (auto intro: trim_no_space)
  moreover have "d \<noteq> []" using valid by auto
  moreover have "rx_test DNS_FINAL_LABEL_RE (last (split_char CHR ''.'' d))"
    using raw(4) unfolding raw(1) split_to_lower DNS_FINAL_LABEL_RE_def rx_test_plus_cls
    using to_lower_cls(3) by (fastforce simp: last_map to_lower_def simp del: in_cls_append in_cls_simps append.simps)
  ultimately show "configuredHostname (JStr d) = Some d"
    using hostname_last_not_dot [OF valid] valid len low
    by (simp add: Let_def MAX_PLATFORM_DOMAIN_BYTES_def del: isValidAsciiDnsHostname.simps)
qed

lemma default_domain_ok: "configuredHostname (JStr DEFAULT_PLATFORM_DOMAIN) = Some DEFAULT_PLATFORM_DOMAIN"
  by code_simp

lemma validateSegments_iff:
  "validateSegments segs = Ok () \<longleftrightarrow>
     (\<forall>seg \<in> set segs. seg \<notin> {[], ''.'', ''..''} \<and> seg \<notin> set RESERVED_OBJECT_KEYS)"
  by (induction segs) auto

end
