(* ===== verification/Auth_Roles.thy ===== *)
theory Auth_Roles
  imports Ns_Pattern
begin

text \<open>
  \<^verbatim>\<open>shared/auth-roles.js\<close>: the role table, the action vocabulary, the pattern matcher and
  the shape check of a principal. \<open>ROLES[kind]\<close> is a property read on a plain object: a
  name of \<open>Object.prototype\<close> finds an inherited member, which the model keeps apart from
  an own role and from a miss.
\<close>

datatype bound_ns_kind = BoundTenant | BoundPlatformTier | BoundNone

record role =
  role_actions :: "string list"
  role_namespaces :: "string list"
  boundNsKind :: bound_ns_kind

definition PRINCIPAL_NS_PLACEHOLDER :: string where
  "PRINCIPAL_NS_PLACEHOLDER = ''$bound''"

definition OPS_KINDS :: "string list" where
  "OPS_KINDS = [''ops'', ''ops-observer'']"

definition KNOWN_ACTIONS :: "string list" where
  "KNOWN_ACTIONS =
    [''diagnostic.whoami'',
     ''worker.deploy'', ''worker.promote'', ''worker.delete'',
     ''worker.versions.read'', ''worker.versions.delete'', ''worker.list'',
     ''worker.logs.tail'',
     ''workflow.list'', ''workflow.read'', ''workflow.write'',
     ''secret.read'', ''secret.write'', ''secret.delete'',
     ''d1.list'', ''d1.create'', ''d1.delete'',
     ''d1.migrate.read'', ''d1.migrate.write'', ''d1.execute'',
     ''r2.bucket.list'', ''r2.object.list'', ''r2.object.head'', ''r2.object.get'', ''r2.object.delete'',
     ''ai.provider.read'', ''ai.provider.write'', ''ai.model.list'',
     ''host.read'', ''host.write'',
     ''auth.token.issue'', ''auth.token.revoke'', ''auth.token.list'',
     ''auth.delegated_token.issue'',
     ''system.reload'']"

definition matchesAction :: "jsval \<Rightarrow> jsval \<Rightarrow> bool" where
  "matchesAction pattern action =
     (if \<not> is_string pattern \<or> \<not> is_string action then False
      else let p = str_of pattern; a = str_of action in
        if p = ''*'' then True
        else if ends_with p ''.*'' then
          (let prefix = take (length p - 2) p in
           if \<not> starts_with a (prefix @ ''.'') then False
           else let rest = drop (length prefix + 1) a in CHR ''.'' \<notin> set rest)
        else p = a)"

definition ROLES :: "(string \<times> role) list" where
  "ROLES =
    [(''ops'', \<lparr>role_actions = [''*''], role_namespaces = [''*''], boundNsKind = BoundNone\<rparr>),
     (''ops-observer'',
       \<lparr>role_actions =
          [''worker.list'', ''worker.versions.read'',
           ''workflow.list'',
           ''d1.list'', ''d1.migrate.read'',
           ''r2.bucket.list'', ''r2.object.list'',
           ''ai.provider.read'', ''ai.model.list'',
           ''host.read''],
        role_namespaces = [''*''], boundNsKind = BoundNone\<rparr>),
     (''platform'',
       \<lparr>role_actions =
          [''worker.deploy'', ''worker.promote'', ''worker.delete'',
           ''worker.versions.read'', ''worker.versions.delete'', ''worker.list'',
           ''worker.logs.tail'',
           ''workflow.list'', ''workflow.read'', ''workflow.write'',
           ''secret.read'', ''secret.write'', ''secret.delete'',
           ''d1.list'', ''d1.create'', ''d1.delete'',
           ''d1.migrate.read'', ''d1.migrate.write'',
           ''d1.execute'',
           ''r2.bucket.list'', ''r2.object.list'', ''r2.object.head'', ''r2.object.get'', ''r2.object.delete'',
           ''ai.provider.read'', ''ai.provider.write'', ''ai.model.list''],
        role_namespaces = [PRINCIPAL_NS_PLACEHOLDER], boundNsKind = BoundPlatformTier\<rparr>),
     (''platform-observer'',
       \<lparr>role_actions =
          [''worker.versions.read'', ''worker.list'', ''worker.logs.tail'',
           ''workflow.list'',
           ''secret.read'',
           ''d1.list'', ''d1.migrate.read'',
           ''r2.bucket.list'', ''r2.object.list'',
           ''ai.provider.read'', ''ai.model.list''],
        role_namespaces = [PRINCIPAL_NS_PLACEHOLDER], boundNsKind = BoundPlatformTier\<rparr>),
     (''ns'',
       \<lparr>role_actions =
          [''worker.deploy'', ''worker.promote'', ''worker.delete'',
           ''worker.versions.read'', ''worker.versions.delete'', ''worker.list'',
           ''worker.logs.tail'',
           ''workflow.list'', ''workflow.read'', ''workflow.write'',
           ''secret.read'', ''secret.write'', ''secret.delete'',
           ''d1.list'', ''d1.create'', ''d1.delete'',
           ''d1.migrate.read'', ''d1.migrate.write'',
           ''d1.execute'',
           ''r2.bucket.list'', ''r2.object.list'', ''r2.object.head'', ''r2.object.get'', ''r2.object.delete'',
           ''ai.provider.read'', ''ai.provider.write'', ''ai.model.list'',
           ''host.read''],
        role_namespaces = [PRINCIPAL_NS_PLACEHOLDER], boundNsKind = BoundTenant\<rparr>),
     (''token-issuer'',
       \<lparr>role_actions = [''auth.delegated_token.issue''],
        role_namespaces = [''*''], boundNsKind = BoundNone\<rparr>)]"

text \<open>The members every plain object inherits.\<close>

definition OBJECT_PROTOTYPE_KEYS :: "string list" where
  "OBJECT_PROTOTYPE_KEYS =
    [''constructor'', ''__defineGetter__'', ''__defineSetter__'', ''hasOwnProperty'',
     ''__lookupGetter__'', ''__lookupSetter__'', ''isPrototypeOf'', ''propertyIsEnumerable'',
     ''toString'', ''valueOf'', ''__proto__'', ''toLocaleString'']"

datatype role_lookup = OwnRole role | InheritedMember | NoRole

definition roles_get :: "string \<Rightarrow> role_lookup" where
  "roles_get k =
     (case map_of ROLES k of
        Some r \<Rightarrow> OwnRole r
      | None \<Rightarrow> if k \<in> set OBJECT_PROTOTYPE_KEYS then InheritedMember else NoRole)"

definition actionCategory :: "jsval \<Rightarrow> string" where
  "actionCategory action =
     (if \<not> is_string action then ''unknown''
      else let a = str_of action in
        if starts_with a ''auth.token.'' then ''auth_token''
        else if starts_with a ''auth.delegated_token.'' then ''auth_delegated_token''
        else case index_of CHR ''.'' a of
               None \<Rightarrow> ''unknown''
             | Some dot \<Rightarrow>
                 (let prefix = take dot a in
                  if prefix \<in> set [''diagnostic'', ''worker'', ''workflow'', ''secret'', ''d1'',
                                   ''r2'', ''ai'', ''host'', ''system'']
                  then prefix else ''unknown''))"

definition validatePrincipalShape :: "jsval \<Rightarrow> bool" where
  "validatePrincipalShape pr =
     (if \<not> is_object pr then False
      else if \<not> is_string (jget pr ''kind'') then False
      else case roles_get (str_of (jget pr ''kind'')) of
             NoRole \<Rightarrow> False
           | InheritedMember \<Rightarrow> False
           | OwnRole r \<Rightarrow>
               (case boundNsKind r of
                  BoundTenant \<Rightarrow> isValidTenantNs (jget pr ''ns'')
                | BoundPlatformTier \<Rightarrow>
                    is_string (jget pr ''ns'')
                    \<and> str_of (jget pr ''ns'') \<in> set PLATFORM_TIER_RESERVED_NS
                | BoundNone \<Rightarrow> \<not> hasOwn pr ''ns''))"

section \<open>The role table\<close>

lemma dot_split_star: "ends_with p ''.*'' \<Longrightarrow> p = take (length p - 2) p @ ''.*''"
  by (auto simp: ends_with_iff)

text \<open>The matcher against its specification: star, one more segment, or equality.\<close>

lemma matchesAction_iff:
  "matchesAction (JStr p) (JStr a) \<longleftrightarrow>
     p = ''*'' \<or> (\<exists>pre seg. p = pre @ ''.*'' \<and> a = pre @ ''.'' @ seg \<and> CHR ''.'' \<notin> set seg)
     \<or> (\<not> ends_with p ''.*'' \<and> p = a)"
proof (cases "p = ''*'' \<or> \<not> ends_with p ''.*''")
  case True
  then show ?thesis by (auto simp: matchesAction_def ends_with_iff)
next
  case False
  then obtain pre where pre: "p = pre @ ''.*''" "p \<noteq> ''*''" by (auto simp: ends_with_iff)
  then show ?thesis
    by (auto simp: matchesAction_def ends_with_iff starts_with_iff Let_def)
qed

lemma role_actions_literal:
  "(k, r) \<in> set ROLES \<Longrightarrow> k \<noteq> ''ops'' \<Longrightarrow> p \<in> set (role_actions r) \<Longrightarrow>
     p \<in> set KNOWN_ACTIONS \<and> p \<noteq> ''*'' \<and> \<not> ends_with p ''.*''"
proof -
  have "list_all (\<lambda>(k, r). k = ''ops'' \<or>
      list_all (\<lambda>p. p \<in> set KNOWN_ACTIONS \<and> p \<noteq> ''*'' \<and> \<not> ends_with p ''.*'') (role_actions r)) ROLES"
    by code_simp
  then show "(k, r) \<in> set ROLES \<Longrightarrow> k \<noteq> ''ops'' \<Longrightarrow> p \<in> set (role_actions r) \<Longrightarrow>
     p \<in> set KNOWN_ACTIONS \<and> p \<noteq> ''*'' \<and> \<not> ends_with p ''.*''"
    by (fastforce simp: list_all_iff)
qed

text \<open>The pairing the source's comment asks for: the placeholder exactly on bound roles.\<close>

lemma roles_coherent:
  "(k, r) \<in> set ROLES \<Longrightarrow>
     (if boundNsKind r = BoundNone then role_namespaces r = [''*'']
      else role_namespaces r = [PRINCIPAL_NS_PLACEHOLDER])"
proof -
  have "list_all (\<lambda>(k, r). if boundNsKind r = BoundNone then role_namespaces r = [''*'']
      else role_namespaces r = [PRINCIPAL_NS_PLACEHOLDER]) ROLES"
    by code_simp
  then show "(k, r) \<in> set ROLES \<Longrightarrow>
     (if boundNsKind r = BoundNone then role_namespaces r = [''*'']
      else role_namespaces r = [PRINCIPAL_NS_PLACEHOLDER])"
    by (fastforce simp: list_all_iff)
qed

lemma roles_distinct: "distinct (map fst ROLES)"
  by code_simp

lemma prototype_keys_no_role: "k \<in> set OBJECT_PROTOTYPE_KEYS \<Longrightarrow> map_of ROLES k = None"
proof -
  have "list_all (\<lambda>k. map_of ROLES k = None) OBJECT_PROTOTYPE_KEYS" by code_simp
  then show "k \<in> set OBJECT_PROTOTYPE_KEYS \<Longrightarrow> map_of ROLES k = None"
    by (simp add: list_all_iff)
qed

end
