(* ===== verification/Json.thy ===== *)
theory Json
  imports Wdl_Regex
begin

text \<open>
  \<open>JSON.stringify\<close> and \<open>JSON.parse\<close>, the encoding of every structured value the
  components keep in Redis. Parsing is a lexer and a stack machine over its tokens, so it
  is total without fuel. \<open>parse_stringify\<close> is the round trip the record encodings
  of the other theories rest on. Two limits of the value model: a number that is no integer
  has no decimal rendering (the components store integers only), and a \<open>\u\<close> escape above
  \<open>00FF\<close> has no code unit and is refused.
\<close>

section \<open>stringify\<close>

definition hex_digit :: "nat \<Rightarrow> char" where
  "hex_digit n = (if n < 10 then char_of (48 + n) else char_of (87 + n))"

definition escape_char :: "char \<Rightarrow> string" where
  "escape_char c =
     (if c = CHR 0x22 then [CHR 0x5C, CHR 0x22]
      else if c = CHR 0x5C then [CHR 0x5C, CHR 0x5C]
      else if c = CHR 0x08 then [CHR 0x5C, CHR ''b'']
      else if c = CHR 0x0C then [CHR 0x5C, CHR ''f'']
      else if c = CHR 0x0A then [CHR 0x5C, CHR ''n'']
      else if c = CHR 0x0D then [CHR 0x5C, CHR ''r'']
      else if c = CHR 0x09 then [CHR 0x5C, CHR ''t'']
      else if (of_char c :: nat) < 32
           then [CHR 0x5C, CHR ''u'', CHR ''0'', CHR ''0'',
                 hex_digit (of_char c div 16), hex_digit (of_char c mod 16)]
      else [c])"

definition quote :: "string \<Rightarrow> string" where
  "quote s = CHR 0x22 # concat (map escape_char s) @ [CHR 0x22]"

fun show_num :: "jsnum \<Rightarrow> string" where
  "show_num (Fin q) = (if of_int \<lfloor>q\<rfloor> = q then show_int \<lfloor>q\<rfloor> else ''null'')"
| "show_num _ = ''null''"

fun stringify :: "jsval \<Rightarrow> string" where
  "stringify JUndef = ''null''"
| "stringify JNull = ''null''"
| "stringify (JBool b) = (if b then ''true'' else ''false'')"
| "stringify (JNum n) = show_num n"
| "stringify (JStr s) = quote s"
| "stringify (JArr vs) = CHR ''['' # join CHR '','' (map stringify vs) @ '']''"
| "stringify (JObj ps) =
     CHR ''{'' # join CHR '','' (map (\<lambda>(k, v). quote k @ CHR '':'' # stringify v)
        (filter (\<lambda>(k, v). v \<noteq> JUndef) ps)) @ ''}''"

section \<open>Tokens\<close>

datatype tok =
    TLBrace | TRBrace | TLBrack | TRBrack | TComma | TColon
  | TVal jsval     \<comment> \<open>a literal, a number or a string\<close>

definition hex_val :: "char \<Rightarrow> nat option" where
  "hex_val c =
     (let n = of_char c in
      if 48 \<le> n \<and> n \<le> 57 then Some (n - 48)
      else if 97 \<le> n \<and> n \<le> 102 then Some (n - 87)
      else if 65 \<le> n \<and> n \<le> 70 then Some (n - 55)
      else None)"

definition unescape :: "char \<Rightarrow> char option" where
  "unescape e =
     (if e = CHR 0x22 \<or> e = CHR 0x5C \<or> e = CHR ''/'' then Some e
      else if e = CHR ''b'' then Some (CHR 0x08)
      else if e = CHR ''f'' then Some (CHR 0x0C)
      else if e = CHR ''n'' then Some (CHR 0x0A)
      else if e = CHR ''r'' then Some (CHR 0x0D)
      else if e = CHR ''t'' then Some (CHR 0x09)
      else None)"

definition unicode_escape :: "char \<Rightarrow> char \<Rightarrow> char \<Rightarrow> char \<Rightarrow> char option" where
  "unicode_escape a b c d =
     (case (hex_val a, hex_val b, hex_val c, hex_val d) of
        (Some 0, Some 0, Some x, Some y) \<Rightarrow> Some (char_of (16 * x + y))
      | _ \<Rightarrow> None)"

text \<open>The escape sequence after a backslash: the character and the rest.\<close>

fun lex_escape :: "string \<Rightarrow> (char \<times> string) option" where
  "lex_escape [] = None"
| "lex_escape (e # ds) =
     (if e = CHR ''u'' then
        (case ds of
           h1 # h2 # h3 # h4 # rest \<Rightarrow> map_option (\<lambda>ch. (ch, rest)) (unicode_escape h1 h2 h3 h4)
         | _ \<Rightarrow> None)
      else map_option (\<lambda>ch. (ch, ds)) (unescape e))"

lemma lex_escape_shorter: "lex_escape s = Some (ch, rest) \<Longrightarrow> length rest < length s"
  by (cases s) (auto split: if_splits list.splits)

function lex_str :: "string \<Rightarrow> string \<Rightarrow> (string \<times> string) option" where
  "lex_str acc [] = None"
| "lex_str acc (c # cs) =
     (if c = CHR 0x22 then Some (rev acc, cs)
      else if c = CHR 0x5C then
        (case lex_escape cs of None \<Rightarrow> None | Some (ch, rest) \<Rightarrow> lex_str (ch # acc) rest)
      else if (of_char c :: nat) < 32 then None
      else lex_str (c # acc) cs)"
  by pat_completeness auto
termination
  by (relation "measure (length \<circ> snd)") (auto dest: lex_escape_shorter)

lemma lex_str_shorter: "lex_str acc s = Some (t, rest) \<Longrightarrow> length rest < length s"
proof (induction acc s rule: lex_str.induct)
  case (2 acc c cs)
  show ?case
  proof (cases "c = CHR 0x5C")
    case True
    with "2.prems" obtain ch r where r: "lex_escape cs = Some (ch, r)"
      and "lex_str (ch # acc) r = Some (t, rest)"
      by (auto split: option.splits)
    with True "2.IH"(1) [OF _ True r refl] have "length rest < length r" by simp
    with lex_escape_shorter [OF r] show ?thesis by simp
  next
    case False
    with "2.prems" "2.IH"(2) show ?thesis by (auto split: if_splits)
  qed
qed simp

definition num_char :: "char \<Rightarrow> bool" where
  "num_char c \<longleftrightarrow> is_digit c \<or> c \<in> {CHR ''-'', CHR ''+'', CHR ''.'', CHR ''e'', CHR ''E''}"

definition int_rx :: rx where
  "int_rx = RSeq (ROpt (RCh CHR ''-''))
     (RAlt (RCh CHR ''0'') (RSeq (Cls [(CHR ''1'', CHR ''9'')]) (RStar (Cls [(CHR ''0'', CHR ''9'')]))))"

definition frac_rx :: rx where
  "frac_rx = RSeq (RCh CHR ''.'') (RPlus (Cls [(CHR ''0'', CHR ''9'')]))"

definition exp_rx :: rx where
  "exp_rx = RSeq (RAlt (RCh CHR ''e'') (RCh CHR ''E''))
     (RSeq (ROpt (RAlt (RCh CHR ''+'') (RCh CHR ''-''))) (RPlus (Cls [(CHR ''0'', CHR ''9'')])))"

definition signed_val :: "string \<Rightarrow> int" where
  "signed_val s =
     (if s \<noteq> [] \<and> hd s = CHR ''-'' then - int (digits_val (tl s))
      else if s \<noteq> [] \<and> hd s = CHR ''+'' then int (digits_val (tl s))
      else int (digits_val s))"

definition exp_mark :: "char \<Rightarrow> bool" where
  "exp_mark c \<longleftrightarrow> c = CHR ''e'' \<or> c = CHR ''E''"

text \<open>Integer part, fraction with its dot, exponent with its mark.\<close>

definition num_parts :: "string \<Rightarrow> string \<times> string \<times> string" where
  "num_parts s =
     (let mantissa = takeWhile (\<lambda>c. \<not> exp_mark c) s
      in (takeWhile (\<lambda>c. c \<noteq> CHR ''.'') mantissa, dropWhile (\<lambda>c. c \<noteq> CHR ''.'') mantissa,
          dropWhile (\<lambda>c. \<not> exp_mark c) s))"

definition num_value :: "string \<Rightarrow> string \<Rightarrow> string \<Rightarrow> rat" where
  "num_value ip fp ex =
     (let sgn = (if hd ip = CHR ''-'' then - 1 else 1);
          mag = of_int \<bar>signed_val ip\<bar> + of_nat (digits_val (tl fp)) / 10 ^ length (tl fp);
          e = (if ex = [] then 0 else signed_val (tl ex))
      in sgn * mag * (if e < 0 then 1 / 10 ^ nat (- e) else 10 ^ nat e))"

definition lex_num :: "string \<Rightarrow> jsnum option" where
  "lex_num s =
     (case num_parts s of (ip, fp, ex) \<Rightarrow>
        if rx_test int_rx ip \<and> (fp = [] \<or> rx_test frac_rx fp) \<and> (ex = [] \<or> rx_test exp_rx ex)
        then Some (Fin (num_value ip fp ex)) else None)"

definition json_ws :: "char \<Rightarrow> bool" where
  "json_ws c \<longleftrightarrow> c \<in> {CHR '' '', CHR 0x09, CHR 0x0A, CHR 0x0D}"

definition punct :: "char \<Rightarrow> tok option" where
  "punct c =
     (if c = CHR ''{'' then Some TLBrace else if c = CHR ''}'' then Some TRBrace
      else if c = CHR ''['' then Some TLBrack else if c = CHR '']'' then Some TRBrack
      else if c = CHR '','' then Some TComma else if c = CHR '':'' then Some TColon else None)"

definition literal :: "string \<Rightarrow> (jsval \<times> string) option" where
  "literal s =
     (if starts_with s ''null'' then Some (JNull, drop 4 s)
      else if starts_with s ''true'' then Some (JBool True, drop 4 s)
      else if starts_with s ''false'' then Some (JBool False, drop 5 s)
      else None)"

function tokenize :: "string \<Rightarrow> tok list option" where
  "tokenize [] = Some []"
| "tokenize (c # cs) =
     (if json_ws c then tokenize cs
      else case punct c of
        Some t \<Rightarrow> map_option ((#) t) (tokenize cs)
      | None \<Rightarrow>
          if c = CHR 0x22 then
            (case lex_str [] cs of
               None \<Rightarrow> None
             | Some (s, rest) \<Rightarrow> map_option ((#) (TVal (JStr s))) (tokenize rest))
          else if num_char c then
            (case lex_num (takeWhile num_char (c # cs)) of
               None \<Rightarrow> None
             | Some n \<Rightarrow> map_option ((#) (TVal (JNum n))) (tokenize (dropWhile num_char (c # cs))))
          else
            (case literal (c # cs) of
               None \<Rightarrow> None
             | Some (v, rest) \<Rightarrow> map_option ((#) (TVal v)) (tokenize rest)))"
  by pat_completeness auto
termination
  by (relation "measure length")
     (auto dest: lex_str_shorter simp: literal_def less_Suc_eq_le length_dropWhile_le split: if_splits)

declare tokenize.simps(2) [simp del]

section \<open>The stack machine\<close>

datatype frame = FArr "jsval list" | FObj "(string \<times> jsval) list" string

datatype jstate =
    SValue
  | SValueOrEnd
  | SAfterArr "jsval list"
  | SKeyOrEnd
  | SKey "(string \<times> jsval) list"
  | SColon "(string \<times> jsval) list" string
  | SAfterObj "(string \<times> jsval) list"
  | SDone jsval
  | SErr

fun complete :: "frame list \<Rightarrow> jsval \<Rightarrow> frame list \<times> jstate" where
  "complete [] v = ([], SDone v)"
| "complete (FArr vs # fs) v = (fs, SAfterArr (vs @ [v]))"
| "complete (FObj ms k # fs) v = (fs, SAfterObj (omap_set k v ms))"

definition start_value :: "frame list \<Rightarrow> tok \<Rightarrow> frame list \<times> jstate" where
  "start_value fs t =
     (case t of
        TVal v \<Rightarrow> complete fs v
      | TLBrack \<Rightarrow> (fs, SValueOrEnd)
      | TLBrace \<Rightarrow> (fs, SKeyOrEnd)
      | _ \<Rightarrow> (fs, SErr))"

fun jstep :: "frame list \<times> jstate \<Rightarrow> tok \<Rightarrow> frame list \<times> jstate" where
  "jstep (fs, SValue) t = start_value fs t"
| "jstep (fs, SValueOrEnd) t =
     (if t = TRBrack then complete fs (JArr []) else start_value (FArr [] # fs) t)"
| "jstep (fs, SAfterArr vs) t =
     (if t = TComma then (FArr vs # fs, SValue)
      else if t = TRBrack then complete fs (JArr vs) else (fs, SErr))"
| "jstep (fs, SKeyOrEnd) t =
     (case t of TRBrace \<Rightarrow> complete fs (JObj [])
      | TVal (JStr k) \<Rightarrow> (fs, SColon [] k) | _ \<Rightarrow> (fs, SErr))"
| "jstep (fs, SKey ms) t =
     (case t of TVal (JStr k) \<Rightarrow> (fs, SColon ms k) | _ \<Rightarrow> (fs, SErr))"
| "jstep (fs, SColon ms k) t = (if t = TColon then (FObj ms k # fs, SValue) else (fs, SErr))"
| "jstep (fs, SAfterObj ms) t =
     (if t = TComma then (fs, SKey ms)
      else if t = TRBrace then complete fs (JObj ms) else (fs, SErr))"
| "jstep (fs, SDone v) t = (fs, SErr)"
| "jstep (fs, SErr) t = (fs, SErr)"

definition json_parse :: "string \<Rightarrow> jsval option" where
  "json_parse s =
     (case tokenize s of
        None \<Rightarrow> None
      | Some ts \<Rightarrow>
          (case foldl jstep ([], SValue) ts of
             ([], SDone v) \<Rightarrow> Some v
           | _ \<Rightarrow> None))"

section \<open>Round trip\<close>

fun json_ok :: "jsval \<Rightarrow> bool" where
  "json_ok JUndef = False"
| "json_ok (JNum n) = isInteger n"
| "json_ok (JArr vs) = list_all json_ok vs"
| "json_ok (JObj ps) = (distinct (map fst ps) \<and> list_all (\<lambda>(k, v). json_ok v) ps)"
| "json_ok _ = True"

fun comma_join :: "tok list list \<Rightarrow> tok list" where
  "comma_join [] = []"
| "comma_join [ts] = ts"
| "comma_join (ts # us # tss) = ts @ TComma # comma_join (us # tss)"

fun tokens_of :: "jsval \<Rightarrow> tok list" where
  "tokens_of (JArr vs) = TLBrack # comma_join (map tokens_of vs) @ [TRBrack]"
| "tokens_of (JObj ps) =
     TLBrace # comma_join (map (\<lambda>(k, v). TVal (JStr k) # TColon # tokens_of v) ps) @ [TRBrace]"
| "tokens_of v = [TVal v]"

lemma hex_val_hex_digit: "n < 16 \<Longrightarrow> hex_val (hex_digit n) = Some n"
  by (auto simp: hex_val_def hex_digit_def Let_def)

lemma unicode_escape_control:
  "(of_char c :: nat) < 32 \<Longrightarrow>
     unicode_escape CHR ''0'' CHR ''0'' (hex_digit (of_char c div 16)) (hex_digit (of_char c mod 16)) = Some c"
proof -
  assume "(of_char c :: nat) < 32"
  moreover have "hex_val CHR ''0'' = Some 0" by (simp add: hex_val_def)
  ultimately show ?thesis by (simp add: unicode_escape_def hex_val_hex_digit)
qed

lemma lex_str_escape_char: "lex_str acc (escape_char c @ t) = lex_str (c # acc) t"
proof -
  have "lex_escape (CHR ''u'' # CHR ''0'' # CHR ''0'' # hex_digit (of_char c div 16)
      # hex_digit (of_char c mod 16) # t) = Some (c, t)" if "(of_char c :: nat) < 32"
    using that by (simp add: unicode_escape_control)
  then show ?thesis by (auto simp: escape_char_def unescape_def)
qed

lemma lex_str_quote:
  "lex_str acc (concat (map escape_char s) @ CHR 0x22 # rest) = Some (rev acc @ s, rest)"
  by (induction s arbitrary: acc) (simp_all add: lex_str_escape_char)

definition delim :: "string \<Rightarrow> bool" where
  "delim rest \<longleftrightarrow> rest = [] \<or> hd rest \<in> {CHR '','', CHR '']'', CHR ''}'', CHR '':''}"

lemma delim_not_num: "delim rest \<Longrightarrow> rest \<noteq> [] \<Longrightarrow> \<not> num_char (hd rest)"
  by (auto simp: delim_def num_char_def is_digit_def)

lemma lex_quote: "tokenize (quote s @ rest) = map_option ((#) (TVal (JStr s))) (tokenize rest)"
  by (simp add: quote_def tokenize.simps(2) json_ws_def punct_def lex_str_quote)

lemma digit_num_char: "is_digit c \<Longrightarrow> num_char c"
  by (simp add: num_char_def)

lemma show_int_num_char: "\<forall>c \<in> set (show_int n). num_char c"
  using show_nat_digits by (auto simp: show_int_def digit_num_char) (simp add: num_char_def)

lemma in_d09: "in_cls [(CHR ''0'', CHR ''9'')] c \<longleftrightarrow> is_digit c"
  by (simp add: is_digit_def)

lemma digit_19: "is_digit c \<Longrightarrow> c \<noteq> CHR ''0'' \<Longrightarrow> in_cls [(CHR ''1'', CHR ''9'')] c"
proof -
  assume d: "is_digit c" and "c \<noteq> CHR ''0''"
  then have "(of_char c :: nat) \<noteq> of_char CHR ''0''" unfolding of_char_eq_iff by blast
  with d show ?thesis by (simp add: is_digit_def less_eq_char_def)
qed

lemma rx_nat: "rx_test (RAlt (RCh CHR ''0'') (RSeq (Cls [(CHR ''1'', CHR ''9'')])
     (RStar (Cls [(CHR ''0'', CHR ''9'')])))) (show_nat n)"
proof (cases "n = 0")
  case True
  then show ?thesis by (simp add: show_nat_zero rx_eval)
next
  case False
  have "hd (show_nat n) \<in> set (show_nat n)" by simp
  then have "is_digit (hd (show_nat n))" using show_nat_digits by blast
  moreover have "is_digit c" if "c \<in> set (tl (show_nat n))" for c
    using that show_nat_digits list.set_sel(2) [of "show_nat n" c] by auto
  ultimately show ?thesis using False show_nat_leading [of n]
    by (auto simp: rx_test_alt rx_test_seq_cls rx_test_star_cls in_d09 simp del: in_cls_simps
        intro: digit_19)
qed

lemma rx_int: "rx_test int_rx (show_int n)"
proof (cases "n < 0")
  case True
  then show ?thesis
    unfolding int_rx_def rx_test_seq
    by (intro exI [of _ "''-''"] exI [of _ "show_nat (nat (- n))"])
       (auto simp: show_int_def rx_test_opt rx_nat, simp add: rx_eval)
next
  case False
  then show ?thesis
    unfolding int_rx_def rx_test_seq
    by (intro exI [of _ "[]"] exI [of _ "show_nat (nat n)"])
       (auto simp: show_int_def rx_test_opt rx_nat)
qed

lemma digit_not: "is_digit c \<Longrightarrow> c \<notin> {CHR ''-'', CHR ''+'', CHR ''.'', CHR ''e'', CHR ''E''}"
  by (auto simp: is_digit_def)

lemma show_nat_hd_digit: "is_digit (hd (show_nat n))"
  using show_nat_digits [of n] hd_in_set [of "show_nat n"] by simp

lemma show_int_no_special:
  "c \<in> set (show_int n) \<Longrightarrow> c \<noteq> CHR ''.'' \<and> c \<noteq> CHR ''e'' \<and> c \<noteq> CHR ''E''"
  using show_nat_digits digit_not by (fastforce simp: show_int_def split: if_splits)

lemma signed_val_show_int: "signed_val (show_int n) = n"
  using digit_not [OF show_nat_hd_digit, of "nat n"]
  by (auto simp: signed_val_def show_int_def)

lemma show_int_sign: "hd (show_int n) = CHR ''-'' \<longleftrightarrow> n < 0"
  using digit_not [OF show_nat_hd_digit, of "nat n"] by (auto simp: show_int_def)

lemma num_parts_show_int: "num_parts (show_int n) = (show_int n, [], [])"
proof -
  have "takeWhile (\<lambda>c. \<not> exp_mark c) (show_int n) = show_int n"
    "takeWhile (\<lambda>c. c \<noteq> CHR ''.'') (show_int n) = show_int n"
    "dropWhile (\<lambda>c. c \<noteq> CHR ''.'') (show_int n) = []"
    "dropWhile (\<lambda>c. \<not> exp_mark c) (show_int n) = []"
    by (auto simp: takeWhile_eq_all_conv dropWhile_eq_Nil_conv exp_mark_def dest: show_int_no_special)
  then show ?thesis by (simp only: num_parts_def Let_def)
qed

lemma num_value_show_int: "num_value (show_int n) [] [] = of_int n"
  by (simp add: num_value_def signed_val_show_int show_int_sign)

lemma lex_num_show_int: "lex_num (show_int n) = Some (num n)"
  by (simp add: lex_num_def num_parts_show_int rx_int num_value_show_int)

lemma show_int_nonempty: "show_int n \<noteq> []"
  by (simp add: show_int_def)

lemma lex_show_int:
  assumes "delim rest"
  shows "tokenize (show_int n @ rest) = map_option ((#) (TVal (JNum (num n)))) (tokenize rest)"
proof -
  obtain c cs where c: "show_int n = c # cs" using show_int_nonempty by (cases "show_int n") auto
  then have eq: "c # (cs @ rest) = show_int n @ rest" by simp
  from c have nc: "num_char c" using show_int_num_char [of n] by simp
  then have "\<not> json_ws c" "punct c = None" "c \<noteq> CHR 0x22"
    by (auto simp: num_char_def is_digit_def json_ws_def punct_def)
  then have "tokenize (c # (cs @ rest)) =
      (case lex_num (takeWhile num_char (c # (cs @ rest))) of
         None \<Rightarrow> None
       | Some m \<Rightarrow> map_option ((#) (TVal (JNum m))) (tokenize (dropWhile num_char (c # (cs @ rest)))))"
    unfolding tokenize.simps(2) using nc by simp
  moreover have "takeWhile num_char (show_int n @ rest) = show_int n"
    "dropWhile num_char (show_int n @ rest) = rest"
    using show_int_num_char [of n] delim_not_num [OF assms]
    by (cases rest; simp add: takeWhile_append dropWhile_append)+
  ultimately show ?thesis
    unfolding eq by (simp only: lex_num_show_int option.case)
qed

lemma lex_word:
  "tokenize (''null'' @ rest) = map_option ((#) (TVal JNull)) (tokenize rest)"
  "tokenize (''true'' @ rest) = map_option ((#) (TVal (JBool True))) (tokenize rest)"
  "tokenize (''false'' @ rest) = map_option ((#) (TVal (JBool False))) (tokenize rest)"
  by (simp_all add: tokenize.simps(2) json_ws_def punct_def num_char_def is_digit_def literal_def starts_with_def)

lemma lex_punct: "punct c = Some t \<Longrightarrow> tokenize (c # rest) = map_option ((#) t) (tokenize rest)"
  by (auto simp: tokenize.simps(2) json_ws_def punct_def split: if_splits)

lemma lex_join:
  assumes "\<And>x rest. x \<in> set xs \<Longrightarrow> delim rest \<Longrightarrow>
      tokenize (f x @ rest) = map_option ((@) (g x)) (tokenize rest)"
    and "delim rest"
  shows "tokenize (join CHR '','' (map f xs) @ rest) =
      map_option ((@) (comma_join (map g xs))) (tokenize rest)"
  using assms
proof (induction xs rule: induct_list012)
  case 1
  then show ?case by (simp add: option.map_ident)
next
  case (3 x y zs)
  have comma: "tokenize (CHR '','' # t) = map_option ((#) TComma) (tokenize t)" for t
    by (simp add: lex_punct punct_def)
  have "tokenize (f x @ CHR '','' # t) = map_option ((@) (g x)) (tokenize (CHR '','' # t))" for t
    using 3 by (simp add: delim_def)
  with 3 show ?case by (simp add: comma option.map_comp o_def)
qed simp

lemma lex_stringify:
  "json_ok v \<Longrightarrow> delim rest \<Longrightarrow> tokenize (stringify v @ rest) = map_option ((@) (tokens_of v)) (tokenize rest)"
proof (induction v arbitrary: rest)
  case (JNum n)
  then obtain m where "n = num m" by (cases n) auto
  with JNum show ?case by (simp add: lex_show_int)
next
  case (JStr s)
  then show ?case by (simp add: lex_quote)
next
  case (JArr vs)
  have "tokenize (join CHR '','' (map stringify vs) @ CHR '']'' # rest) =
      map_option ((@) (comma_join (map tokens_of vs))) (tokenize (CHR '']'' # rest))"
    using JArr by (intro lex_join) (auto simp: list_all_iff delim_def)
  then show ?case
    by (simp add: lex_punct punct_def option.map_comp o_def)
next
  case (JObj ps)
  define f where "f = (\<lambda>(k, v). quote k @ CHR '':'' # stringify v)"
  define g where "g = (\<lambda>(k, v). TVal (JStr k) # TColon # tokens_of v)"
  have colon: "tokenize (CHR '':'' # t) = map_option ((#) TColon) (tokenize t)" for t
    by (simp add: lex_punct punct_def)
  have "tokenize (join CHR '','' (map f ps) @ CHR ''}'' # rest) =
      map_option ((@) (comma_join (map g ps))) (tokenize (CHR ''}'' # rest))"
  proof (rule lex_join)
    fix p rest
    assume p: "p \<in> set ps" and "delim rest"
    then have "tokenize (stringify (snd p) @ rest) = map_option ((@) (tokens_of (snd p))) (tokenize rest)"
      using JObj.prems(1) by (intro JObj.IH [of p "snd p"]) (auto simp: list_all_iff)
    then show "tokenize (f p @ rest) = map_option ((@) (g p)) (tokenize rest)"
      by (cases "tokenize rest") (simp_all add: f_def g_def case_prod_beta lex_quote colon)
  qed (simp add: delim_def)
  moreover have "filter (\<lambda>(k, v). v \<noteq> JUndef) ps = ps"
    using JObj.prems by (auto simp: filter_id_conv list_all_iff)
  ultimately show ?case
    by (simp add: lex_punct punct_def option.map_comp o_def f_def g_def)
next
  case JNull
  then show ?case using lex_word(1) [of rest] by (cases "tokenize rest") simp_all
next
  case (JBool b)
  then show ?case using lex_word(2,3) [of rest] by (cases "tokenize rest"; cases b) simp_all
qed simp

section \<open>The machine on the tokens of a value\<close>

lemma comma_join_Cons: "comma_join (map f (x # xs)) = f x @ concat (map (\<lambda>y. TComma # f y) xs)"
proof (induction xs arbitrary: x)
  case (Cons y ys)
  then show ?case by simp
qed simp

lemma tokens_of_first: "\<exists>t ts. tokens_of v = t # ts \<and> t \<noteq> TRBrack"
  by (cases v) auto

lemma run_first_element:
  "foldl jstep (fs, SValueOrEnd) (tokens_of v) = foldl jstep (FArr [] # fs, SValue) (tokens_of v)"
  using tokens_of_first [of v] by auto

lemma run_elements:
  assumes "\<And>v fs. v \<in> set vs \<Longrightarrow> foldl jstep (fs, SValue) (tokens_of v) = complete fs v"
  shows "foldl jstep (fs, SAfterArr us) (concat (map (\<lambda>v. TComma # tokens_of v) vs)) = (fs, SAfterArr (us @ vs))"
  using assms by (induction vs arbitrary: us) auto

lemma run_members:
  assumes "\<And>k v fs. (k, v) \<in> set ps \<Longrightarrow> foldl jstep (fs, SValue) (tokens_of v) = complete fs v"
    and "distinct (map fst (qs @ ps))"
  shows "foldl jstep (fs, SAfterObj qs)
      (concat (map (\<lambda>(k, v). TComma # TVal (JStr k) # TColon # tokens_of v) ps)) = (fs, SAfterObj (qs @ ps))"
  using assms
proof (induction ps arbitrary: qs)
  case (Cons p ps)
  obtain k v where p: "p = (k, v)" by (cases p)
  with Cons.prems have "map_of qs k = None" by (auto simp: map_of_eq_None_iff)
  moreover from Cons.prems(1) p have "foldl jstep (FObj qs k # fs, SValue) (tokens_of v) = complete (FObj qs k # fs) v"
    by (metis list.set_intros(1))
  moreover have "foldl jstep (fs, SAfterObj (qs @ [(k, v)]))
      (concat (map (\<lambda>(k, v). TComma # TVal (JStr k) # TColon # tokens_of v) ps)) = (fs, SAfterObj ((qs @ [(k, v)]) @ ps))"
    using Cons.prems p by (intro Cons.IH) auto
  ultimately show ?case by (simp add: p omap_set_fresh)
qed simp

lemma run_tokens: "json_ok v \<Longrightarrow> foldl jstep (fs, SValue) (tokens_of v) = complete fs v"
proof (induction v arbitrary: fs)
  case (JArr vs)
  show ?case
  proof (cases vs)
    case Nil
    then show ?thesis by (simp add: start_value_def)
  next
    case (Cons w ws)
    with JArr have "foldl jstep (fs, SValue) (tokens_of w) = complete fs w"
      and "foldl jstep (fs, SAfterArr us) (concat (map (\<lambda>v. TComma # tokens_of v) ws)) = (fs, SAfterArr (us @ ws))"
      for fs us
      by (auto simp: list_all_iff intro!: run_elements)
    then show ?thesis
      unfolding Cons tokens_of.simps comma_join_Cons
      by (simp add: start_value_def run_first_element)
  qed
next
  case (JObj ps)
  show ?case
  proof (cases ps)
    case Nil
    then show ?thesis by (simp add: start_value_def)
  next
    case (Cons p qs)
    obtain k w where p: "p = (k, w)" by (cases p)
    have IH: "foldl jstep (fs, SValue) (tokens_of v) = complete fs v" if "(k', v) \<in> set ps" for k' v fs
      using JObj that by (fastforce simp: list_all_iff)
    have "foldl jstep (fs, SAfterObj [(k, w)])
        (concat (map (\<lambda>(k, v). TComma # TVal (JStr k) # TColon # tokens_of v) qs)) = (fs, SAfterObj ((k, w) # qs))"
      using JObj.prems Cons p IH run_members [of qs "[(k, w)]" fs] by (auto simp: p)
    moreover have "concat (map (\<lambda>y. TComma # (case y of (k, v) \<Rightarrow> TVal (JStr k) # TColon # tokens_of v)) qs) =
        concat (map (\<lambda>(k, v). TComma # TVal (JStr k) # TColon # tokens_of v) qs)"
      by (rule arg_cong [where f = concat]) auto
    ultimately show ?thesis
      using IH [of k w] unfolding Cons p tokens_of.simps comma_join_Cons
      by (simp add: start_value_def)
  qed
qed (auto simp: start_value_def)

theorem parse_stringify: "json_ok v \<Longrightarrow> json_parse (stringify v) = Some v"
  using lex_stringify [of v "[]"] run_tokens [of v "[]"] by (simp add: json_parse_def delim_def)

lemma stringify_inject: "json_ok v \<Longrightarrow> json_ok w \<Longrightarrow> stringify v = stringify w \<longleftrightarrow> v = w"
  using parse_stringify by (metis option.inject)

end
