(* ===== verification/Bytes.thy ===== *)
theory Bytes
  imports Json "HOL-Library.Word"
begin

text \<open>
  Byte strings and their text encodings: \<^verbatim>\<open>shared/hex.js\<close>, \<^verbatim>\<open>shared/utf8.js\<close>,
  \<^verbatim>\<open>shared/fnv1a32.js\<close> and \<^verbatim>\<open>shared/base64.js\<close>. A \<open>Uint8Array\<close> is a list of
  \<^typ>\<open>char\<close>, one per byte. The code units of a modelled string are below 256, so UTF-8 uses
  one or two bytes each. The main results: hexadecimal and base64 are injective, decoding
  inverts encoding, and the canonical check accepts exactly the encoder's output.
\<close>

section \<open>UTF-8 and hexadecimal\<close>

definition utf8_char :: "char \<Rightarrow> char list" where
  "utf8_char c =
     (let n = (of_char c :: nat) in
      if n < 128 then [c] else [char_of (192 + n div 64), char_of (128 + n mod 64)])"

definition utf8_encode :: "string \<Rightarrow> char list" where
  "utf8_encode s = concat (map utf8_char s)"

definition SHORT_STRING_MAX_CODE_UNITS :: nat where
  "SHORT_STRING_MAX_CODE_UNITS = 512"

definition utf8ByteLength :: "string \<Rightarrow> nat" where
  "utf8ByteLength value =
     (if length value > SHORT_STRING_MAX_CODE_UNITS then length (utf8_encode value)
      else foldl (\<lambda>bytes c. if (of_char c :: nat) < 128 then bytes + 1 else bytes + 2) 0 value)"

definition bytesToHex :: "char list \<Rightarrow> string" where
  "bytesToHex bytes =
     foldl (\<lambda>out b. out @ [hex_digit (of_char b div 16), hex_digit (of_char b mod 16)]) [] bytes"

definition hash_step :: "32 word \<Rightarrow> char \<Rightarrow> 32 word" where
  "hash_step h b = (xor h (word_of_nat (of_char b))) * 16777619"

definition fnv1a32Utf8 :: "string \<Rightarrow> 32 word" where
  "fnv1a32Utf8 value = foldl hash_step 2166136261 (utf8_encode value)"

definition fnv1a32CodeUnits :: "string \<Rightarrow> 32 word" where
  "fnv1a32CodeUnits value = foldl hash_step 2166136261 value"

section \<open>Base64\<close>

definition b64_char :: "nat \<Rightarrow> char" where
  "b64_char n =
     (if n < 26 then char_of (65 + n) else if n < 52 then char_of (71 + n)
      else if n < 62 then char_of (n - 4) else if n = 62 then CHR ''+'' else CHR ''/'')"

definition base64Sextet :: "char \<Rightarrow> int" where
  "base64Sextet ch =
     (let code = int (of_char ch) in
      if 65 \<le> code \<and> code \<le> 90 then code - 65
      else if 97 \<le> code \<and> code \<le> 122 then code - 97 + 26
      else if 48 \<le> code \<and> code \<le> 57 then code - 48 + 52
      else if code = 43 then 62
      else if code = 47 then 63
      else - 1)"

definition b64_alphabet :: ranges where
  "b64_alphabet = [(CHR ''A'', CHR ''Z''), (CHR ''a'', CHR ''z''), (CHR ''0'', CHR ''9''),
     (CHR ''+'', CHR ''+''), (CHR ''/'', CHR ''/'')]"

text \<open>\<open>BASE64_NON_ALPHABET_RE.test\<close>: some character is outside of the alphabet.\<close>

definition BASE64_NON_ALPHABET :: "string \<Rightarrow> bool" where
  "BASE64_NON_ALPHABET s \<longleftrightarrow> list_ex (\<lambda>c. \<not> in_cls b64_alphabet c) s"

definition b64_space :: "char \<Rightarrow> bool" where
  "b64_space c \<longleftrightarrow> c \<in> {CHR 0x09, CHR 0x0A, CHR 0x0C, CHR 0x0D, CHR '' ''}"

definition validatedBufferBase64 :: "string \<Rightarrow> string result" where
  "validatedBufferBase64 value =
     (let payload = filter (\<lambda>c. \<not> b64_space c) value;
          payload = (if length payload mod 4 = 0
                     then if ends_with payload ''=='' then take (length payload - 2) payload
                          else if ends_with payload ''='' then take (length payload - 1) payload
                          else payload
                     else payload)
      in if length payload mod 4 = 1 \<or> BASE64_NON_ALPHABET payload then Throw JsTypeError
         else Ok payload)"

definition eq_char :: char where
  "eq_char = CHR ''=''"

fun bytesToBase64 :: "char list \<Rightarrow> string" where
  "bytesToBase64 [] = []"
| "bytesToBase64 [a] =
     [b64_char (of_char a div 4), b64_char ((of_char a mod 4) * 16), eq_char, eq_char]"
| "bytesToBase64 [a, b] =
     [b64_char (of_char a div 4), b64_char ((of_char a mod 4) * 16 + of_char b div 16),
      b64_char ((of_char b mod 16) * 4), eq_char]"
| "bytesToBase64 (a # b # c # rest) =
     b64_char (of_char a div 4) # b64_char ((of_char a mod 4) * 16 + of_char b div 16)
     # b64_char ((of_char b mod 16) * 4 + of_char c div 64) # b64_char (of_char c mod 64)
     # bytesToBase64 rest"

text \<open>The bytes of a list of sextets; a single sextet left over carries no byte.\<close>

fun sextet_bytes :: "nat list \<Rightarrow> char list" where
  "sextet_bytes (p # q # r # s # rest) =
     char_of (p * 4 + q div 16) # char_of ((q mod 16) * 16 + r div 4)
     # char_of ((r mod 4) * 64 + s) # sextet_bytes rest"
| "sextet_bytes [p, q, r] = [char_of (p * 4 + q div 16), char_of ((q mod 16) * 16 + r div 4)]"
| "sextet_bytes [p, q] = [char_of (p * 4 + q div 16)]"
| "sextet_bytes _ = []"

definition decodeBase64 :: "string \<Rightarrow> char list" where
  "decodeBase64 value =
     sextet_bytes (map (nat \<circ> base64Sextet) (takeWhile (\<lambda>c. c \<noteq> eq_char) value))"

definition base64ToBytes :: "string \<Rightarrow> char list result" where
  "base64ToBytes value = bind_result (validatedBufferBase64 value) (\<lambda>p. Ok (decodeBase64 p))"

definition b64_padding :: "string \<Rightarrow> nat" where
  "b64_padding value =
     (if value \<noteq> [] \<and> last value = eq_char
      then if butlast value \<noteq> [] \<and> last (butlast value) = eq_char then 2 else 1
      else 0)"

definition assertCanonicalBase64 :: "string \<Rightarrow> unit result" where
  "assertCanonicalBase64 value =
     (if length value mod 4 \<noteq> 0 then Throw JsTypeError
      else
        let padding = b64_padding value;
            payload = take (length value - padding) value;
            finalSextet = (if payload = [] then - 1 else base64Sextet (last payload))
        in if BASE64_NON_ALPHABET payload then Throw JsTypeError
           else if padding = 1 \<and> (finalSextet < 0 \<or> finalSextet mod 4 \<noteq> 0)
                   \<or> padding = 2 \<and> (finalSextet < 0 \<or> finalSextet mod 16 \<noteq> 0)
           then Throw JsTypeError
           else Ok ())"

definition canonicalBase64ToBytes :: "string \<Rightarrow> char list result" where
  "canonicalBase64ToBytes value =
     bind_result (assertCanonicalBase64 value) (\<lambda>_. Ok (decodeBase64 value))"

definition canonicalBase64DecodedLength :: "string \<Rightarrow> nat" where
  "canonicalBase64DecodedLength value =
     (let padding = (if ends_with value ''=='' then 2 else if ends_with value ''='' then 1 else 0)
      in (length value div 4) * 3 - padding)"

text \<open>\<open>prepareCanonicalBase64Values\<close>: every value is checked before the first one is decoded.\<close>

fun prepareCanonicalBase64Values ::
  "string option list \<Rightarrow> nat option \<Rightarrow> (char list option list) result" where
  "prepareCanonicalBase64Values [] maxDecodedBytes = Ok []"
| "prepareCanonicalBase64Values (None # vs) maxDecodedBytes =
     bind_result (prepareCanonicalBase64Values vs maxDecodedBytes) (\<lambda>r. Ok (None # r))"
| "prepareCanonicalBase64Values (Some v # vs) maxDecodedBytes =
     bind_result (assertCanonicalBase64 v) (\<lambda>_.
       if (case maxDecodedBytes of None \<Rightarrow> False | Some m \<Rightarrow> canonicalBase64DecodedLength v > m)
       then Throw JsTypeError
       else bind_result (prepareCanonicalBase64Values vs maxDecodedBytes) (\<lambda>r. Ok (Some (decodeBase64 v) # r)))"

definition textToBase64 :: "string \<Rightarrow> string" where
  "textToBase64 value = bytesToBase64 (utf8_encode value)"

section \<open>Encodings are injective\<close>

lemma utf8ByteLength_eq: "utf8ByteLength s = length (utf8_encode s)"
proof -
  have "foldl (\<lambda>bytes c. if (of_char c :: nat) < 128 then bytes + 1 else bytes + 2) n s
      = n + length (utf8_encode s)" for n
    by (induction s arbitrary: n) (auto simp: utf8_encode_def utf8_char_def Let_def)
  then show ?thesis by (simp add: utf8ByteLength_def)
qed

lemma bytesToHex_concat:
  "bytesToHex bs = concat (map (\<lambda>b. [hex_digit (of_char b div 16), hex_digit (of_char b mod 16)]) bs)"
proof -
  have "foldl (\<lambda>out b. out @ f b) acc bs = acc @ concat (map f bs)" for f :: "char \<Rightarrow> string" and acc
    by (induction bs arbitrary: acc) auto
  then show ?thesis by (simp add: bytesToHex_def)
qed

lemma length_bytesToHex [simp]: "length (bytesToHex bs) = 2 * length bs"
  by (induction bs) (auto simp: bytesToHex_concat)

lemma hex_digit_cls: "n < 16 \<Longrightarrow> in_cls [(CHR ''0'', CHR ''9''), (CHR ''a'', CHR ''f'')] (hex_digit n)"
  by (auto simp: hex_digit_def less_eq_char_def)

lemma of_char_less: "(of_char c :: nat) < 256"
  by (cases c) (simp add: of_char_def)

lemma hex_nibbles: "(of_char c :: nat) div 16 < 16" "(of_char c :: nat) mod 16 < 16"
  using of_char_less [of c] by (simp_all add: div_less_iff_less_mult)

lemma bytesToHex_digits: "c \<in> set (bytesToHex bs) \<Longrightarrow> in_cls [(CHR ''0'', CHR ''9''), (CHR ''a'', CHR ''f'')] c"
proof -
  assume "c \<in> set (bytesToHex bs)"
  then obtain b where "c = hex_digit (of_char b div 16) \<or> c = hex_digit (of_char b mod 16)"
    unfolding bytesToHex_concat by auto
  then obtain n where "c = hex_digit n" "n < 16" using hex_nibbles by blast
  then show ?thesis by (metis hex_digit_cls)
qed

lemma hex_digit_inject:
  assumes "m < 16" "n < 16" "hex_digit m = hex_digit n"
  shows "m = n"
proof -
  have code: "(of_char (hex_digit k) :: nat) = (if k < 10 then 48 + k else 87 + k)" if "k < 16" for k
    using that by (simp add: hex_digit_def)
  have "(if m < 10 then 48 + m else 87 + m) = (if n < 10 then 48 + n else 87 + n)"
    using code [OF assms(1)] code [OF assms(2)] unfolding assms(3) by (rule trans [OF sym])
  with assms(1,2) show ?thesis by presburger
qed

section \<open>Base64: the encoder's output is what the canonical check accepts\<close>

lemma sextet_b64_char: "n < 64 \<Longrightarrow> base64Sextet (b64_char n) = int n"
  by (auto simp: base64Sextet_def b64_char_def Let_def)

lemma nat_sextet [simp]: "n < 64 \<Longrightarrow> nat (base64Sextet (b64_char n)) = n"
  by (simp add: sextet_b64_char)

lemma sextet_mod [simp]:
  "n < 64 \<Longrightarrow> n mod 16 = 0 \<Longrightarrow> base64Sextet (b64_char n) mod 16 = 0"
  "n < 64 \<Longrightarrow> n mod 4 = 0 \<Longrightarrow> base64Sextet (b64_char n) mod 4 = 0"
  by (simp_all add: sextet_b64_char) presburger+

lemma b64_char_alphabet [simp]: "n < 64 \<Longrightarrow> in_cls b64_alphabet (b64_char n)"
  by (auto simp: b64_char_def b64_alphabet_def less_eq_char_def)

lemma eq_char_alphabet [simp]: "\<not> in_cls b64_alphabet eq_char"
  by (simp add: b64_alphabet_def eq_char_def)

lemma b64_char_neq [simp]: "n < 64 \<Longrightarrow> b64_char n \<noteq> eq_char" "n < 64 \<Longrightarrow> eq_char \<noteq> b64_char n"
  using b64_char_alphabet eq_char_alphabet by metis+

lemma char_of_plus_slash: "char_of (43::nat) = CHR ''+''" "char_of (47::nat) = CHR ''/''"
  by code_simp+

lemma b64_char_sextet:
  assumes "in_cls b64_alphabet c"
  shows "0 \<le> base64Sextet c" "base64Sextet c < 64" "b64_char (nat (base64Sextet c)) = c"
proof -
  define n where "n = (of_char c :: nat)"
  have c: "c = char_of n" by (simp add: n_def)
  have "65 \<le> n \<and> n \<le> 90 \<or> 97 \<le> n \<and> n \<le> 122 \<or> 48 \<le> n \<and> n \<le> 57 \<or> n = 43 \<or> n = 47"
    using assms by (auto simp: b64_alphabet_def less_eq_char_def n_def)
  then show "0 \<le> base64Sextet c" "base64Sextet c < 64" "b64_char (nat (base64Sextet c)) = c"
    unfolding base64Sextet_def Let_def n_def [symmetric]
    by (auto simp: b64_char_def c char_of_plus_slash nat_diff_distrib nat_add_distrib)
qed

lemma nat_parts:
  assumes "(x::nat) < 256" "y < 256"
  shows "x div 4 < 64" "(x mod 4) * 16 + y div 16 < 64" "(x mod 4) * 16 < 64" "(x mod 16) * 4 < 64"
    "(x mod 16) * 4 + y div 64 < 64" "x mod 64 < 64"
proof -
  have "x mod 4 < 4" "x mod 16 < 16" "y div 16 < 16" "y div 64 < 4" using assms by auto
  then show "(x mod 4) * 16 + y div 16 < 64" "(x mod 16) * 4 + y div 64 < 64"
    "(x mod 4) * 16 < 64" "(x mod 16) * 4 < 64" by linarith+
qed (use assms in auto)

lemma of_char_parts:
  "(of_char c :: nat) div 16 div 16 = 0" "(of_char c :: nat) div 16 mod 16 = of_char c div 16"
  "(of_char c :: nat) div 64 div 4 = 0" "(of_char c :: nat) div 64 mod 4 = of_char c div 64"
proof -
  have "(of_char c :: nat) div 64 < 4" using of_char_less [of c] by (simp add: div_less_iff_less_mult)
  then show "(of_char c :: nat) div 16 div 16 = 0" "(of_char c :: nat) div 16 mod 16 = of_char c div 16"
    "(of_char c :: nat) div 64 div 4 = 0" "(of_char c :: nat) div 64 mod 4 = of_char c div 64"
    using hex_nibbles [of c] by simp_all
qed

lemmas b64_parts = nat_parts [OF of_char_less of_char_less]

theorem decode_encode: "decodeBase64 (bytesToBase64 bs) = bs"
  by (induction bs rule: bytesToBase64.induct) (simp_all add: decodeBase64_def b64_parts of_char_parts)

lemma length_bytesToBase64: "length (bytesToBase64 bs) mod 4 = 0"
  by (induction bs rule: bytesToBase64.induct) auto

text \<open>The payload and the padding of an encoding.\<close>

fun b64_payload :: "char list \<Rightarrow> string" where
  "b64_payload [] = []"
| "b64_payload [a] = [b64_char (of_char a div 4), b64_char ((of_char a mod 4) * 16)]"
| "b64_payload [a, b] =
     [b64_char (of_char a div 4), b64_char ((of_char a mod 4) * 16 + of_char b div 16),
      b64_char ((of_char b mod 16) * 4)]"
| "b64_payload (a # b # c # rest) =
     b64_char (of_char a div 4) # b64_char ((of_char a mod 4) * 16 + of_char b div 16)
     # b64_char ((of_char b mod 16) * 4 + of_char c div 64) # b64_char (of_char c mod 64)
     # b64_payload rest"

definition b64_pad :: "nat \<Rightarrow> nat" where
  "b64_pad n = (if n mod 3 = 0 then 0 else if n mod 3 = 1 then 2 else 1)"

lemma replicate_2: "replicate 2 x = [x, x]"
  by (simp add: numeral_2_eq_2)

lemma mod_3_Suc: "Suc (Suc (Suc n)) mod 3 = n mod 3"
  by presburger

lemma encode_payload: "bytesToBase64 bs = b64_payload bs @ replicate (b64_pad (length bs)) eq_char"
  by (induction bs rule: bytesToBase64.induct) (simp_all add: b64_pad_def mod_3_Suc replicate_2)

lemma payload_alphabet: "c \<in> set (b64_payload bs) \<Longrightarrow> in_cls b64_alphabet c"
  by (induction bs rule: b64_payload.induct) (auto simp: b64_parts)

lemma b64_padding_append:
  assumes "\<And>c. c \<in> set p \<Longrightarrow> in_cls b64_alphabet c" "k \<le> 2"
  shows "b64_padding (p @ replicate k eq_char) = k"
proof -
  have "p \<noteq> [] \<Longrightarrow> last p \<noteq> eq_char" using assms(1) eq_char_alphabet by (metis last_in_set)
  moreover have "k = 0 \<or> k = 1 \<or> k = 2" using assms(2) by auto
  ultimately show ?thesis
    by (auto simp: b64_padding_def replicate_2 butlast_append)
qed

lemma payload_last:
  "bs \<noteq> [] \<Longrightarrow> b64_payload bs \<noteq> [] \<and>
     (length bs mod 3 = 1 \<longrightarrow> base64Sextet (last (b64_payload bs)) mod 16 = 0) \<and>
     (length bs mod 3 = 2 \<longrightarrow> base64Sextet (last (b64_payload bs)) mod 4 = 0)"
proof (induction bs rule: b64_payload.induct)
  case (4 a b c rest)
  then show ?case by (cases "rest = []") (simp_all add: mod_3_Suc)
qed (simp_all add: b64_parts)

lemma sextet_nonneg: "in_cls b64_alphabet c \<Longrightarrow> \<not> base64Sextet c < 0"
  using b64_char_sextet(1) by fastforce

lemma canonical_encode: "assertCanonicalBase64 (bytesToBase64 bs) = Ok ()"
proof -
  let ?p = "b64_payload bs" and ?k = "b64_pad (length bs)"
  have k: "b64_padding (bytesToBase64 bs) = ?k"
    unfolding encode_payload by (rule b64_padding_append) (auto simp: payload_alphabet b64_pad_def)
  have p: "take (length (bytesToBase64 bs) - ?k) (bytesToBase64 bs) = ?p" by (simp add: encode_payload)
  have a: "\<not> BASE64_NON_ALPHABET ?p" by (auto simp: BASE64_NON_ALPHABET_def list_ex_iff payload_alphabet)
  show ?thesis
  proof (cases "bs = []")
    case False
    with payload_last [of bs] have l: "?p \<noteq> []" by simp
    then have "\<not> base64Sextet (last ?p) < 0" by (intro sextet_nonneg payload_alphabet [of _ bs]) simp
    with l False payload_last [of bs] a show ?thesis
      unfolding assertCanonicalBase64_def Let_def k p
      by (auto simp: length_bytesToBase64 b64_pad_def split: if_splits)
  qed (simp add: assertCanonicalBase64_def b64_padding_def BASE64_NON_ALPHABET_def)
qed

text \<open>
  The converse: a payload over the alphabet whose last sextet has no stray bits is the
  payload of the bytes it decodes to.
\<close>

lemma sextet_split:
  assumes "(p::nat) < 64" "q < 64" "r < 64" "s < 64"
  shows "p * 4 + q div 16 < 256" "(q mod 16) * 16 + r div 4 < 256" "(r mod 4) * 64 + s < 256"
    "(p * 4 + q div 16) div 4 = p" "(p * 4 + q div 16) mod 4 * 16 + ((q mod 16) * 16 + r div 4) div 16 = q"
    "((q mod 16) * 16 + r div 4) mod 16 * 4 + ((r mod 4) * 64 + s) div 64 = r" "((r mod 4) * 64 + s) mod 64 = s"
    "q mod 16 = 0 \<Longrightarrow> (p * 4 + q div 16) mod 4 * 16 = q"
    "r mod 4 = 0 \<Longrightarrow> ((q mod 16) * 16 + r div 4) mod 16 * 4 = r"
proof -
  define q1 q2 r1 r2 where "q1 = q div 16" and "q2 = q mod 16" and "r1 = r div 4" and "r2 = r mod 4"
  have q: "q = q1 * 16 + q2" "q1 < 4" "q2 < 16" and r: "r = r1 * 4 + r2" "r1 < 16" "r2 < 4"
    using assms by (auto simp: q1_def q2_def r1_def r2_def div_less_iff_less_mult)
  have 1: "(p * 4 + q1) div 4 = p" "(p * 4 + q1) mod 4 = q1" using q by auto
  have 2: "(q2 * 16 + r1) div 16 = q2" "(q2 * 16 + r1) mod 16 = r1" using r by auto
  have 3: "(r2 * 64 + s) div 64 = r2" "(r2 * 64 + s) mod 64 = s" using assms by auto
  show "p * 4 + q div 16 < 256" "(q mod 16) * 16 + r div 4 < 256" "(r mod 4) * 64 + s < 256"
    "(p * 4 + q div 16) div 4 = p" "(p * 4 + q div 16) mod 4 * 16 + ((q mod 16) * 16 + r div 4) div 16 = q"
    "((q mod 16) * 16 + r div 4) mod 16 * 4 + ((r mod 4) * 64 + s) div 64 = r" "((r mod 4) * 64 + s) mod 64 = s"
    "q mod 16 = 0 \<Longrightarrow> (p * 4 + q div 16) mod 4 * 16 = q"
    "r mod 4 = 0 \<Longrightarrow> ((q mod 16) * 16 + r div 4) mod 16 * 4 = r"
    unfolding q1_def [symmetric] q2_def [symmetric] r1_def [symmetric] r2_def [symmetric] 1 2 3
    using assms q r by simp_all
qed

lemma of_char_char_of: "n < 256 \<Longrightarrow> of_char (char_of n) = (n::nat)"
  by simp

lemma utf8_char_cases:
  "utf8_char c = (if (of_char c :: nat) < 128 then [c] else [char_of (192 + of_char c div 64 :: nat), char_of (128 + of_char c mod 64 :: nat)])"
  by (simp add: utf8_char_def Let_def)

lemma utf8_char_inject: "utf8_char a @ x = utf8_char b @ y \<Longrightarrow> a = b \<and> x = y"
proof -
  assume eq: "utf8_char a @ x = utf8_char b @ y"
  have hi: "of_char (char_of (192 + of_char c div 64 :: nat)) = (192 + of_char c div 64 :: nat)" for c :: char
    using of_char_less [of c] by (intro of_char_char_of) linarith
  have lo: "of_char (char_of (128 + of_char c mod 64 :: nat)) = (128 + of_char c mod 64 :: nat)" for c :: char
    by simp
  consider (ss) "(of_char a :: nat) < 128" "(of_char b :: nat) < 128"
    | (ls) "\<not> (of_char a :: nat) < 128" "(of_char b :: nat) < 128"
    | (sl) "(of_char a :: nat) < 128" "\<not> (of_char b :: nat) < 128"
    | (ll) "\<not> (of_char a :: nat) < 128" "\<not> (of_char b :: nat) < 128" by blast
  then show ?thesis
  proof cases
    case ss
    then show ?thesis using eq by (simp add: utf8_char_cases)
  next
    case ls
    then have "of_char b = (192 + of_char a div 64 :: nat)"
      using eq hi [of a] by (auto simp: utf8_char_cases)
    then show ?thesis using ls(2) by simp
  next
    case sl
    then have "of_char a = (192 + of_char b div 64 :: nat)"
      using eq hi [of b] by (auto simp: utf8_char_cases)
    then show ?thesis using sl(1) by simp
  next
    case ll
    then have "char_of (192 + of_char a div 64 :: nat) = (char_of (192 + of_char b div 64 :: nat) :: char)"
      "char_of (128 + of_char a mod 64 :: nat) = (char_of (128 + of_char b mod 64 :: nat) :: char)" "x = y"
      using eq by (simp_all only: utf8_char_cases if_False append_Cons append_Nil list.inject)
    from arg_cong [OF this(1), of "of_char :: char \<Rightarrow> nat"] arg_cong [OF this(2), of "of_char :: char \<Rightarrow> nat"]
    have "(of_char a :: nat) div 64 = of_char b div 64" "(of_char a :: nat) mod 64 = of_char b mod 64"
      unfolding hi lo by simp_all
    then have "(of_char a :: nat) = of_char b" by (metis div_mult_mod_eq)
    then show ?thesis using \<open>x = y\<close> by simp
  qed
qed

lemma utf8_char_nonempty [simp]: "utf8_char c \<noteq> []"
  by (simp add: utf8_char_cases)

lemma utf8_encode_inject: "utf8_encode s = utf8_encode t \<longleftrightarrow> s = t"
proof
  show "utf8_encode s = utf8_encode t \<Longrightarrow> s = t"
  proof (induction s arbitrary: t)
    case Nil
    then show ?case by (cases t) (auto simp: utf8_encode_def)
  next
    case (Cons a s)
    then obtain b t' where t: "t = b # t'" by (cases t) (auto simp: utf8_encode_def)
    with Cons.prems have "utf8_char a @ utf8_encode s = utf8_char b @ utf8_encode t'"
      by (simp add: utf8_encode_def)
    from utf8_char_inject [OF this] Cons.IH t show ?case by simp
  qed
qed simp

fun stray_bits :: "nat list \<Rightarrow> bool" where
  "stray_bits (p # q # r # s # rest) = stray_bits rest"
| "stray_bits [p, q, r] = (r mod 4 \<noteq> 0)"
| "stray_bits [p, q] = (q mod 16 \<noteq> 0)"
| "stray_bits [p] = True"
| "stray_bits [] = False"

lemma payload_sextet_bytes:
  "list_all (\<lambda>n. n < 64) ns \<Longrightarrow> \<not> stray_bits ns \<Longrightarrow> b64_payload (sextet_bytes ns) = map b64_char ns"
proof (induction ns rule: stray_bits.induct)
  case (1 p q r s rest)
  then show ?case using sextet_split [of p q r s] by simp
next
  case (2 p q r)
  then show ?case using sextet_split [of p q r 0] by simp
next
  case (3 p q)
  then show ?case using sextet_split [of p q 0 0] by simp
qed simp_all

lemma stray_bits_last:
  assumes "length ns mod 4 = 0 \<or> length ns mod 4 = 3 \<and> last ns mod 4 = 0 \<or> length ns mod 4 = 2 \<and> last ns mod 16 = 0"
  shows "\<not> stray_bits ns"
  using assms
proof (induction ns rule: stray_bits.induct)
  case (1 p q r s rest)
  then show ?case by (cases "rest = []") simp_all
qed simp_all

lemma length_sextet_bytes:
  "length (sextet_bytes ns) = (length ns div 4) * 3 + (if length ns mod 4 = 0 then 0 else length ns mod 4 - 1)"
  by (induction ns rule: sextet_bytes.induct) simp_all

lemma b64_pad_Suc: "b64_pad (Suc (Suc (Suc n))) = b64_pad n"
  by (simp add: b64_pad_def mod_3_Suc)

lemma pad_length_sextet_bytes:
  "length ns mod 4 \<noteq> 1 \<Longrightarrow> b64_pad (length (sextet_bytes ns)) = (4 - length ns mod 4) mod 4"
proof (induction ns rule: sextet_bytes.induct)
  case (1 p q r s rest)
  then show ?case by (simp add: b64_pad_Suc)
qed (simp_all add: b64_pad_def)

lemma b64_padding_split: "v = take (length v - b64_padding v) v @ replicate (b64_padding v) eq_char"
proof (cases v rule: rev_cases)
  case (snoc w x)
  then show ?thesis
    by (cases w rule: rev_cases) (auto simp: b64_padding_def replicate_2 butlast_append)
qed (simp add: b64_padding_def)

lemma canonical_stray:
  assumes "assertCanonicalBase64 v = Ok ()"
  defines "p \<equiv> take (length v - b64_padding v) v"
  shows "\<And>x. x \<in> set p \<Longrightarrow> in_cls b64_alphabet x"
    and "b64_padding v = 1 \<Longrightarrow> p \<noteq> [] \<and> base64Sextet (last p) mod 4 = 0"
    and "b64_padding v = 2 \<Longrightarrow> p \<noteq> [] \<and> base64Sextet (last p) mod 16 = 0"
    and "length v mod 4 = 0"
  using assms(1) unfolding assertCanonicalBase64_def Let_def p_def [symmetric]
  by (auto simp: BASE64_NON_ALPHABET_def list_ex_iff split: if_splits)

lemma b64_padding_le: "b64_padding v \<le> 2"
  by (simp add: b64_padding_def)

lemma padding_arith:
  assumes "(l + k) mod 4 = 0" "k \<le> (2::nat)"
  shows "k = 0 \<and> l mod 4 = 0 \<or> k = 1 \<and> l mod 4 = 3 \<or> k = 2 \<and> l mod 4 = 2"
proof -
  have "(l mod 4 + k) mod 4 = 0" using assms(1) by (simp add: mod_add_left_eq)
  moreover have "l mod 4 \<in> {0, 1, 2, 3}" by auto
  moreover have "k \<in> {0, 1, 2}" using assms(2) by auto
  ultimately show ?thesis by (auto dest: dvd_imp_le)
qed

lemma int_mod_zero: "int n mod int m = 0 \<Longrightarrow> n mod m = 0"
  by (simp flip: zmod_int)

theorem canonical_iff: "assertCanonicalBase64 v = Ok () \<longleftrightarrow> (\<exists>bs. v = bytesToBase64 bs)"
proof
  assume c: "assertCanonicalBase64 v = Ok ()"
  define k where "k = b64_padding v"
  define p where "p = take (length v - k) v"
  define ns where "ns = map (nat \<circ> base64Sextet) p"
  note can = canonical_stray [OF c, folded k_def, folded p_def]
  have v: "v = p @ replicate k eq_char" using b64_padding_split [of v] by (simp add: p_def k_def)
  have "(length p + k) mod 4 = 0" using can(4) arg_cong [OF v, of length] by simp
  then have arith: "k = 0 \<and> length ns mod 4 = 0 \<or> k = 1 \<and> length ns mod 4 = 3 \<or> k = 2 \<and> length ns mod 4 = 2"
    using padding_arith [of "length p" k] b64_padding_le [of v] by (simp add: ns_def k_def)
  have small: "list_all (\<lambda>n. n < 64) ns" using can(1) b64_char_sextet by (auto simp: ns_def list_all_iff nat_less_iff)
  have p: "p = map b64_char ns" using can(1) by (simp add: ns_def b64_char_sextet map_idI cong: map_cong)
  have last: "base64Sextet (last p) = int (last ns)" if "p \<noteq> []"
    using that can(1) b64_char_sextet(1) by (simp add: ns_def last_map)
  have "k = 1 \<Longrightarrow> last ns mod 4 = 0" "k = 2 \<Longrightarrow> last ns mod 16 = 0"
    using can(2,3) last int_mod_zero [of "last ns" 4] int_mod_zero [of "last ns" 16] by simp_all
  then have "\<not> stray_bits ns"
    using arith by (intro stray_bits_last) blast
  then have "b64_payload (sextet_bytes ns) = p" using payload_sextet_bytes [OF small] p by simp
  then have "v = bytesToBase64 (sextet_bytes ns)"
    using v arith pad_length_sextet_bytes [of ns] by (auto simp: encode_payload)
  then show "\<exists>bs. v = bytesToBase64 bs" by blast
next
  assume "\<exists>bs. v = bytesToBase64 bs"
  then show "assertCanonicalBase64 v = Ok ()" using canonical_encode by blast
qed

lemma ends_with_eq_padding:
  assumes "b64_padding v = k" "length v mod 4 = 0"
  shows "(if ends_with v ''=='' then 2 else if ends_with v ''='' then 1 else 0) = k"
proof (cases v rule: rev_cases)
  case (snoc w x)
  note w = this
  show ?thesis
  proof (cases w rule: rev_cases)
    case Nil
    with w assms(2) show ?thesis by simp
  next
    case (snoc u y)
    with w assms(1) show ?thesis
      by (auto simp: b64_padding_def ends_with_def eq_char_def butlast_append)
  qed
qed (use assms in \<open>simp add: b64_padding_def ends_with_def\<close>)

lemma length_b64_payload: "length (b64_payload bs) + b64_pad (length bs) = 4 * ((length bs + 2) div 3)"
proof (induction bs rule: b64_payload.induct)
  case (4 a b c rest)
  define q where "q = (length rest + 2) div 3"
  have IH: "length (b64_payload rest) + b64_pad (length rest) = 4 * q" using 4 unfolding q_def .
  have eqs: "length (b64_payload (a # b # c # rest)) = length (b64_payload rest) + 4"
    "b64_pad (length (a # b # c # rest)) = b64_pad (length rest)"
    "(length (a # b # c # rest) + 2) div 3 = q + 1"
    by (simp_all add: b64_pad_Suc q_def)
  show ?case unfolding eqs using IH by simp
qed (simp_all add: b64_pad_def)

lemma pad_arith: "n = (n + 2) div 3 * 3 - b64_pad n"
proof -
  define q r where "q = n div 3" and "r = n mod 3"
  have n: "n = 3 * q + r" by (simp add: q_def r_def)
  have "r = 0 \<or> r = 1 \<or> r = 2" by (auto simp: r_def)
  moreover have "n mod 3 = r" by (simp add: r_def)
  ultimately show ?thesis by (auto simp: b64_pad_def n)
qed

lemma decoded_length:
  assumes "assertCanonicalBase64 v = Ok ()"
  shows "canonicalBase64DecodedLength v = length (decodeBase64 v)"
proof -
  obtain bs where v: "v = bytesToBase64 bs" using assms canonical_iff by blast
  have k: "b64_padding v = b64_pad (length bs)"
    unfolding v encode_payload by (rule b64_padding_append) (auto simp: payload_alphabet b64_pad_def)
  have len: "length v = 4 * ((length bs + 2) div 3)"
    unfolding v encode_payload by (simp add: length_b64_payload)
  have "length bs = (length bs + 2) div 3 * 3 - b64_pad (length bs)"
    by (rule pad_arith)
  moreover have e: "(if ends_with v ''=='' then 2 else if ends_with v ''='' then 1 else 0) = b64_pad (length bs)"
    using k len by (intro ends_with_eq_padding) simp_all
  moreover have "length v div 4 = (length bs + 2) div 3" "length (decodeBase64 v) = length bs"
    using len by (simp_all add: v decode_encode)
  ultimately show ?thesis
    unfolding canonicalBase64DecodedLength_def Let_def e by (simp only:)
qed

lemma bytesToHex_inject: "bytesToHex a = bytesToHex b \<longleftrightarrow> a = b"
proof
  show "bytesToHex a = bytesToHex b \<Longrightarrow> a = b"
  proof (induction a arbitrary: b)
    case Nil
    then show ?case by (cases b) (auto simp: bytesToHex_concat)
  next
    case (Cons x xs)
    then obtain y ys where b: "b = y # ys" by (cases b) (auto simp: bytesToHex_concat)
    with Cons.prems have h: "hex_digit (of_char x div 16) = hex_digit (of_char y div 16)"
      "hex_digit (of_char x mod 16) = hex_digit (of_char y mod 16)" "bytesToHex xs = bytesToHex ys"
      by (simp_all add: bytesToHex_concat)
    then have "(of_char x :: nat) div 16 = of_char y div 16" "(of_char x :: nat) mod 16 = of_char y mod 16"
      using hex_digit_inject hex_nibbles by blast+
    then have "(of_char x :: nat) = of_char y" by (metis div_mult_mod_eq)
    with Cons.IH h(3) b show ?case by simp
  qed
qed simp

lemma fnv1a32_ascii:
  "\<forall>c \<in> set s. (of_char c :: nat) < 128 \<Longrightarrow> fnv1a32Utf8 s = fnv1a32CodeUnits s"
proof -
  assume "\<forall>c \<in> set s. (of_char c :: nat) < 128"
  then have "utf8_encode s = s" by (induction s) (auto simp: utf8_encode_def utf8_char_def Let_def)
  then show ?thesis by (simp add: fnv1a32Utf8_def fnv1a32CodeUnits_def)
qed

end
