(* ===== verification/Js_Date.thy ===== *)
theory Js_Date
  imports Wdl_Regex
begin

text \<open>
  The part of \<open>Date\<close> the token records use: \<open>Date.parse\<close> on strings of the strict
  form \<open>YYYY-MM-DDTHH:MM:SS[.fff]Z\<close>, the UTC components of a time value and
  \<open>toISOString\<close>. A time value is an \<^typ>\<open>int\<close>, milliseconds since 1970. A day of the month
  up to 31 rolls forward into the next month, hour 24 is accepted at midnight, any other
  field out of range makes the parse fail, as in V8. \<open>parse_toISOString\<close> and
  \<open>fields_make_time\<close> are the two round trips.
\<close>

section \<open>Days and years\<close>

definition leap :: "int \<Rightarrow> bool" where
  "leap y \<longleftrightarrow> y mod 4 = 0 \<and> y mod 100 \<noteq> 0 \<or> y mod 400 = 0"

definition day_from_year :: "int \<Rightarrow> int" where
  "day_from_year y =
     365 * (y - 1970) + (y - 1969) div 4 - (y - 1901) div 100 + (y - 1601) div 400"

definition year_from_day :: "int \<Rightarrow> int" where
  "year_from_day n =
     (let c = 1970 + (400 * n) div 146097 in
      if day_from_year (c + 1) \<le> n then c + 1 else if day_from_year c \<le> n then c else c - 1)"

definition month_start :: "bool \<Rightarrow> nat list" where
  "month_start l =
     (if l then [0, 31, 60, 91, 121, 152, 182, 213, 244, 274, 305, 335, 366]
      else [0, 31, 59, 90, 120, 151, 181, 212, 243, 273, 304, 334, 365])"

text \<open>The month of a day of the year: how many months have started.\<close>

definition month_of :: "bool \<Rightarrow> nat \<Rightarrow> nat" where
  "month_of l yd = length (filter (\<lambda>m. m \<le> yd) (butlast (month_start l)))"

definition make_day :: "int \<Rightarrow> nat \<Rightarrow> nat \<Rightarrow> int" where
  "make_day y m d = day_from_year y + int (month_start (leap y) ! (m - 1)) + int d - 1"

definition civil :: "int \<Rightarrow> int \<times> nat \<times> nat" where
  "civil n =
     (let y = year_from_day n; yd = nat (n - day_from_year y); m = month_of (leap y) yd
      in (y, m, yd - month_start (leap y) ! (m - 1) + 1))"

definition valid_date :: "int \<Rightarrow> nat \<Rightarrow> nat \<Rightarrow> bool" where
  "valid_date y m d \<longleftrightarrow> 1 \<le> m \<and> m \<le> 12 \<and> 1 \<le> d
     \<and> month_start (leap y) ! (m - 1) + d \<le> month_start (leap y) ! m"

lemma div_step:
  assumes "(k::int) > 0"
  shows "(x + 1) div k = x div k + (if (x + 1) mod k = 0 then 1 else 0)"
proof -
  have x: "x + 1 = k * (x div k) + (x mod k + 1)" by simp
  have r: "0 \<le> x mod k" "x mod k < k" using assms by simp_all
  show ?thesis
  proof (cases "x mod k + 1 = k")
    case True
    then have "x + 1 = k * (x div k + 1)" using x unfolding distrib_left by linarith
    with assms show ?thesis by simp
  next
    case False
    with r have "(x + 1) div k = x div k" "(x + 1) mod k = x mod k + 1"
      using int_div_pos_eq [OF x] int_mod_pos_eq [OF x] by simp_all
    with r show ?thesis by simp
  qed
qed

lemma mod_multiple_shift: "((y::int) + d) mod k = 0 \<longleftrightarrow> y mod k = 0" if "k dvd d"
  using that by (simp add: dvd_add_left_iff flip: dvd_eq_mod_eq_0)

text \<open>The arithmetic of \<open>year_length\<close>, away from the divisions.\<close>

lemma year_length_sum:
  assumes "a' = a + (if p then 1 else 0)" "b' = b + (if q then 1 else 0)" "c' = c + (if r then 1 else 0)"
    and "r \<Longrightarrow> q" "q \<Longrightarrow> p"
    and "d' = 365 * x + 365 + a' - b' + c'" "d = 365 * x + a - b + c"
  shows "d' = d + (if p \<and> \<not> q \<or> r then 366 else 365 :: int)"
  using assms by auto

lemma year_length: "day_from_year (y + 1) = day_from_year y + (if leap y then 366 else 365)"
proof -
  have "(y - 1968) div 4 = (y - 1969) div 4 + (if y mod 4 = 0 then 1 else 0)"
    using div_step [of 4 "y - 1969"] mod_multiple_shift [of 4 "- 1968" y] by simp
  moreover have "(y - 1900) div 100 = (y - 1901) div 100 + (if y mod 100 = 0 then 1 else 0)"
    using div_step [of 100 "y - 1901"] mod_multiple_shift [of 100 "- 1900" y] by simp
  moreover have "(y - 1600) div 400 = (y - 1601) div 400 + (if y mod 400 = 0 then 1 else 0)"
    using div_step [of 400 "y - 1601"] mod_multiple_shift [of 400 "- 1600" y] by simp
  moreover have "y mod 400 = 0 \<Longrightarrow> y mod 100 = 0" "y mod 100 = 0 \<Longrightarrow> y mod 4 = 0"
    using dvd_trans [of 100 400 y] dvd_trans [of 4 100 y] by (simp_all flip: dvd_eq_mod_eq_0)
  moreover have "day_from_year (y + 1) =
      365 * (y - 1970) + 365 + (y - 1968) div 4 - (y - 1900) div 100 + (y - 1600) div 400"
    by (simp add: day_from_year_def)
  ultimately show ?thesis
    unfolding leap_def by (rule year_length_sum [OF _ _ _ _ _ _ day_from_year_def])
qed

lemma day_from_year_mono: "y < z \<Longrightarrow> day_from_year y < day_from_year z"
proof (induction "nat (z - y)" arbitrary: z)
  case (Suc k)
  have "day_from_year y \<le> day_from_year (z - 1)"
    using Suc by (cases "y = z - 1") (auto intro: less_imp_le)
  with year_length [of "z - 1"] show ?case by (auto split: if_splits)
qed simp

lemma div_bounds: "(k::int) > 0 \<Longrightarrow> k * (x div k) \<le> x \<and> x < k * (x div k) + k"
  using mult_div_mod_eq [of k x] pos_mod_bound [of k x] pos_mod_sign [of k x] by linarith

lemma day_from_year_bounds:
  "146097 * (y - 1970) - 600 \<le> 400 * day_from_year y \<and> 400 * day_from_year y \<le> 146097 * (y - 1970) + 600"
proof -
  define a b c where "a = (y - 1969) div 4" and "b = (y - 1901) div 100" and "c = (y - 1601) div 400"
  have "4 * a \<le> y - 1969 \<and> y - 1969 < 4 * a + 4" unfolding a_def by (rule div_bounds) simp
  moreover have "100 * b \<le> y - 1901 \<and> y - 1901 < 100 * b + 100" unfolding b_def by (rule div_bounds) simp
  moreover have "400 * c \<le> y - 1601 \<and> y - 1601 < 400 * c + 400" unfolding c_def by (rule div_bounds) simp
  ultimately show ?thesis
    unfolding day_from_year_def a_def [symmetric] b_def [symmetric] c_def [symmetric] by auto
qed

lemma year_from_day_correct:
  "day_from_year (year_from_day n) \<le> n \<and> n < day_from_year (year_from_day n + 1)"
proof -
  define k where "k = (400 * n) div 146097"
  define c where "c = 1970 + k"
  have "146097 * k + (400 * n) mod 146097 = 400 * n"
    unfolding k_def by (rule mult_div_mod_eq)
  moreover have "0 \<le> (400 * n) mod 146097" "(400 * n) mod 146097 < 146097" by simp_all
  ultimately have "146097 * (c - 1970) \<le> 400 * n" "400 * n < 146097 * (c - 1970) + 146097"
    unfolding c_def by simp_all
  then have "day_from_year (c - 1) \<le> n" "n < day_from_year (c + 2)"
    using day_from_year_bounds [of "c - 1"] day_from_year_bounds [of "c + 2"] by simp_all
  moreover have "year_from_day n =
      (if day_from_year (c + 1) \<le> n then c + 1 else if day_from_year c \<le> n then c else c - 1)"
    by (simp add: year_from_day_def c_def k_def Let_def)
  ultimately show ?thesis by (simp add: not_le add.commute)
qed

lemma year_from_day_unique:
  assumes "day_from_year y \<le> n" "n < day_from_year (y + 1)"
  shows "year_from_day n = y"
proof (rule ccontr)
  assume "year_from_day n \<noteq> y"
  then consider "year_from_day n + 1 \<le> y" | "y + 1 \<le> year_from_day n" by linarith
  then show False
  proof cases
    case 1
    then have "day_from_year (year_from_day n + 1) \<le> day_from_year y"
      using day_from_year_mono [of "year_from_day n + 1" y] by (cases "year_from_day n + 1 = y") auto
    with assms year_from_day_correct [of n] show False by linarith
  next
    case 2
    then have "day_from_year (y + 1) \<le> day_from_year (year_from_day n)"
      using day_from_year_mono [of "y + 1" "year_from_day n"] by (cases "year_from_day n = y + 1") auto
    with assms year_from_day_correct [of n] show False by linarith
  qed
qed

section \<open>Months\<close>

lemma month_cases:
  assumes "1 \<le> (m::nat)" "m \<le> 12"
  shows "m \<in> {1, 2, 3, 4, 5, 6, 7, 8, 9, 10, 11, 12}"
  using assms unfolding insert_iff empty_iff by presburger

lemma month_of_start:
  assumes "1 \<le> m" "m \<le> 12" "month_start l ! (m - 1) \<le> yd" "yd < month_start l ! m"
  shows "month_of l yd = m"
proof -
  have "m \<in> {1, 2, 3, 4, 5, 6, 7, 8, 9, 10, 11, 12}" using assms(1,2) by (rule month_cases)
  with assms(3,4) show ?thesis
    by (cases l) (auto simp: month_of_def month_start_def)
qed

lemma month_exists:
  assumes "yd < month_start l ! 12"
  shows "\<exists>m. 1 \<le> m \<and> m \<le> 12 \<and> month_start l ! (m - 1) \<le> yd \<and> yd < month_start l ! m"
proof -
  define m where "m = (LEAST m. yd < month_start l ! m)"
  have "yd < month_start l ! m" unfolding m_def using assms by (rule LeastI)
  moreover have "m \<le> 12" unfolding m_def using assms by (rule Least_le)
  moreover have "m \<noteq> 0" using calculation(1) by (cases l) (auto simp: month_start_def intro!: gr0I)
  moreover from this have "\<not> yd < month_start l ! (m - 1)"
    unfolding m_def using not_less_Least [of "m - 1" "\<lambda>m. yd < month_start l ! m"] m_def by simp
  ultimately show ?thesis by (intro exI [of _ m]) simp
qed

lemma month_of_bounds:
  assumes "yd < month_start l ! 12"
  shows "1 \<le> month_of l yd \<and> month_of l yd \<le> 12 \<and> month_start l ! (month_of l yd - 1) \<le> yd
    \<and> yd < month_start l ! (month_of l yd)"
  using month_exists [OF assms] month_of_start by metis

lemma month_start_year: "int (month_start (leap y) ! 12) = day_from_year (y + 1) - day_from_year y"
  by (simp add: month_start_def year_length)

lemma month_start_le_year: "m \<le> 12 \<Longrightarrow> month_start l ! m \<le> month_start l ! 12"
  by (cases l; cases "m = 0") (use month_cases [of m] in \<open>auto simp: month_start_def\<close>)

theorem civil_make_day: "valid_date y m d \<Longrightarrow> civil (make_day y m d) = (y, m, d)"
proof -
  assume v: "valid_date y m d"
  define s where "s = month_start (leap y) ! (m - 1)"
  define e where "e = month_start (leap y) ! m"
  have vd: "1 \<le> m" "m \<le> 12" "1 \<le> d" "s + d \<le> e" using v by (auto simp: valid_date_def s_def e_def)
  have "e \<le> month_start (leap y) ! 12" using vd by (simp add: e_def month_start_le_year)
  then have "int e \<le> day_from_year (y + 1) - day_from_year y" using month_start_year [of y] by simp
  then have y: "year_from_day (make_day y m d) = y"
    using vd by (intro year_from_day_unique) (auto simp: make_day_def s_def)
  have yd: "nat (make_day y m d - day_from_year y) = s + d - 1"
    using vd by (simp add: make_day_def s_def)
  have "month_of (leap y) (s + d - 1) = m"
    using vd by (intro month_of_start) (auto simp: s_def e_def)
  with y yd vd show ?thesis by (simp add: civil_def Let_def s_def)
qed

theorem make_day_civil:
  assumes "civil n = (y, m, d)"
  shows "make_day y m d = n \<and> valid_date y m d"
proof -
  define yd where "yd = nat (n - day_from_year y)"
  have y: "y = year_from_day n" using assms by (simp add: civil_def Let_def)
  have n: "day_from_year y \<le> n" "n < day_from_year (y + 1)" using year_from_day_correct y by simp_all
  then have "yd < month_start (leap y) ! 12" using month_start_year [of y] by (simp add: yd_def)
  note m = month_of_bounds [OF this]
  have md: "m = month_of (leap y) yd" "d = yd - month_start (leap y) ! (m - 1) + 1"
    using assms y by (auto simp: civil_def Let_def yd_def)
  from m have "make_day y m d = n" using n by (simp add: make_day_def md yd_def)
  moreover from m have "valid_date y m d" by (auto simp: valid_date_def md)
  ultimately show ?thesis by simp
qed

lemma month_length_le: "m \<le> 11 \<Longrightarrow> month_start l ! Suc m \<le> month_start l ! m + 31"
proof -
  assume "m \<le> 11"
  then have "Suc m \<in> {1, 2, 3, 4, 5, 6, 7, 8, 9, 10, 11, 12}" by (intro month_cases) auto
  then show ?thesis by (cases l) (auto simp: month_start_def)
qed

lemma valid_date_day_le: "valid_date y m d \<Longrightarrow> d \<le> 31"
proof -
  assume v: "valid_date y m d"
  then have "m - 1 \<le> 11" "Suc (m - 1) = m" by (auto simp: valid_date_def)
  with month_length_le [of "m - 1" "leap y"] v show ?thesis by (simp add: valid_date_def)
qed

section \<open>Time values\<close>

record fields =
  f_year :: int
  f_month :: nat
  f_day :: nat
  f_hour :: nat
  f_minute :: nat
  f_second :: nat
  f_ms :: nat

definition fields_of :: "int \<Rightarrow> fields" where
  "fields_of t =
     (let (y, m, d) = civil (t div 86400000); r = nat (t mod 86400000) in
      \<lparr>f_year = y, f_month = m, f_day = d, f_hour = r div 3600000, f_minute = (r div 60000) mod 60,
       f_second = (r div 1000) mod 60, f_ms = r mod 1000\<rparr>)"

definition time_in_day :: "nat \<Rightarrow> nat \<Rightarrow> nat \<Rightarrow> nat \<Rightarrow> int" where
  "time_in_day h mi s ms = int (((h * 60 + mi) * 60 + s) * 1000 + ms)"

definition make_time :: "fields \<Rightarrow> int" where
  "make_time f =
     make_day (f_year f) (f_month f) (f_day f) * 86400000
     + time_in_day (f_hour f) (f_minute f) (f_second f) (f_ms f)"

definition valid_fields :: "fields \<Rightarrow> bool" where
  "valid_fields f \<longleftrightarrow> valid_date (f_year f) (f_month f) (f_day f)
     \<and> f_hour f < 24 \<and> f_minute f < 60 \<and> f_second f < 60 \<and> f_ms f < 1000"

lemma clock_split:
  assumes "h < 24" "mi < 60" "s < 60" "ms < (1000::nat)"
  defines "r \<equiv> ((h * 60 + mi) * 60 + s) * 1000 + ms"
  shows "r < 86400000" "r div 3600000 = h" "(r div 60000) mod 60 = mi" "(r div 1000) mod 60 = s" "r mod 1000 = ms"
proof -
  have 1: "r div 1000 = (h * 60 + mi) * 60 + s" using assms by simp
  then have 2: "r div 60000 = h * 60 + mi" using assms div_mult2_eq [of r 1000 60] by simp
  then show "r div 3600000 = h" using assms div_mult2_eq [of r 60000 60] by simp
  show "r < 86400000" using assms by simp
  show "(r div 60000) mod 60 = mi" unfolding 2 using assms by simp
  show "(r div 1000) mod 60 = s" unfolding 1 using assms(3) by (simp only: mod_mult_self3 mod_less)
  show "r mod 1000 = ms" unfolding r_def using assms(4) by (simp only: mod_mult_self3 mod_less)
qed

theorem fields_make_time:
  assumes "valid_fields f"
  shows "fields_of (make_time f) = f"
proof -
  define n where "n = make_day (f_year f) (f_month f) (f_day f)"
  define r where "r = ((f_hour f * 60 + f_minute f) * 60 + f_second f) * 1000 + f_ms f"
  have v: "f_hour f < 24" "f_minute f < 60" "f_second f < 60" "f_ms f < 1000"
    using assms by (auto simp: valid_fields_def)
  note c = clock_split [OF v, folded r_def]
  have t: "make_time f = n * 86400000 + int r" by (simp add: make_time_def time_in_day_def n_def r_def)
  have d: "make_time f div 86400000 = n" "make_time f mod 86400000 = int r"
    using c(1) unfolding t by simp_all
  have "civil n = (f_year f, f_month f, f_day f)"
    using assms by (simp add: n_def civil_make_day valid_fields_def)
  with c show ?thesis
    by (simp add: fields_of_def d del: div_mult_self1 div_mult_self2)
qed

lemma clock_join:
  "((r div 3600000 * 60 + (r div 60000) mod 60) * 60 + (r div 1000) mod 60) * 1000 + r mod 1000 = (r::nat)"
proof -
  have "r div 3600000 = r div 60000 div 60" "r div 60000 = r div 1000 div 60"
    by (simp_all add: div_mult2_eq [symmetric])
  then have "r div 3600000 * 60 + (r div 60000) mod 60 = r div 60000"
    "r div 60000 * 60 + (r div 1000) mod 60 = r div 1000" by simp_all
  then show ?thesis by simp
qed

theorem make_time_fields: "make_time (fields_of t) = t \<and> valid_fields (fields_of t)"
proof -
  obtain y m d where c: "civil (t div 86400000) = (y, m, d)" by (cases "civil (t div 86400000)")
  define r where "r = nat (t mod 86400000)"
  have r: "r < 86400000" "int r = t mod 86400000" by (simp_all add: r_def nat_less_iff)
  note md = make_day_civil [OF c]
  have f: "fields_of t = \<lparr>f_year = y, f_month = m, f_day = d, f_hour = r div 3600000,
      f_minute = (r div 60000) mod 60, f_second = (r div 1000) mod 60, f_ms = r mod 1000\<rparr>"
    by (simp add: fields_of_def c r_def Let_def)
  have "make_time (fields_of t) = t div 86400000 * 86400000 + int r"
    unfolding f make_time_def time_in_day_def using md clock_join [of r] by (simp del: of_nat_add of_nat_mult)
  moreover have "valid_fields (fields_of t)"
    using md r(1) by (simp add: valid_fields_def f div_less_iff_less_mult)
  ultimately show ?thesis by (simp add: r(2))
qed

section \<open>The ISO form\<close>

fun pad :: "nat \<Rightarrow> nat \<Rightarrow> string" where
  "pad 0 n = []"
| "pad (Suc k) n = pad k (n div 10) @ [digit_char (n mod 10)]"

definition iso_year :: "int \<Rightarrow> string" where
  "iso_year y =
     (if 0 \<le> y \<and> y \<le> 9999 then pad 4 (nat y)
      else (if y < 0 then CHR ''-'' else CHR ''+'') # pad 6 (nat \<bar>y\<bar>))"

text \<open>Evaluation of the ISO form works on binary integers.\<close>

lemma fields_of_code [code]:
  "fields_of t =
     (let (y, m, d) = civil (t div 86400000); r = t mod 86400000 in
      \<lparr>f_year = y, f_month = m, f_day = d, f_hour = nat (r div 3600000), f_minute = nat ((r div 60000) mod 60),
       f_second = nat ((r div 1000) mod 60), f_ms = nat (r mod 1000)\<rparr>)"
  by (simp add: fields_of_def Let_def nat_div_distrib nat_mod_distrib split: prod.split)

lemma pad_code: "0 \<le> y \<Longrightarrow> pad (Suc k) (nat y) = pad k (nat (y div 10)) @ [digit_char (nat (y mod 10))]"
  by (simp add: nat_div_distrib nat_mod_distrib)

fun pad_int :: "nat \<Rightarrow> int \<Rightarrow> string" where
  "pad_int 0 n = []"
| "pad_int (Suc k) n = pad_int k (n div 10) @ [digit_char (nat (n mod 10))]"

lemma pad_pad_int: "0 \<le> y \<Longrightarrow> pad k (nat y) = pad_int k y"
  by (induction k arbitrary: y) (simp_all add: pad_code pos_imp_zdiv_nonneg_iff del: pad.simps(2))

lemma iso_year_code [code]:
  "iso_year y =
     (if 0 \<le> y \<and> y \<le> 9999 then pad_int 4 y
      else (if y < 0 then CHR ''-'' else CHR ''+'') # pad_int 6 \<bar>y\<bar>)"
  by (simp add: iso_year_def pad_pad_int)

definition toISOString :: "int \<Rightarrow> string" where
  "toISOString t =
     (let f = fields_of t in
      iso_year (f_year f) @ CHR ''-'' # pad 2 (f_month f) @ CHR ''-'' # pad 2 (f_day f) @
      CHR ''T'' # pad 2 (f_hour f) @ CHR '':'' # pad 2 (f_minute f) @ CHR '':'' # pad 2 (f_second f) @
      CHR ''.'' # pad 3 (f_ms f) @ ''Z'')"

definition digit_rx :: "nat \<Rightarrow> rx" where
  "digit_rx k = RRep k k (Cls [(CHR ''0'', CHR ''9'')])"

definition STRICT_ISO_UTC_RE :: rx where
  "STRICT_ISO_UTC_RE =
     RSeq (digit_rx 4) (RSeq (RCh CHR ''-'') (RSeq (digit_rx 2) (RSeq (RCh CHR ''-'') (RSeq (digit_rx 2)
     (RSeq (RCh CHR ''T'') (RSeq (digit_rx 2) (RSeq (RCh CHR '':'') (RSeq (digit_rx 2) (RSeq (RCh CHR '':'')
     (RSeq (digit_rx 2)
     (RSeq (ROpt (RSeq (RCh CHR ''.'') (RRep 1 3 (Cls [(CHR ''0'', CHR ''9'')])))) (RCh CHR ''Z''))))))))))))"

text \<open>The fields of a string in the strict form, before any range check.\<close>

definition iso_fields :: "string \<Rightarrow> fields" where
  "iso_fields s =
     (let frac = butlast (drop 20 s) in
      \<lparr>f_year = int (digits_val (take 4 s)), f_month = digits_val (take 2 (drop 5 s)),
       f_day = digits_val (take 2 (drop 8 s)), f_hour = digits_val (take 2 (drop 11 s)),
       f_minute = digits_val (take 2 (drop 14 s)), f_second = digits_val (take 2 (drop 17 s)),
       f_ms = digits_val (frac @ replicate (3 - length frac) CHR ''0'')\<rparr>)"

text \<open>\<open>Date.parse\<close> on a string in the strict form; \<^const>\<open>None\<close> is \<open>NaN\<close>.\<close>

definition parse_iso :: "string \<Rightarrow> int option" where
  "parse_iso s =
     (let f = iso_fields s in
      if 1 \<le> f_month f \<and> f_month f \<le> 12 \<and> 1 \<le> f_day f \<and> f_day f \<le> 31
         \<and> (f_hour f < 24 \<and> f_minute f < 60 \<and> f_second f < 60
            \<or> f_hour f = 24 \<and> f_minute f = 0 \<and> f_second f = 0 \<and> f_ms f = 0)
      then Some (make_time f) else None)"

lemma length_pad [simp]: "length (pad k n) = k"
  by (induction k arbitrary: n) auto

lemma digits_val_pad [simp]: "digits_val (pad k n) = n mod 10 ^ k"
proof (induction k arbitrary: n)
  case (Suc k)
  then show ?case by (simp add: mod_mult2_eq)
qed simp

lemma pad_digits: "\<forall>c \<in> set (pad k n). is_digit c"
  by (induction k arbitrary: n) auto

lemma rx_test_digits: "rx_test (digit_rx k) (pad k n)"
  using pad_digits [of k n] by (auto simp: digit_rx_def rx_test_rep_cls is_digit_def)

lemma rx_test_seqI: "rx_test r u \<Longrightarrow> rx_test s v \<Longrightarrow> rx_test (RSeq r s) (u @ v)"
  by (auto simp: rx_test_seq)

lemma rx_test_seq_chI: "rx_test s v \<Longrightarrow> rx_test (RSeq (RCh c) s) (c # v)"
  by (simp add: rx_test_seq_ch)

definition year_range :: "int \<Rightarrow> bool" where
  "year_range t \<longleftrightarrow> - 62167219200000 \<le> t \<and> t \<le> 253402300799999"

lemma year_range_iff: "year_range t \<longleftrightarrow> 0 \<le> f_year (fields_of t) \<and> f_year (fields_of t) \<le> 9999"
proof -
  define n where "n = t div 86400000"
  have y: "f_year (fields_of t) = year_from_day n"
    by (simp add: fields_of_def n_def civil_def Let_def)
  have "day_from_year 0 = - 719528" "day_from_year 10000 = 2932897" by code_simp+
  moreover have "0 \<le> year_from_day n \<longleftrightarrow> day_from_year 0 \<le> n"
    using year_from_day_correct [of n] day_from_year_mono [of "year_from_day n + 1" 0]
      day_from_year_mono [of 0 "year_from_day n"] by (cases "year_from_day n" "0::int" rule: linorder_cases; cases "year_from_day n + 1 = 0") auto
  moreover have "year_from_day n \<le> 9999 \<longleftrightarrow> n < day_from_year 10000"
    using year_from_day_correct [of n] day_from_year_mono [of "year_from_day n + 1" 10000]
      day_from_year_mono [of 10000 "year_from_day n"]
    by (cases "year_from_day n" "10000::int" rule: linorder_cases; cases "year_from_day n + 1 = 10000") auto
  moreover have "year_range t \<longleftrightarrow> - 719528 \<le> n \<and> n < 2932897"
    unfolding year_range_def n_def by (auto simp: div_less_iff_less_mult pos_le_divide_eq) 
  ultimately show ?thesis using y by simp
qed

lemma fields_small:
  "f_month (fields_of t) < 100" "f_day (fields_of t) < 100" "f_hour (fields_of t) < 100"
  "f_minute (fields_of t) < 100" "f_second (fields_of t) < 100" "f_ms (fields_of t) < 1000"
proof -
  have v: "valid_fields (fields_of t)" using make_time_fields by simp
  then show "f_month (fields_of t) < 100" "f_hour (fields_of t) < 100" "f_minute (fields_of t) < 100"
    "f_second (fields_of t) < 100" "f_ms (fields_of t) < 1000"
    by (simp_all add: valid_fields_def valid_date_def)
  have "f_day (fields_of t) \<le> 31" using v unfolding valid_fields_def by (blast intro: valid_date_day_le)
  then show "f_day (fields_of t) < 100" by simp
qed

lemma toISOString_form:
  assumes "year_range t"
  shows "rx_test STRICT_ISO_UTC_RE (toISOString t)"
proof -
  have y: "iso_year (f_year (fields_of t)) = pad 4 (nat (f_year (fields_of t)))"
    using assms by (simp add: iso_year_def year_range_iff)
  have frac: "rx_test (RSeq (ROpt (RSeq (RCh CHR ''.'') (RRep 1 3 (Cls [(CHR ''0'', CHR ''9'')])))) (RCh CHR ''Z''))
      ((CHR ''.'' # pad 3 n) @ ''Z'')" for n
  proof (rule rx_test_seqI)
    show "rx_test (ROpt (RSeq (RCh CHR ''.'') (RRep 1 3 (Cls [(CHR ''0'', CHR ''9'')])))) (CHR ''.'' # pad 3 n)"
      using pad_digits [of 3 n] by (auto simp: rx_test_opt rx_test_seq_ch rx_test_rep_cls is_digit_def)
    show "rx_test (RCh CHR ''Z'') ''Z''" by (simp add: RCh_def rx_test.simps)
  qed
  show ?thesis
    unfolding toISOString_def STRICT_ISO_UTC_RE_def Let_def y
    by (intro rx_test_seqI rx_test_seq_chI rx_test_digits frac [unfolded append_Cons])
qed

lemma iso_fields_toISOString: "year_range t \<Longrightarrow> iso_fields (toISOString t) = fields_of t"
  using fields_small [of t]
  by (intro fields.equality)
     (simp_all add: iso_fields_def toISOString_def Let_def iso_year_def year_range_iff nat_less_iff)

theorem parse_toISOString: "year_range t \<Longrightarrow> parse_iso (toISOString t) = Some t"
proof -
  assume "year_range t"
  then have f: "iso_fields (toISOString t) = fields_of t" by (rule iso_fields_toISOString)
  have v: "valid_fields (fields_of t)" and t: "make_time (fields_of t) = t"
    using make_time_fields [of t] by simp_all
  have "f_day (fields_of t) \<le> 31" using v unfolding valid_fields_def by (blast intro: valid_date_day_le)
  with v t show ?thesis by (simp add: parse_iso_def f Let_def valid_fields_def valid_date_def)
qed

lemma toISOString_inject: "year_range t \<Longrightarrow> year_range u \<Longrightarrow> toISOString t = toISOString u \<longleftrightarrow> t = u"
  by (metis parse_toISOString option.inject)

text \<open>Outside of the four-digit years the form starts with a sign, so it is not strict.\<close>

lemma toISOString_strict_range: "rx_test STRICT_ISO_UTC_RE (toISOString t) \<Longrightarrow> year_range t"
proof (rule ccontr)
  assume s: "rx_test STRICT_ISO_UTC_RE (toISOString t)" and "\<not> year_range t"
  then obtain c w where c: "toISOString t = c # w" "c = CHR ''-'' \<or> c = CHR ''+''"
    by (auto simp: year_range_iff toISOString_def Let_def iso_year_def)
  obtain u v where u: "toISOString t = u @ v" "rx_test (digit_rx 4) u"
    using s unfolding STRICT_ISO_UTC_RE_def rx_test_seq [of "digit_rx 4"] by blast
  from u(2) have len: "length u = 4" and digits: "\<forall>d \<in> set u. CHR ''0'' \<le> d \<and> d \<le> CHR ''9''"
    by (auto simp: digit_rx_def rx_test_rep_cls)
  from len u(1) c(1) have "c \<in> set u" by (cases u) auto
  with digits have "CHR ''0'' \<le> c" by blast
  with c(2) show False by auto
qed

end
