(* ===== verification/Auth_Lib.thy ===== *)
theory Auth_Lib
  imports Auth_Roles Bytes Js_Date
begin

text \<open>
  \<^verbatim>\<open>auth/lib.js\<close>: the pure half of the auth worker. Token generation and hashing, timestamps,
  delegated issue templates, the access decision, the checks on issue input and on persisted
  records. The random bytes of WebCrypto and its SHA-256 digest are parameters, and so is
  \<open>legacy\<close>, the implementation-defined reading \<open>Date.parse\<close> gives a string outside of the
  strict form. An \<open>AuthPolicyError\<close> is a \<^const>\<open>CodedError\<close> with its status and reason.
\<close>

section \<open>Tokens\<close>

definition BOOTSTRAP_TOKEN_ID :: string where
  "BOOTSTRAP_TOKEN_ID = ''bootstrap''"

abbreviation AuthPolicyError :: "nat \<Rightarrow> string \<Rightarrow> 'a result" where
  "AuthPolicyError status reason \<equiv> Throw (CodedError status reason)"

definition url_char :: "char \<Rightarrow> char" where
  "url_char c = (if c = CHR ''+'' then CHR ''-'' else if c = CHR ''/'' then CHR ''_'' else c)"

definition base64urlEncode :: "char list \<Rightarrow> string" where
  "base64urlEncode bytes =
     rev (dropWhile (\<lambda>c. c = eq_char) (rev (map url_char (bytesToBase64 bytes))))"

definition generatePlaintextToken :: "char list \<Rightarrow> string" where
  "generatePlaintextToken buf = base64urlEncode buf"

text \<open>The argument holds the successive fills of the 16-byte buffer, one per call.\<close>

fun generateTokenId :: "char list list \<Rightarrow> string option" where
  "generateTokenId [] = None"
| "generateTokenId (buf # bufs) =
     (let id = base64urlEncode buf in
      if id = BOOTSTRAP_TOKEN_ID then generateTokenId bufs else Some id)"

definition hashToken :: "(char list \<Rightarrow> char list) \<Rightarrow> string \<Rightarrow> string" where
  "hashToken sha256 plaintext = bytesToHex (sha256 (utf8_encode plaintext))"

section \<open>Timestamps\<close>

definition SHA256_HEX_RE :: rx where
  "SHA256_HEX_RE = RRep 64 64 (Cls [(CHR ''0'', CHR ''9''), (CHR ''a'', CHR ''f'')])"

definition ISSUE_TEMPLATE_ID_RE :: rx where
  "ISSUE_TEMPLATE_ID_RE = rx_ident [(CHR ''a'', CHR ''z'')] cls_lower_hyphen 63"

definition STORED_TIMESTAMP_FIELDS :: "string list" where
  "STORED_TIMESTAMP_FIELDS = [''created_at'', ''expires_at'', ''revoked_at'', ''expired_at'']"

definition isCanonicalStoredTimestamp :: "string \<Rightarrow> bool" where
  "isCanonicalStoredTimestamp value =
     (if \<not> rx_test STRICT_ISO_UTC_RE value then False
      else case parse_iso value of
             None \<Rightarrow> False
           | Some ms \<Rightarrow> toISOString ms = value)"

definition validateExpiresAt :: "jsval \<Rightarrow> int \<Rightarrow> string option result" where
  "validateExpiresAt value now =
     (if nullish value then Ok None
      else case value of
        JStr s \<Rightarrow>
          if \<not> rx_test STRICT_ISO_UTC_RE s then AuthPolicyError 400 ''invalid_expires_at''
          else (case parse_iso s of
                  None \<Rightarrow> AuthPolicyError 400 ''invalid_expires_at''
                | Some ms \<Rightarrow>
                    (let d = fields_of ms; m = iso_fields s in
                     if f_year d \<noteq> f_year m \<or> f_month d \<noteq> f_month m \<or> f_day d \<noteq> f_day m
                        \<or> f_hour d \<noteq> f_hour m \<or> f_minute d \<noteq> f_minute m \<or> f_second d \<noteq> f_second m
                     then AuthPolicyError 400 ''invalid_expires_at''
                     else if ms \<le> now then AuthPolicyError 400 ''expired_at_in_past''
                     else Ok (Some (toISOString ms))))
      | _ \<Rightarrow> AuthPolicyError 400 ''invalid_expires_at'')"

section \<open>Delegated issue templates\<close>

record delegated_template =
  t_id :: string
  t_targetKind :: string
  t_prefix :: string
  t_randomHexBytes :: nat
  t_labelTemplate :: string
  t_ttlSeconds :: nat
  t_activeQuota :: nat
  t_version :: string

definition DELEGATED_ISSUE_TEMPLATES :: "delegated_template list" where
  "DELEGATED_ISSUE_TEMPLATES =
     [\<lparr>t_id = ''wdl-chat-ns-pool'', t_targetKind = ''ns'', t_prefix = ''tmp-'', t_randomHexBytes = 4,
       t_labelTemplate = ''workshop-pool {ns}'', t_ttlSeconds = 6 * 60 * 60, t_activeQuota = 100,
       t_version = ''1''\<rparr>,
      \<lparr>t_id = ''wdl-cli-integration'', t_targetKind = ''ns'', t_prefix = ''cli-it-'', t_randomHexBytes = 4,
       t_labelTemplate = ''cli live integration {ns}'', t_ttlSeconds = 60 * 60, t_activeQuota = 50,
       t_version = ''1''\<rparr>]"

definition isIssueTemplateId :: "jsval \<Rightarrow> bool" where
  "isIssueTemplateId v \<longleftrightarrow> is_string v \<and> rx_test ISSUE_TEMPLATE_ID_RE (str_of v)"

definition assertIssueTemplateId :: "jsval \<Rightarrow> unit result" where
  "assertIssueTemplateId v =
     (if \<not> isIssueTemplateId v then AuthPolicyError 400 ''invalid_template_request'' else Ok ())"

fun collectTemplateIds :: "string list \<Rightarrow> jsval list \<Rightarrow> string list result" where
  "collectTemplateIds ids [] = Ok ids"
| "collectTemplateIds ids (item # items) =
     bind_result (assertIssueTemplateId item) (\<lambda>_.
       collectTemplateIds (if str_of item \<in> set ids then ids else ids @ [str_of item]) items)"

definition validateIssueTemplatesInput :: "jsval \<Rightarrow> string list result" where
  "validateIssueTemplatesInput value =
     (case value of
        JArr items \<Rightarrow>
          if items = [] then AuthPolicyError 400 ''invalid_template_request''
          else if length items > 32 then AuthPolicyError 400 ''invalid_template_request''
          else collectTemplateIds [] items
      | _ \<Rightarrow> AuthPolicyError 400 ''invalid_template_request'')"

definition parseStoredIssueTemplates :: "jsval \<Rightarrow> string list result" where
  "parseStoredIssueTemplates stored =
     (if \<not> is_string stored \<or> str_of stored = [] then AuthPolicyError 503 ''invalid_issue_templates''
      else case json_parse (str_of stored) of
             None \<Rightarrow> AuthPolicyError 503 ''invalid_issue_templates''
           | Some parsed \<Rightarrow>
               (case validateIssueTemplatesInput parsed of
                  Inl _ \<Rightarrow> AuthPolicyError 503 ''invalid_issue_templates''
                | Inr ids \<Rightarrow> Ok ids))"

definition resolveDelegatedIssueTemplate :: "string \<Rightarrow> delegated_template result" where
  "resolveDelegatedIssueTemplate templateId =
     (case find (\<lambda>t. t_id t = templateId) DELEGATED_ISSUE_TEMPLATES of
        None \<Rightarrow> AuthPolicyError 400 ''invalid_template''
      | Some t \<Rightarrow> Ok t)"

text \<open>\<open>s.replaceAll(pat, r)\<close> for a non-empty \<open>pat\<close>.\<close>

function replace_all :: "string \<Rightarrow> string \<Rightarrow> string \<Rightarrow> string" where
  "replace_all pat r s =
     (if pat = [] \<or> s = [] then s
      else if starts_with s pat then r @ replace_all pat r (drop (length pat) s)
      else hd s # replace_all pat r (tl s))"
  by auto
termination
  by (relation "measure (\<lambda>(pat, r, s). length s)") auto

declare replace_all.simps [simp del]

definition renderDelegatedIssueLabel :: "delegated_template \<Rightarrow> string \<Rightarrow> string" where
  "renderDelegatedIssueLabel template ns = replace_all ''{ns}'' ns (t_labelTemplate template)"

section \<open>Records\<close>

record token_record =
  tr_hash :: string
  tr_kind :: string
  tr_ns :: "string option"
  tr_label :: "string option"
  tr_created_at :: "string option"
  tr_created_by :: "string option"
  tr_expires_at :: "string option"
  tr_revoked_at :: "string option"
  tr_expired_at :: "string option"
  tr_issue_templates :: "string option"
  tr_issue_template :: "string option"
  tr_issue_template_version :: "string option"

fun opt_val :: "string option \<Rightarrow> jsval" where
  "opt_val None = JUndef"
| "opt_val (Some s) = JStr s"

text \<open>A record as the object it is in the source; absent fields are keys with \<open>undefined\<close>.\<close>

definition token_obj :: "token_record \<Rightarrow> jsval" where
  "token_obj r =
     JObj [(''hash'', JStr (tr_hash r)), (''kind'', JStr (tr_kind r)), (''ns'', opt_val (tr_ns r)),
           (''label'', opt_val (tr_label r)), (''created_at'', opt_val (tr_created_at r)),
           (''created_by'', opt_val (tr_created_by r)), (''expires_at'', opt_val (tr_expires_at r)),
           (''revoked_at'', opt_val (tr_revoked_at r)), (''expired_at'', opt_val (tr_expired_at r)),
           (''issue_templates'', opt_val (tr_issue_templates r)),
           (''issue_template'', opt_val (tr_issue_template r)),
           (''issue_template_version'', opt_val (tr_issue_template_version r))]"

definition Date_parse :: "(string \<Rightarrow> int option) \<Rightarrow> string \<Rightarrow> int option" where
  "Date_parse legacy s = (if rx_test STRICT_ISO_UTC_RE s then parse_iso s else legacy s)"

definition isExpired :: "(string \<Rightarrow> int option) \<Rightarrow> token_record option \<Rightarrow> int \<Rightarrow> bool" where
  "isExpired legacy record now =
     (case record of
        None \<Rightarrow> False
      | Some r \<Rightarrow>
          (case tr_expires_at r of
             None \<Rightarrow> False
           | Some e \<Rightarrow>
               if e = [] then False
               else (case Date_parse legacy e of None \<Rightarrow> False | Some ms \<Rightarrow> ms \<le> now)))"

definition isRevoked :: "token_record option \<Rightarrow> bool" where
  "isRevoked record =
     (case record of None \<Rightarrow> False | Some r \<Rightarrow> (case tr_revoked_at r of None \<Rightarrow> False | Some s \<Rightarrow> s \<noteq> []))"

section \<open>The access decision\<close>

datatype decision = Allow | Deny string

definition evaluateAccess :: "jsval \<Rightarrow> jsval \<Rightarrow> jsval \<Rightarrow> jsval \<Rightarrow> decision" where
  "evaluateAccess action ns kind principalNs =
     (let k = str_of kind; n = str_of ns; a = str_of action;
          opsOnly = (\<lambda>reason. if k = ''ops'' then Allow else Deny reason) in
      if \<not> is_string kind \<or> map_of ROLES k = None then Deny ''unknown_role''
      else
        let reservedGate = is_string ns \<and> isReservedNs ns \<and> n \<notin> set PLATFORM_TIER_RESERVED_NS in
        if reservedGate \<and> k = ''ops'' then Allow
        else if reservedGate \<and> k \<notin> set OPS_KINDS then Deny ''reserved_ns_requires_ops''
        else if is_string ns \<and> n \<in> set RESERVED_TENANT_NS then opsOnly ''reserved_tenant_ns_requires_ops''
        else if \<not> is_string action \<or> a \<notin> set KNOWN_ACTIONS then opsOnly ''unknown_action_requires_ops''
        else if a = ''diagnostic.whoami'' then Allow
        else if starts_with a ''auth.token.'' then opsOnly ''auth_lifecycle_requires_ops''
        else if starts_with a ''system.'' then opsOnly ''system_action_requires_ops''
        else
          let role = the (map_of ROLES k);
              allowedNs = map (\<lambda>s. if s = PRINCIPAL_NS_PLACEHOLDER then principalNs else JStr s) (role_namespaces role);
              nsOk = JStr ''*'' \<in> set allowedNs \<or> (is_string ns \<and> ns \<in> set allowedNs);
              actionOk = list_ex (\<lambda>pat. matchesAction (JStr pat) action) (role_actions role)
          in if \<not> nsOk then Deny ''ns_not_in_scope''
             else if \<not> actionOk then Deny ''action_not_in_scope''
             else Allow)"

section \<open>Issue input and persisted records\<close>

definition assertTenantNs :: "jsval \<Rightarrow> unit result" where
  "assertTenantNs ns =
     (if isValidTenantNs ns then Ok ()
      else if ns = JUndef \<or> ns = JNull \<or> ns = JStr [] then AuthPolicyError 400 ''missing_ns''
      else if \<not> is_string ns then AuthPolicyError 400 ''invalid_ns''
      else if isReservedNs ns then AuthPolicyError 400 ''reserved_ns''
      else if str_of ns \<in> set RESERVED_TENANT_NS then AuthPolicyError 400 ''reserved_tenant_ns''
      else AuthPolicyError 400 ''invalid_ns'')"

definition validateIssueInput :: "jsval \<Rightarrow> jsval \<Rightarrow> (string \<times> string option) result" where
  "validateIssueInput kind ns =
     (let effectiveKind = (if kind = JUndef then JStr ''ns'' else kind); k = str_of effectiveKind in
      if effectiveKind = JStr ''ops'' then AuthPolicyError 400 ''ops_not_issuable''
      else if \<not> is_string effectiveKind \<or> map_of ROLES k = None then AuthPolicyError 400 ''unknown_role''
      else case boundNsKind (the (map_of ROLES k)) of
        BoundTenant \<Rightarrow> bind_result (assertTenantNs ns) (\<lambda>_. Ok (k, Some (str_of ns)))
      | BoundPlatformTier \<Rightarrow>
          if \<not> is_string ns \<or> str_of ns \<notin> set PLATFORM_TIER_RESERVED_NS
          then AuthPolicyError 400 ''invalid_bound_ns''
          else Ok (k, Some (str_of ns))
      | BoundNone \<Rightarrow>
          if ns \<noteq> JUndef then AuthPolicyError 400 ''role_no_ns'' else Ok (k, None))"

definition timestampOk :: "jsval \<Rightarrow> string \<Rightarrow> bool" where
  "timestampOk persisted field =
     (let value = jget persisted field in
      \<not> (value \<noteq> JUndef \<and> (\<not> is_string value \<or> \<not> isCanonicalStoredTimestamp (str_of value))))"

text \<open>
  The switch on \<open>role.boundNsKind\<close>: an inherited member of \<open>ROLES\<close> has none and falls to
  the default branch, which throws.
\<close>

definition validateRecordShape :: "jsval \<Rightarrow> decision result" where
  "validateRecordShape record =
     (if \<not> is_object record then Ok (Deny ''unknown_role'')
      else
        let kind = jget record ''kind'';
            role = (if is_string kind then roles_get (str_of kind) else NoRole);
            hash = jget record ''hash'';
            ns = jget record ''ns''
        in if role = NoRole then Ok (Deny ''unknown_role'')
           else if \<not> is_string hash \<or> \<not> rx_test SHA256_HEX_RE (str_of hash) then Ok (Deny ''invalid_record_hash'')
           else if \<not> list_all (timestampOk record) STORED_TIMESTAMP_FIELDS then Ok (Deny ''invalid_record_timestamp'')
           else case role of
             OwnRole r \<Rightarrow>
               (case boundNsKind r of
                  BoundTenant \<Rightarrow> Ok (if isValidTenantNs ns then Allow else Deny ''invalid_record_ns'')
                | BoundPlatformTier \<Rightarrow>
                    Ok (if \<not> is_string ns \<or> str_of ns \<notin> set PLATFORM_TIER_RESERVED_NS
                        then Deny ''invalid_record_ns'' else Allow)
                | BoundNone \<Rightarrow>
                    if ns \<noteq> JUndef then Ok (Deny ''invalid_record_ns'')
                    else if kind = JStr ''token-issuer'' then
                      (case parseStoredIssueTemplates (jget record ''issue_templates'') of
                         Inl _ \<Rightarrow> Ok (Deny ''invalid_issue_templates'')
                       | Inr _ \<Rightarrow> Ok Allow)
                    else Ok Allow)
           | _ \<Rightarrow> Throw JsError)"

text \<open>The fields of a Redis hash, decoded to strings; an empty string counts as absent.\<close>

definition present :: "(string \<times> string) list \<Rightarrow> string \<Rightarrow> string option" where
  "present h f = (case map_of h f of None \<Rightarrow> None | Some v \<Rightarrow> if v = [] then None else Some v)"

definition parseTokenRecord :: "(string \<times> string) list \<Rightarrow> token_record option" where
  "parseTokenRecord h =
     (case present h ''kind'' of
        None \<Rightarrow> None
      | Some kind \<Rightarrow>
          Some \<lparr>tr_hash = (case map_of h ''hash'' of None \<Rightarrow> [] | Some v \<Rightarrow> v), tr_kind = kind,
            tr_ns = present h ''ns'', tr_label = present h ''label'',
            tr_created_at = present h ''created_at'', tr_created_by = present h ''created_by'',
            tr_expires_at = present h ''expires_at'', tr_revoked_at = present h ''revoked_at'',
            tr_expired_at = present h ''expired_at'', tr_issue_templates = present h ''issue_templates'',
            tr_issue_template = present h ''issue_template'',
            tr_issue_template_version = present h ''issue_template_version''\<rparr>)"

definition truthy_field :: "string \<Rightarrow> string option \<Rightarrow> (string \<times> jsval) list" where
  "truthy_field key v = (case v of None \<Rightarrow> [] | Some s \<Rightarrow> if s = [] then [] else [(key, JStr s)])"

definition recordToListEntry :: "string \<Rightarrow> token_record \<Rightarrow> jsval" where
  "recordToListEntry tokenId r =
     JObj ([(''tokenId'', JStr tokenId), (''kind'', JStr (tr_kind r)),
            (''createdAt'', case tr_created_at r of None \<Rightarrow> JNull | Some s \<Rightarrow> if s = [] then JNull else JStr s)]
       @ truthy_field ''ns'' (tr_ns r) @ truthy_field ''label'' (tr_label r)
       @ truthy_field ''createdBy'' (tr_created_by r) @ truthy_field ''expiresAt'' (tr_expires_at r)
       @ truthy_field ''revokedAt'' (tr_revoked_at r) @ truthy_field ''expiredAt'' (tr_expired_at r)
       @ (if tr_kind r = ''token-issuer''
          then (case parseStoredIssueTemplates (opt_val (tr_issue_templates r)) of
                  Inl _ \<Rightarrow> [(''issueTemplatesInvalid'', JBool True)]
                | Inr ids \<Rightarrow> [(''issueTemplates'', JArr (map JStr ids))])
          else [])
       @ truthy_field ''issueTemplate'' (tr_issue_template r)
       @ truthy_field ''issueTemplateVersion'' (tr_issue_template_version r))"

section \<open>Timestamps: what is accepted is what is written\<close>

lemma canonical_timestamp_iff:
  "isCanonicalStoredTimestamp s \<longleftrightarrow> (\<exists>t. year_range t \<and> s = toISOString t)"
proof
  assume "isCanonicalStoredTimestamp s"
  then obtain t where "rx_test STRICT_ISO_UTC_RE s" "toISOString t = s"
    by (auto simp: isCanonicalStoredTimestamp_def split: if_splits option.splits)
  then show "\<exists>t. year_range t \<and> s = toISOString t" using toISOString_strict_range by metis
next
  assume "\<exists>t. year_range t \<and> s = toISOString t"
  then show "isCanonicalStoredTimestamp s"
    by (auto simp: isCanonicalStoredTimestamp_def toISOString_form parse_toISOString)
qed

lemma iso_fields_bounds: "rx_test STRICT_ISO_UTC_RE s \<Longrightarrow> 0 \<le> f_year (iso_fields s) \<and> f_year (iso_fields s) \<le> 9999"
proof -
  assume s: "rx_test STRICT_ISO_UTC_RE s"
  obtain u v where u: "s = u @ v" "rx_test (digit_rx 4) u"
    using s unfolding STRICT_ISO_UTC_RE_def rx_test_seq [of "digit_rx 4"] by blast
  from u(2) have len: "length u = 4" and digits: "\<forall>d \<in> set u. is_digit d"
    by (auto simp: digit_rx_def rx_test_rep_cls is_digit_def)
  then obtain a b c d where "u = [a, b, c, d]"
    by (auto simp: numeral_eq_Suc length_Suc_conv)
  with digits digit_val_less [of a] digit_val_less [of b] digit_val_less [of c] digit_val_less [of d] u(1)
  show ?thesis by (simp add: iso_fields_def Let_def digits_val_def)
qed

lemma validateExpiresAt_Some:
  assumes "validateExpiresAt v now = Ok (Some e)"
  obtains s t where "v = JStr s" "parse_iso s = Some t" "now < t" "e = toISOString t" "year_range t"
proof -
  obtain s where s: "v = JStr s" using assms
    by (cases v) (auto simp: validateExpiresAt_def nullish_def)
  then obtain t where t: "rx_test STRICT_ISO_UTC_RE s" "parse_iso s = Some t" "e = toISOString t" "now < t"
    and y: "f_year (fields_of t) = f_year (iso_fields s)"
    using assms by (auto simp: validateExpiresAt_def nullish_def Let_def split: if_splits option.splits)
  have "year_range t" using iso_fields_bounds [OF t(1)] by (simp add: year_range_iff y)
  with s t that show thesis by blast
qed

lemma validateExpiresAt_toISOString:
  assumes "year_range t" "now < t"
  shows "validateExpiresAt (JStr (toISOString t)) now = Ok (Some (toISOString t))"
  using assms by (simp add: validateExpiresAt_def nullish_def toISOString_form parse_toISOString
      iso_fields_toISOString Let_def)

section \<open>Access\<close>

lemma role_of: "map_of ROLES k = Some r \<Longrightarrow> (k, r) \<in> set ROLES"
  by (rule map_of_SomeD)

lemma role_pattern_literal:
  assumes "map_of ROLES k = Some r" "k \<noteq> ''ops''"
  shows "list_ex (\<lambda>pat. matchesAction (JStr pat) (JStr a)) (role_actions r) \<longleftrightarrow> a \<in> set (role_actions r)"
proof -
  have "matchesAction (JStr p) (JStr a) \<longleftrightarrow> p = a" if "p \<in> set (role_actions r)" for p
    using role_actions_literal [OF role_of [OF assms(1)] assms(2) that]
    by (auto simp: matchesAction_iff ends_with_iff)
  then show ?thesis by (auto simp: list_ex_iff)
qed

lemma ops_role: "map_of ROLES ''ops'' = Some \<lparr>role_actions = [''*''], role_namespaces = [''*''], boundNsKind = BoundNone\<rparr>"
  by (simp add: ROLES_def)

lemma matchesAction_star: "is_string a \<Longrightarrow> matchesAction (JStr ''*'') a"
  by (simp add: matchesAction_def)

lemma placeholder_not_star: "PRINCIPAL_NS_PLACEHOLDER \<noteq> ''*''" "''*'' \<noteq> PRINCIPAL_NS_PLACEHOLDER"
  by (simp_all add: PRINCIPAL_NS_PLACEHOLDER_def)

lemma evaluateAccess_ops: "evaluateAccess action ns (JStr ''ops'') p = Allow"
  by (auto simp: evaluateAccess_def Let_def ops_role matchesAction_star placeholder_not_star)

text \<open>The scope of a role: everything for an unbound one, the principal's namespace for a bound one.\<close>

definition ns_in_scope :: "role \<Rightarrow> jsval \<Rightarrow> jsval \<Rightarrow> bool" where
  "ns_in_scope r ns p \<longleftrightarrow>
     boundNsKind r = BoundNone \<or> p = JStr ''*'' \<or> (is_string ns \<and> ns = p)"

lemma ns_scope_iff:
  assumes "map_of ROLES k = Some r"
  shows "JStr ''*'' \<in> set (map (\<lambda>s. if s = PRINCIPAL_NS_PLACEHOLDER then p else JStr s) (role_namespaces r))
      \<or> (is_string ns \<and> ns \<in> set (map (\<lambda>s. if s = PRINCIPAL_NS_PLACEHOLDER then p else JStr s) (role_namespaces r)))
    \<longleftrightarrow> ns_in_scope r ns p"
  using roles_coherent [OF role_of [OF assms]]
  by (auto simp: ns_in_scope_def placeholder_not_star split: if_splits)

lemma evaluateAccess_role:
  assumes "map_of ROLES k = Some r" "k \<noteq> ''ops''"
  shows "evaluateAccess (JStr a) ns (JStr k) p = Allow \<longleftrightarrow>
      (is_string ns \<and> isReservedNs ns \<and> str_of ns \<notin> set PLATFORM_TIER_RESERVED_NS \<longrightarrow> k \<in> set OPS_KINDS)
      \<and> (is_string ns \<longrightarrow> str_of ns \<notin> set RESERVED_TENANT_NS) \<and> a \<in> set KNOWN_ACTIONS
      \<and> (a = ''diagnostic.whoami''
         \<or> \<not> starts_with a ''auth.token.'' \<and> \<not> starts_with a ''system.'' \<and> ns_in_scope r ns p
           \<and> a \<in> set (role_actions r))"
  unfolding evaluateAccess_def Let_def ns_scope_iff [OF assms(1), symmetric] role_pattern_literal [OF assms, symmetric]
  using assms by auto

lemma evaluateAccess_unknown:
  "map_of ROLES k = None \<Longrightarrow> evaluateAccess a ns (JStr k) p = Deny ''unknown_role''"
  by (simp add: evaluateAccess_def Let_def)

section \<open>Issue templates survive storage\<close>

definition template_ids :: "string list \<Rightarrow> bool" where
  "template_ids ids \<longleftrightarrow> ids \<noteq> [] \<and> length ids \<le> 32 \<and> distinct ids
     \<and> list_all (rx_test ISSUE_TEMPLATE_ID_RE) ids"

lemma collectTemplateIds_Ok:
  assumes "collectTemplateIds acc items = Ok ids" "distinct acc" "list_all (rx_test ISSUE_TEMPLATE_ID_RE) acc"
  shows "distinct ids \<and> list_all (rx_test ISSUE_TEMPLATE_ID_RE) ids \<and> length acc \<le> length ids
    \<and> length ids \<le> length acc + length items \<and> (items \<noteq> [] \<longrightarrow> ids \<noteq> [])"
  using assms
proof (induction acc items rule: collectTemplateIds.induct)
  case (2 ids' item items)
  then have "rx_test ISSUE_TEMPLATE_ID_RE (str_of item)" "is_string item"
    by (auto simp: assertIssueTemplateId_def isIssueTemplateId_def bind_result_eq_Inr split: if_splits)
  with 2 show ?case
    by (fastforce simp: bind_result_eq_Inr assertIssueTemplateId_def split: if_splits)
qed simp

lemma collectTemplateIds_strings:
  assumes "distinct (acc @ ids)" "list_all (rx_test ISSUE_TEMPLATE_ID_RE) ids"
  shows "collectTemplateIds acc (map JStr ids) = Ok (acc @ ids)"
  using assms
  by (induction ids arbitrary: acc) (auto simp: assertIssueTemplateId_def isIssueTemplateId_def)

lemma validateIssueTemplatesInput_Ok: "validateIssueTemplatesInput v = Ok ids \<Longrightarrow> template_ids ids"
  using collectTemplateIds_Ok [of "[]"]
  by (fastforce simp: validateIssueTemplatesInput_def template_ids_def split: jsval.splits if_splits)

lemma validateIssueTemplatesInput_strings: "template_ids ids \<Longrightarrow> validateIssueTemplatesInput (JArr (map JStr ids)) = Ok ids"
  using collectTemplateIds_strings [of "[]" ids] by (auto simp: validateIssueTemplatesInput_def template_ids_def)

lemma stored_templates_round_trip:
  "template_ids ids \<Longrightarrow> parseStoredIssueTemplates (JStr (stringify (JArr (map JStr ids)))) = Ok ids"
proof -
  assume ids: "template_ids ids"
  have "json_ok (JArr (map JStr ids))" by (simp add: list_all_iff)
  then have "json_parse (stringify (JArr (map JStr ids))) = Some (JArr (map JStr ids))" by (rule parse_stringify)
  with ids show ?thesis
    unfolding parseStoredIssueTemplates_def by (simp add: validateIssueTemplatesInput_strings)
qed

section \<open>Record shape\<close>

lemma jget_token_obj [simp]:
  "jget (token_obj r) ''hash'' = JStr (tr_hash r)"
  "jget (token_obj r) ''kind'' = JStr (tr_kind r)"
  "jget (token_obj r) ''ns'' = opt_val (tr_ns r)"
  "jget (token_obj r) ''created_at'' = opt_val (tr_created_at r)"
  "jget (token_obj r) ''expires_at'' = opt_val (tr_expires_at r)"
  "jget (token_obj r) ''revoked_at'' = opt_val (tr_revoked_at r)"
  "jget (token_obj r) ''expired_at'' = opt_val (tr_expired_at r)"
  "jget (token_obj r) ''issue_templates'' = opt_val (tr_issue_templates r)"
  "is_object (token_obj r)"
  by (simp_all add: token_obj_def)

fun canonical_opt :: "string option \<Rightarrow> bool" where
  "canonical_opt None = True"
| "canonical_opt (Some s) = isCanonicalStoredTimestamp s"

text \<open>The namespace a role may carry in a record.\<close>

definition bound_ok :: "role \<Rightarrow> string option \<Rightarrow> bool" where
  "bound_ok r ns \<longleftrightarrow>
     (case boundNsKind r of
        BoundTenant \<Rightarrow> (\<exists>n. ns = Some n \<and> isValidTenantNs (JStr n))
      | BoundPlatformTier \<Rightarrow> (\<exists>n. ns = Some n \<and> n \<in> set PLATFORM_TIER_RESERVED_NS)
      | BoundNone \<Rightarrow> ns = None)"

lemma opt_val_simps [simp]: "opt_val x = JUndef \<longleftrightarrow> x = None" "is_string (opt_val x) \<longleftrightarrow> x \<noteq> None"
  "opt_val x = JStr s \<longleftrightarrow> x = Some s"
  by (cases x; simp)+

lemma timestamps_ok_iff:
  "list_all (timestampOk (token_obj r)) STORED_TIMESTAMP_FIELDS \<longleftrightarrow>
     canonical_opt (tr_created_at r) \<and> canonical_opt (tr_expires_at r)
     \<and> canonical_opt (tr_revoked_at r) \<and> canonical_opt (tr_expired_at r)"
  by (cases "tr_created_at r"; cases "tr_expires_at r"; cases "tr_revoked_at r"; cases "tr_expired_at r")
     (simp_all add: STORED_TIMESTAMP_FIELDS_def timestampOk_def)

lemma tenant_ns_string: "isValidTenantNs (JStr s) \<Longrightarrow> s \<noteq> []" "\<not> isValidTenantNs JUndef"
  by (auto simp: isValidTenantNs_def NS_RE_def ns_pattern_shape)

lemma validateRecordShape_iff:
  "validateRecordShape (token_obj r) = Ok Allow \<longleftrightarrow>
     (\<exists>role. map_of ROLES (tr_kind r) = Some role \<and> bound_ok role (tr_ns r))
     \<and> rx_test SHA256_HEX_RE (tr_hash r)
     \<and> canonical_opt (tr_created_at r) \<and> canonical_opt (tr_expires_at r)
     \<and> canonical_opt (tr_revoked_at r) \<and> canonical_opt (tr_expired_at r)
     \<and> (tr_kind r = ''token-issuer'' \<longrightarrow> (\<exists>ids. parseStoredIssueTemplates (opt_val (tr_issue_templates r)) = Ok ids))"
  (is "?L \<longleftrightarrow> ?R")
proof -
  have issuer: "tr_kind r = ''token-issuer'' \<Longrightarrow> map_of ROLES (tr_kind r) = Some role \<Longrightarrow> boundNsKind role = BoundNone" for role
    by (auto simp: ROLES_def)
  show ?thesis
  proof (cases "map_of ROLES (tr_kind r)")
    case None
    then show ?thesis by (simp add: validateRecordShape_def roles_get_def Let_def)
  next
    case (Some role)
    then show ?thesis
      using issuer [OF _ Some] tenant_ns_string
      by (cases "tr_ns r"; cases "boundNsKind role")
         (auto simp: validateRecordShape_def roles_get_def timestamps_ok_iff bound_ok_def Let_def split: sum.splits if_splits)
  qed
qed

lemma tenant_ns_is_string: "isValidTenantNs v \<Longrightarrow> is_string v"
  by (auto simp: isValidTenantNs_def)

lemma validateIssueInput_Ok:
  assumes "validateIssueInput kind ns = Ok (k, n)"
  shows "k \<noteq> ''ops'' \<and> (\<exists>r. map_of ROLES k = Some r \<and> bound_ok r n)"
proof -
  define e where "e = (if kind = JUndef then JStr ''ns'' else kind)"
  have e: "e \<noteq> JStr ''ops''" "is_string e" "map_of ROLES (str_of e) \<noteq> None"
    using assms by (auto simp: validateIssueInput_def Let_def e_def [symmetric] split: if_splits)
  then obtain r where r: "map_of ROLES (str_of e) = Some r" by blast
  have "k = str_of e \<and> bound_ok r n"
    using assms e r unfolding validateIssueInput_def Let_def e_def [symmetric]
    by (cases "boundNsKind r"; cases ns)
       (auto simp: bound_ok_def assertTenantNs_def bind_result_eq_Inr split: if_splits dest: tenant_ns_is_string)
  moreover from this e have "k \<noteq> ''ops''" by (cases e) auto
  ultimately show ?thesis using r by blast
qed

section \<open>Properties\<close>

text \<open>
  C2: the access decision allows exactly the following. The role \<open>ops\<close> may do everything. Any
  other principal needs a role of the table, must stay out of the reserved namespaces (the
  observer of the ops class apart, and the platform tier apart) and out of the reserved tenant
  names, must name an action of the vocabulary, and then either asks who it is or performs an
  action that is no token lifecycle and no system action, that its role lists, on a namespace in
  its scope.
\<close>

theorem access_allow_iff:
  "evaluateAccess (JStr a) ns (JStr k) p = Allow \<longleftrightarrow>
     k = ''ops'' \<or>
     (\<exists>r. map_of ROLES k = Some r
        \<and> \<not> (isReservedNs ns \<and> str_of ns \<notin> set PLATFORM_TIER_RESERVED_NS \<and> k \<notin> set OPS_KINDS)
        \<and> \<not> (is_string ns \<and> str_of ns \<in> set RESERVED_TENANT_NS)
        \<and> a \<in> set KNOWN_ACTIONS
        \<and> (a = ''diagnostic.whoami''
           \<or> (\<not> starts_with a ''auth.token.'' \<and> \<not> starts_with a ''system.''
              \<and> ns_in_scope r ns p \<and> a \<in> set (role_actions r))))"
proof (cases "k = ''ops''")
  case False
  have "isReservedNs ns \<Longrightarrow> is_string ns" by (simp add: isReservedNs_def)
  then show ?thesis
    using False evaluateAccess_unknown [of k "JStr a" ns p] evaluateAccess_role [OF _ False, of _ a ns p]
    by (cases "map_of ROLES k") auto
qed (simp add: evaluateAccess_ops)

text \<open>
  C12: a principal whose role is bound to a namespace is confined to it. If the decision allows any
  action but asking who it is, the target namespace is the principal's own and is no reserved
  tenant name, whatever the action; the token lifecycle and the system actions are out of reach.
\<close>

theorem bound_role_confined:
  assumes "evaluateAccess (JStr a) ns (JStr k) (JStr p) = Allow"
    and "map_of ROLES k = Some r" "boundNsKind r \<noteq> BoundNone" "p \<noteq> ''*''" "a \<noteq> ''diagnostic.whoami''"
  shows "ns = JStr p \<and> p \<notin> set RESERVED_TENANT_NS \<and> a \<in> set (role_actions r)
    \<and> \<not> starts_with a ''auth.'' \<and> \<not> starts_with a ''system.''"
proof -
  have k: "k \<noteq> ''ops''" using assms(2,3) ops_role by auto
  have no_auth: "\<not> starts_with a ''auth.''" if "a \<in> set (role_actions r)"
  proof -
    have "list_all (\<lambda>(k, r). boundNsKind r = BoundNone \<or> list_all (\<lambda>a. \<not> starts_with a ''auth.'') (role_actions r)) ROLES"
      by code_simp
    then show ?thesis using role_of [OF assms(2)] assms(3) that by (fastforce simp: list_all_iff)
  qed
  from assms(1) evaluateAccess_role [OF assms(2) k] assms(3,4,5) no_auth show ?thesis
    by (auto simp: ns_in_scope_def)
qed

theorem bound_role_confined_witness:
  "JStr ''acme'' = JStr ''acme'' \<and> ''acme'' \<notin> set RESERVED_TENANT_NS
    \<and> ''worker.deploy'' \<in> set (role_actions (the (map_of ROLES ''ns'')))
    \<and> \<not> starts_with ''worker.deploy'' ''auth.'' \<and> \<not> starts_with ''worker.deploy'' ''system.''"
proof (rule bound_role_confined)
  show "evaluateAccess (JStr ''worker.deploy'') (JStr ''acme'') (JStr ''ns'') (JStr ''acme'') = Allow" by code_simp
  show "map_of ROLES ''ns'' = Some (the (map_of ROLES ''ns''))" by code_simp
  show "boundNsKind (the (map_of ROLES ''ns'')) \<noteq> BoundNone" by code_simp
qed simp_all

text \<open>
  C16: the two observer roles are read-only. Whatever an observer is allowed is a list, a read, the
  log tail or asking who it is.
\<close>

theorem observers_read_only:
  assumes "evaluateAccess (JStr a) ns (JStr k) p = Allow" "k = ''ops-observer'' \<or> k = ''platform-observer''"
  shows "ends_with a ''.list'' \<or> ends_with a ''.read'' \<or> a = ''worker.logs.tail'' \<or> a = ''diagnostic.whoami''"
proof -
  obtain r where r: "map_of ROLES k = Some r" using assms(2) by (auto simp: ROLES_def)
  have "list_all (\<lambda>a. ends_with a ''.list'' \<or> ends_with a ''.read'' \<or> a = ''worker.logs.tail'')
      (role_actions (the (map_of ROLES ''ops-observer'')) @ role_actions (the (map_of ROLES ''platform-observer'')))"
    by code_simp
  with r assms(2) have "a \<in> set (role_actions r) \<Longrightarrow> ends_with a ''.list'' \<or> ends_with a ''.read'' \<or> a = ''worker.logs.tail''"
    by (auto simp: list_all_iff)
  with assms evaluateAccess_role [OF r, of a ns p] show ?thesis by auto
qed

theorem observers_read_only_witness:
  "ends_with ''worker.list'' ''.list'' \<or> ends_with ''worker.list'' ''.read''
     \<or> ''worker.list'' = ''worker.logs.tail'' \<or> ''worker.list'' = ''diagnostic.whoami''"
proof (rule observers_read_only)
  show "evaluateAccess (JStr ''worker.list'') (JStr ''__system__'') (JStr ''ops-observer'') JUndef = Allow" by code_simp
qed simp

end
