(* ===== verification/Worker_Contract.thy ===== *)
theory Worker_Contract
  imports Ns_Pattern Bytes
begin

text \<open>
  \<^verbatim>\<open>shared/worker-contract.js\<close>: version tags, the Redis key grammar shared by the tiers, the
  session policy and worker delete messages, and the delete lock token. Shown here: version
  tags are read back exactly, the messages survive their JSON encoding, and the key
  families are injective and apart from each other, with one exception that
  \<open>storage_pointer_collision\<close> exhibits.
\<close>

section \<open>Version tags\<close>

definition formatVersion :: "jsval \<Rightarrow> string result" where
  "formatVersion n =
     (case n of
        JNum x \<Rightarrow>
          if \<not> isSafeInteger x \<or> toInt x < 1 then Throw JsError
          else Ok (CHR ''v'' # show_int (toInt x))
      | _ \<Rightarrow> Throw JsError)"

definition MAX_WORKER_VERSION_TAG :: "string result" where
  "MAX_WORKER_VERSION_TAG = formatVersion (JNum (num MAX_SAFE_INTEGER))"

fun version_digits :: "int \<Rightarrow> string \<Rightarrow> int option" where
  "version_digits parsed [] = Some parsed"
| "version_digits parsed (c # cs) =
     (let digit = int (of_char c) - 48 in
      if digit < 0 \<or> digit > 9 then None
      else let parsed = parsed * 10 + digit in
        if \<not> isSafeInt parsed then None else version_digits parsed cs)"

definition parseVersion :: "jsval \<Rightarrow> int option" where
  "parseVersion tag =
     (case tag of
        JStr t \<Rightarrow>
          if length t < 2 \<or> t ! 0 \<noteq> CHR ''v'' \<or> t ! 1 = CHR ''0'' then None
          else version_digits 0 (tl t)
      | _ \<Rightarrow> None)"

section \<open>Keys\<close>

definition bundleKey :: "string \<Rightarrow> string \<Rightarrow> jsval \<Rightarrow> string result" where
  "bundleKey ns worker version =
     (case parseVersion version of
        None \<Rightarrow> Throw JsError
      | Some n \<Rightarrow> Ok (''worker:'' @ ns @ '':'' @ worker @ '':v:'' @ show_int n))"

definition nextVersionKey :: "string \<Rightarrow> string \<Rightarrow> string" where
  "nextVersionKey ns worker = ''worker:'' @ ns @ '':'' @ worker @ '':next_version''"

definition CRON_GENERATION_EPOCH :: int where
  "CRON_GENERATION_EPOCH = 1024"

definition cronSequenceKey :: "string \<Rightarrow> string \<Rightarrow> string" where
  "cronSequenceKey ns worker = ''cron:seq:'' @ ns @ '':'' @ worker"

definition routesKey :: "string \<Rightarrow> string" where
  "routesKey ns = ''routes:'' @ ns"

definition platformDomainDisabledKey :: "string \<Rightarrow> string" where
  "platformDomainDisabledKey ns = ''platform-domain-disabled:'' @ ns"

definition patternsKey :: "string \<Rightarrow> string" where
  "patternsKey host = ''patterns:'' @ host"

definition NAMESPACES_KEY :: string where "NAMESPACES_KEY = ''namespaces''"
definition DECLARED_HOSTS_KEY :: string where "DECLARED_HOSTS_KEY = ''declared-hosts''"
definition DECLARED_HOSTS_REVISION_KEY :: string where "DECLARED_HOSTS_REVISION_KEY = ''declared-hosts:revision''"
definition HOSTS_PREFIX :: string where "HOSTS_PREFIX = ''hosts:''"
definition NS_HOSTS_PREFIX :: string where "NS_HOSTS_PREFIX = ''ns-hosts:''"
definition HOST_DECLARATIONS_PREFIX :: string where "HOST_DECLARATIONS_PREFIX = ''host-declarations:''"

definition hostsKey :: "string \<Rightarrow> string" where
  "hostsKey ns = HOSTS_PREFIX @ ns"

definition namespaceFromHostsKey :: "string \<Rightarrow> string" where
  "namespaceFromHostsKey key =
     (if starts_with key HOSTS_PREFIX then drop (length HOSTS_PREFIX) key else [])"

definition nsHostsKey :: "string \<Rightarrow> string" where
  "nsHostsKey ns = NS_HOSTS_PREFIX @ ns"

definition hostDeclarationsKey :: "string \<Rightarrow> string" where
  "hostDeclarationsKey host = HOST_DECLARATIONS_PREFIX @ host"

definition workerVersionsKey :: "string \<Rightarrow> string \<Rightarrow> string" where
  "workerVersionsKey ns worker = ''worker-versions:'' @ ns @ '':'' @ worker"

definition doStorageIdKey :: "string \<Rightarrow> string \<Rightarrow> string" where
  "doStorageIdKey ns worker = ''worker:do-storage:'' @ ns @ '':'' @ worker"

definition sessionPolicyKey :: "string \<Rightarrow> string \<Rightarrow> string" where
  "sessionPolicyKey ns worker = ''worker:session-policy:'' @ ns @ '':'' @ worker"

definition sessionPolicySequenceKey :: "string \<Rightarrow> string \<Rightarrow> string" where
  "sessionPolicySequenceKey ns worker = ''worker:session-policy-seq:'' @ ns @ '':'' @ worker"

definition deleteLockKey :: "string \<Rightarrow> string \<Rightarrow> string" where
  "deleteLockKey ns worker = ''worker-delete-lock:'' @ ns @ '':'' @ worker"

section \<open>Session policy and delete messages\<close>

definition SESSION_POLICY_PRESERVE :: string where "SESSION_POLICY_PRESERVE = ''preserve''"
definition SESSION_POLICY_RESTART :: string where "SESSION_POLICY_RESTART = ''restart''"

definition isSessionPolicyMode :: "jsval \<Rightarrow> bool" where
  "isSessionPolicyMode v \<longleftrightarrow> v = JStr SESSION_POLICY_PRESERVE \<or> v = JStr SESSION_POLICY_RESTART"

definition isValidSessionPolicy :: "jsval \<Rightarrow> jsval \<Rightarrow> jsval \<Rightarrow> bool" where
  "isValidSessionPolicy version mode restartSequence \<longleftrightarrow>
     parseVersion version \<noteq> None \<and> isSessionPolicyMode mode
     \<and> is_number restartSequence \<and> isSafeInteger (num_of restartSequence)
     \<and> toInt (num_of restartSequence) \<ge> 0
     \<and> (mode \<noteq> JStr SESSION_POLICY_RESTART \<or> toInt (num_of restartSequence) \<noteq> 0)"

record session_policy =
  sp_version :: jsval
  sp_mode :: jsval
  sp_restartSequence :: jsval

definition encodeSessionPolicyProjection :: "session_policy \<Rightarrow> string result" where
  "encodeSessionPolicyProjection p =
     (if \<not> isValidSessionPolicy (sp_version p) (sp_mode p) (sp_restartSequence p) then Throw JsTypeError
      else Ok (stringify (JObj [(''version'', sp_version p), (''mode'', sp_mode p),
                                (''restartSequence'', sp_restartSequence p)])))"

record session_event =
  se_ns :: jsval
  se_worker :: jsval
  se_version :: jsval
  se_restartSequence :: jsval

definition nonempty_string :: "jsval \<Rightarrow> bool" where
  "nonempty_string v \<longleftrightarrow> is_string v \<and> str_of v \<noteq> []"

definition encodeSessionPolicyEvent :: "session_event \<Rightarrow> string result" where
  "encodeSessionPolicyEvent e =
     (if \<not> nonempty_string (se_ns e) \<or> \<not> nonempty_string (se_worker e)
         \<or> \<not> isValidSessionPolicy (se_version e) (JStr SESSION_POLICY_RESTART) (se_restartSequence e)
      then Throw JsTypeError
      else Ok (stringify (JObj [(''ns'', se_ns e), (''worker'', se_worker e), (''version'', se_version e),
                                (''restartSequence'', se_restartSequence e)])))"

text \<open>\<open>typeof raw === "string" ? JSON.parse(raw) : null\<close>, with a parse error giving \<open>null\<close>.\<close>

definition parse_raw :: "jsval \<Rightarrow> jsval" where
  "parse_raw raw =
     (case raw of JStr s \<Rightarrow> (case json_parse s of None \<Rightarrow> JNull | Some v \<Rightarrow> v) | _ \<Rightarrow> JNull)"

definition plain_object :: "jsval \<Rightarrow> bool" where
  "plain_object v \<longleftrightarrow> is_object v \<and> \<not> is_array v"

definition parseSessionPolicyEvent :: "jsval \<Rightarrow> session_event result" where
  "parseSessionPolicyEvent raw =
     (let v = parse_raw raw in
      if \<not> plain_object v \<or> \<not> nonempty_string (jget v ''ns'') \<or> \<not> nonempty_string (jget v ''worker'')
         \<or> \<not> isValidSessionPolicy (jget v ''version'') (JStr SESSION_POLICY_RESTART) (jget v ''restartSequence'')
      then Throw JsTypeError
      else Ok \<lparr>se_ns = jget v ''ns'', se_worker = jget v ''worker'', se_version = jget v ''version'',
               se_restartSequence = jget v ''restartSequence''\<rparr>)"

record delete_event =
  de_ns :: jsval
  de_worker :: jsval

definition encodeWorkerDeleteEvent :: "delete_event \<Rightarrow> string result" where
  "encodeWorkerDeleteEvent e =
     (if \<not> nonempty_string (de_ns e) \<or> \<not> nonempty_string (de_worker e) then Throw JsTypeError
      else Ok (stringify (JObj [(''ns'', de_ns e), (''worker'', de_worker e)])))"

definition parseWorkerDeleteEvent :: "jsval \<Rightarrow> delete_event result" where
  "parseWorkerDeleteEvent raw =
     (let v = parse_raw raw in
      if \<not> plain_object v \<or> \<not> nonempty_string (jget v ''ns'') \<or> \<not> nonempty_string (jget v ''worker'')
      then Throw JsTypeError
      else Ok \<lparr>de_ns = jget v ''ns'', de_worker = jget v ''worker''\<rparr>)"

definition parseSessionPolicyProjection :: "jsval \<Rightarrow> session_policy option result" where
  "parseSessionPolicyProjection raw =
     (if nullish raw then Ok None
      else
        let v = parse_raw raw in
        if \<not> plain_object v \<or> \<not> isValidSessionPolicy (jget v ''version'') (jget v ''mode'') (jget v ''restartSequence'')
        then Throw JsTypeError
        else Ok (Some \<lparr>sp_version = jget v ''version'', sp_mode = jget v ''mode'',
                       sp_restartSequence = jget v ''restartSequence''\<rparr>))"

section \<open>Delete lock\<close>

definition WHOLE_DELETE_LOCK_KIND :: string where "WHOLE_DELETE_LOCK_KIND = ''whole''"
definition VERSION_DELETE_LOCK_KIND :: string where "VERSION_DELETE_LOCK_KIND = ''version''"

definition formatDeleteLockToken :: "string \<Rightarrow> jsval \<Rightarrow> string result" where
  "formatDeleteLockToken kind token =
     (if kind \<noteq> WHOLE_DELETE_LOCK_KIND \<and> kind \<noteq> VERSION_DELETE_LOCK_KIND \<or> \<not> nonempty_string token
      then Throw JsTypeError
      else Ok (kind @ '':'' @ str_of token))"

definition parseDeleteLockKind :: "jsval \<Rightarrow> string option" where
  "parseDeleteLockKind v =
     (case v of
        JStr s \<Rightarrow>
          (case index_of CHR '':'' s of
             None \<Rightarrow> None
           | Some separator \<Rightarrow>
               if separator = 0 \<or> separator = length s - 1 then None
               else let kind = take separator s in
                 if kind = WHOLE_DELETE_LOCK_KIND \<or> kind = VERSION_DELETE_LOCK_KIND then Some kind else None)
      | _ \<Rightarrow> None)"

section \<open>Reading back\<close>

lemma version_digits_digits_val:
  assumes "isSafeInt (int a)"
  shows "version_digits (int a) s =
     (if (\<forall>c \<in> set s. is_digit c) \<and> isSafeInt (int (foldl (\<lambda>acc c. acc * 10 + digit_val c) a s))
      then Some (int (foldl (\<lambda>acc c. acc * 10 + digit_val c) a s)) else None)"
  using assms
proof (induction s arbitrary: a)
  case (Cons c cs)
  define a' where "a' = a * 10 + digit_val c"
  have mono: "b \<le> foldl (\<lambda>acc c. acc * 10 + digit_val c) b cs" for b
  proof (induction cs arbitrary: b)
    case (Cons c cs)
    have "b \<le> b * 10 + digit_val c" by simp
    also have "\<dots> \<le> foldl (\<lambda>acc c. acc * 10 + digit_val c) (b * 10 + digit_val c) cs" by (rule Cons)
    finally show ?case by simp
  qed simp
  show ?case
  proof (cases "is_digit c")
    case True
    then have d: "int (of_char c) - 48 = int (digit_val c)" "digit_val c < 10"
      by (auto simp: is_digit_iff digit_val_def)
    show ?thesis
    proof (cases "isSafeInt (int a')")
      case True
      with Cons.IH [of a'] d \<open>is_digit c\<close> show ?thesis by (simp add: a'_def Let_def)
    next
      case False
      with mono [of a'] have "\<not> isSafeInt (int (foldl (\<lambda>acc c. acc * 10 + digit_val c) a' cs))"
        by (simp add: isSafeInt_def)
      with False d show ?thesis by (simp add: a'_def Let_def)
    qed
  next
    case False
    then show ?thesis by (auto simp: is_digit_iff Let_def)
  qed
qed simp

lemma parseVersion_iff:
  "parseVersion (JStr t) = Some n \<longleftrightarrow> 1 \<le> n \<and> n \<le> MAX_SAFE_INTEGER \<and> t = CHR ''v'' # show_int n"
proof
  assume p: "parseVersion (JStr t) = Some n"
  then obtain s where t: "t = CHR ''v'' # s" "s \<noteq> []" "hd s \<noteq> CHR ''0''" and v: "version_digits 0 s = Some n"
    by (cases t; cases "tl t") (auto simp: parseVersion_def split: if_splits)
  have "isSafeInt (int 0)" by (simp add: isSafeInt_def MAX_SAFE_INTEGER_def)
  from version_digits_digits_val [OF this, of s] v
  have s: "\<forall>c \<in> set s. is_digit c" "isSafeInt (int (digits_val s))" "n = int (digits_val s)"
    by (auto simp: digits_val_def split: if_splits)
  with t digits_val_pos [of s] show_nat_digits_val [of s]
  show "1 \<le> n \<and> n \<le> MAX_SAFE_INTEGER \<and> t = CHR ''v'' # show_int n"
    by (auto simp: isSafeInt_def show_int_def)
next
  assume n: "1 \<le> n \<and> n \<le> MAX_SAFE_INTEGER \<and> t = CHR ''v'' # show_int n"
  define s where "s = show_nat (nat n)"
  have t: "t = CHR ''v'' # s" using n by (simp add: s_def show_int_def)
  have s: "s \<noteq> []" "hd s \<noteq> CHR ''0''" "\<forall>c \<in> set s. is_digit c" "digits_val s = nat n"
    using n show_nat_leading [of "nat n"] show_nat_digits [of "nat n"] by (simp_all add: s_def)
  have "isSafeInt (int 0)" by (simp add: isSafeInt_def MAX_SAFE_INTEGER_def)
  from version_digits_digits_val [OF this, of s] s n have "version_digits 0 s = Some n"
    by (simp add: digits_val_def [symmetric] isSafeInt_def fun_eq_iff)
  with s t show "parseVersion (JStr t) = Some n"
    by (cases s) (auto simp: parseVersion_def)
qed

lemma formatVersion_Ok:
  "formatVersion (JNum (num n)) = Ok t \<longleftrightarrow> 1 \<le> n \<and> n \<le> MAX_SAFE_INTEGER \<and> t = CHR ''v'' # show_int n"
  by (auto simp: formatVersion_def isSafeInt_def)

lemma plain_object_JObj [simp]: "plain_object (JObj ps)"
  by (simp add: plain_object_def)

lemma session_policy_ok:
  "isValidSessionPolicy v m s \<Longrightarrow> json_ok v \<and> json_ok m \<and> json_ok s"
  by (cases v; cases s) (auto simp: isValidSessionPolicy_def isSessionPolicyMode_def parseVersion_def isSafeInteger_def)

lemma nonempty_string_ok: "nonempty_string v \<Longrightarrow> json_ok v"
  by (cases v) (auto simp: nonempty_string_def)

lemma parse_raw_stringify: "json_ok v \<Longrightarrow> parse_raw (JStr (stringify v)) = v"
  by (simp add: parse_raw_def parse_stringify)

lemma projection_round_trip:
  assumes "encodeSessionPolicyProjection p = Ok raw"
  shows "parseSessionPolicyProjection (JStr raw) = Ok (Some p)"
proof -
  define o1 where "o1 = JObj [(''version'', sp_version p), (''mode'', sp_mode p), (''restartSequence'', sp_restartSequence p)]"
  have v: "isValidSessionPolicy (sp_version p) (sp_mode p) (sp_restartSequence p)" and raw: "raw = stringify o1"
    using assms unfolding encodeSessionPolicyProjection_def o1_def by (auto split: if_splits)
  have "json_ok o1" using session_policy_ok [OF v] by (simp add: o1_def)
  then have "parse_raw (JStr raw) = o1" unfolding raw by (rule parse_raw_stringify)
  with v show ?thesis
    unfolding parseSessionPolicyProjection_def by (simp add: nullish_def o1_def)
qed

lemma event_round_trip:
  assumes "encodeSessionPolicyEvent e = Ok raw"
  shows "parseSessionPolicyEvent (JStr raw) = Ok e"
proof -
  define o1 where "o1 = JObj [(''ns'', se_ns e), (''worker'', se_worker e), (''version'', se_version e),
      (''restartSequence'', se_restartSequence e)]"
  have v: "isValidSessionPolicy (se_version e) (JStr SESSION_POLICY_RESTART) (se_restartSequence e)"
      "nonempty_string (se_ns e)" "nonempty_string (se_worker e)" and raw: "raw = stringify o1"
    using assms unfolding encodeSessionPolicyEvent_def o1_def by (auto split: if_splits)
  have "json_ok o1" using session_policy_ok [OF v(1)] v(2,3) by (simp add: o1_def nonempty_string_ok)
  then have "parse_raw (JStr raw) = o1" unfolding raw by (rule parse_raw_stringify)
  with v show ?thesis unfolding parseSessionPolicyEvent_def by (simp add: o1_def)
qed

lemma delete_event_round_trip:
  assumes "encodeWorkerDeleteEvent e = Ok raw"
  shows "parseWorkerDeleteEvent (JStr raw) = Ok e"
proof -
  define o1 where "o1 = JObj [(''ns'', de_ns e), (''worker'', de_worker e)]"
  have v: "nonempty_string (de_ns e)" "nonempty_string (de_worker e)" and raw: "raw = stringify o1"
    using assms unfolding encodeWorkerDeleteEvent_def o1_def by (auto split: if_splits)
  have "json_ok o1" using v by (simp add: o1_def nonempty_string_ok)
  then have "parse_raw (JStr raw) = o1" unfolding raw by (rule parse_raw_stringify)
  with v show ?thesis unfolding parseWorkerDeleteEvent_def by (simp add: o1_def)
qed

lemma lock_kind_no_colon:
  "kind = WHOLE_DELETE_LOCK_KIND \<or> kind = VERSION_DELETE_LOCK_KIND \<Longrightarrow> CHR '':'' \<notin> set kind \<and> kind \<noteq> []"
  by (auto simp: WHOLE_DELETE_LOCK_KIND_def VERSION_DELETE_LOCK_KIND_def)

lemma lock_token_round_trip:
  assumes "formatDeleteLockToken kind token = Ok t"
  shows "parseDeleteLockKind (JStr t) = Some kind"
proof -
  have k: "kind = WHOLE_DELETE_LOCK_KIND \<or> kind = VERSION_DELETE_LOCK_KIND" "str_of token \<noteq> []"
    and t: "t = kind @ CHR '':'' # str_of token"
    using assms by (auto simp: formatDeleteLockToken_def nonempty_string_def split: if_splits)
  with lock_kind_no_colon [OF k(1)] show ?thesis
    by (auto simp: parseDeleteLockKind_def index_of_append)
qed

section \<open>Keys are injective\<close>

definition worker_key_families :: "(string \<Rightarrow> string \<Rightarrow> string) list" where
  "worker_key_families =
     [nextVersionKey, cronSequenceKey, workerVersionsKey, doStorageIdKey, sessionPolicyKey,
      sessionPolicySequenceKey, deleteLockKey]"

lemmas key_defs = nextVersionKey_def cronSequenceKey_def workerVersionsKey_def doStorageIdKey_def
  sessionPolicyKey_def sessionPolicySequenceKey_def deleteLockKey_def

lemma clean_no_colon: "clean s \<Longrightarrow> CHR '':'' \<notin> set s"
  by (auto simp: clean_def delimiters_def)

lemma name_no_colon:
  "isValidRuntimeLoadNs (JStr s) \<Longrightarrow> CHR '':'' \<notin> set s" "isValidWorkerName (JStr s) \<Longrightarrow> CHR '':'' \<notin> set s"
  using runtime_load_ns_clean worker_name_clean by (auto simp: isValidWorkerName_def js_test_def clean_def delimiters_def)

definition worker_key_parts :: "(string \<Rightarrow> string \<Rightarrow> string list) list" where
  "worker_key_parts =
     [\<lambda>ns w. [''worker'', ns, w, ''next_version''], \<lambda>ns w. [''cron'', ''seq'', ns, w],
      \<lambda>ns w. [''worker-versions'', ns, w], \<lambda>ns w. [''worker'', ''do-storage'', ns, w],
      \<lambda>ns w. [''worker'', ''session-policy'', ns, w], \<lambda>ns w. [''worker'', ''session-policy-seq'', ns, w],
      \<lambda>ns w. [''worker-delete-lock'', ns, w]]"

lemma family_index: "i < length worker_key_families \<Longrightarrow> i \<in> {0, 1, 2, 3, 4, 5, 6}"
  by (auto simp: worker_key_families_def)

lemma split_worker_key:
  assumes "i < length worker_key_families" "CHR '':'' \<notin> set ns" "CHR '':'' \<notin> set w"
  shows "split_char CHR '':'' ((worker_key_families ! i) ns w) = (worker_key_parts ! i) ns w"
  using family_index [OF assms(1)] assms(2,3)
  by (auto simp: worker_key_families_def worker_key_parts_def key_defs split_char_append_sep split_char_no_sep)

lemma worker_key_parts_inject:
  assumes "i < length worker_key_families" "j < length worker_key_families"
    and "w \<noteq> ''next_version''" "w' \<noteq> ''next_version''"
    and "(worker_key_parts ! i) ns w = (worker_key_parts ! j) ns' w'"
  shows "i = j \<and> ns = ns' \<and> w = w'"
  using family_index [OF assms(1)] family_index [OF assms(2)] assms(3-5)
  by (auto simp: worker_key_parts_def)

lemma split_bundleKey:
  assumes "bundleKey ns w v = Ok k" "CHR '':'' \<notin> set ns" "CHR '':'' \<notin> set w"
  shows "\<exists>n. parseVersion v = Some n \<and> split_char CHR '':'' k = [''worker'', ns, w, ''v'', show_int n]"
proof -
  obtain n where n: "parseVersion v = Some n" and k: "k = ''worker:'' @ ns @ '':'' @ w @ '':v:'' @ show_int n"
    using assms(1) by (auto simp: bundleKey_def split: option.splits)
  obtain t where "v = JStr t" using n by (cases v) (auto simp: parseVersion_def)
  with n have "1 \<le> n" by (simp add: parseVersion_iff)
  then have "CHR '':'' \<notin> set (show_int n)"
    using show_nat_digits [of "nat n"] by (auto simp: show_int_def is_digit_def)
  with n k assms(2,3) show ?thesis
    by (simp add: split_char_append_sep split_char_no_sep)
qed

section \<open>Properties\<close>

text \<open>
  C17: version tags are canonical. A tag is read as the number \<open>n\<close> exactly when \<open>n\<close> is a positive
  safe integer and the tag is what \<^const>\<open>formatVersion\<close> writes for it, so reading and writing are
  inverse and no two tags name the same version.
\<close>

theorem version_tag_canonical:
  "parseVersion (JStr t) = Some n \<longleftrightarrow> formatVersion (JNum (num n)) = Ok t"
  by (simp add: parseVersion_iff formatVersion_Ok)

text \<open>
  C18: the key of an immutable worker version determines the namespace, the worker and the version,
  and is never one of the other per-worker keys.
\<close>

theorem bundle_key_injective:
  assumes "isValidRuntimeLoadNs (JStr ns)" "isValidWorkerName (JStr w)" "bundleKey ns w (JStr v) = Ok k"
    and "isValidRuntimeLoadNs (JStr ns')" "isValidWorkerName (JStr w')"
  shows "(bundleKey ns' w' (JStr v') = Ok k \<longleftrightarrow> ns' = ns \<and> w' = w \<and> v' = v)
    \<and> k \<notin> set (map (\<lambda>f. f ns' w') worker_key_families)"
proof -
  have c: "CHR '':'' \<notin> set ns" "CHR '':'' \<notin> set w" "CHR '':'' \<notin> set ns'" "CHR '':'' \<notin> set w'"
    using assms by (simp_all add: name_no_colon)
  obtain n where n: "parseVersion (JStr v) = Some n"
    and k: "split_char CHR '':'' k = [''worker'', ns, w, ''v'', show_int n]"
    using split_bundleKey [OF assms(3) c(1,2)] by blast
  have 1: "ns' = ns \<and> w' = w \<and> v' = v" if "bundleKey ns' w' (JStr v') = Ok k"
    using split_bundleKey [OF that c(3,4)] k n by (auto simp: parseVersion_iff)
  have 2: "k \<noteq> (worker_key_families ! i) ns' w'" if "i < length worker_key_families" for i
    using split_worker_key [OF that c(3,4)] family_index [OF that] k by (auto simp: worker_key_parts_def)
  have "k \<notin> set (map (\<lambda>f. f ns' w') worker_key_families)"
  proof
    assume "k \<in> set (map (\<lambda>f. f ns' w') worker_key_families)"
    then obtain i where "i < length worker_key_families" "k = (worker_key_families ! i) ns' w'"
      by (auto simp: in_set_conv_nth)
    with 2 show False by blast
  qed
  with 1 assms(3) show ?thesis by blast
qed

theorem bundle_key_injective_witness:
  "(bundleKey ''acme'' ''web'' (JStr ''v7'') = Ok ''worker:acme:web:v:7'' \<longleftrightarrow> ''acme'' = ''acme'' \<and> ''web'' = ''web'' \<and> ''v7'' = ''v7'')
    \<and> ''worker:acme:web:v:7'' \<notin> set (map (\<lambda>f. f ''acme'' ''web'') worker_key_families)"
  by (rule bundle_key_injective) code_simp+

text \<open>
  C19: the per-worker state keys (version counter, cron counter, retained versions, storage pointer,
  session policy and its counter, delete lock) are injective and apart from each other, as long as
  no worker is called \<open>next_version\<close>.
\<close>

theorem worker_keys_apart:
  assumes "isValidRuntimeLoadNs (JStr ns)" "isValidWorkerName (JStr w)"
    and "isValidRuntimeLoadNs (JStr ns')" "isValidWorkerName (JStr w')"
    and "i < length worker_key_families" "j < length worker_key_families"
    and "w \<noteq> ''next_version''" "w' \<noteq> ''next_version''"
  shows "(worker_key_families ! i) ns w = (worker_key_families ! j) ns' w' \<longleftrightarrow> i = j \<and> ns = ns' \<and> w = w'"
proof -
  have c: "CHR '':'' \<notin> set ns" "CHR '':'' \<notin> set w" "CHR '':'' \<notin> set ns'" "CHR '':'' \<notin> set w'"
    using assms by (simp_all add: name_no_colon)
  have "i = j \<and> ns = ns' \<and> w = w'"
    if e: "(worker_key_families ! i) ns w = (worker_key_families ! j) ns' w'"
    using worker_key_parts_inject [OF assms(5-8)] arg_cong [OF e, of "split_char CHR '':''"]
      split_worker_key [OF assms(5) c(1,2)] split_worker_key [OF assms(6) c(3,4)] by simp
  then show ?thesis by blast
qed

theorem worker_keys_apart_witness:
  "(worker_key_families ! 0) ''acme'' ''web'' = (worker_key_families ! 3) ''acme'' ''web''
     \<longleftrightarrow> (0::nat) = 3 \<and> ''acme'' = ''acme'' \<and> ''web'' = ''web''"
  by (rule worker_keys_apart) code_simp+

text \<open>
  C20: without that proviso they are not apart. The storage pointer of a worker called
  \<open>next_version\<close> in any namespace is the version counter of the namespace \<open>do-storage\<close>, and
  both names are valid.
\<close>

theorem storage_pointer_collision:
  "isValidTenantNs (JStr ''do-storage'') \<and> isValidWorkerName (JStr ''next_version'')
    \<and> doStorageIdKey ns ''next_version'' = nextVersionKey ''do-storage'' ns"
proof -
  have "isValidTenantNs (JStr ''do-storage'') \<and> isValidWorkerName (JStr ''next_version'')" by code_simp
  then show ?thesis by (simp add: doStorageIdKey_def nextVersionKey_def)
qed

text \<open>
  C21: the session policy projection, the session policy event and the worker delete event are read
  back as they were written, and a delete lock token gives its kind back.
\<close>

theorem contract_messages_round_trip:
  assumes "encodeSessionPolicyProjection p = Ok r1" "encodeSessionPolicyEvent e = Ok r2"
    and "encodeWorkerDeleteEvent d = Ok r3" "formatDeleteLockToken kind token = Ok r4"
  shows "parseSessionPolicyProjection (JStr r1) = Ok (Some p) \<and> parseSessionPolicyEvent (JStr r2) = Ok e
    \<and> parseWorkerDeleteEvent (JStr r3) = Ok d \<and> parseDeleteLockKind (JStr r4) = Some kind"
  using assms by (simp add: projection_round_trip event_round_trip delete_event_round_trip lock_token_round_trip)

theorem contract_messages_round_trip_witness:
  "\<exists>p e d r1 r2 r3 r4. parseSessionPolicyProjection (JStr r1) = Ok (Some p) \<and> parseSessionPolicyEvent (JStr r2) = Ok e
    \<and> parseWorkerDeleteEvent (JStr r3) = Ok d \<and> parseDeleteLockKind (JStr r4) = Some ''whole''"
proof -
  let ?p = "\<lparr>sp_version = JStr ''v7'', sp_mode = JStr ''restart'', sp_restartSequence = JNum (num 3)\<rparr>"
  let ?e = "\<lparr>se_ns = JStr ''acme'', se_worker = JStr ''web'', se_version = JStr ''v7'', se_restartSequence = JNum (num 3)\<rparr>"
  let ?d = "\<lparr>de_ns = JStr ''acme'', de_worker = JStr ''web''\<rparr>"
  have v: "parseVersion (JStr ''v7'') = Some 7" by code_simp
  have "\<exists>r1. encodeSessionPolicyProjection ?p = Ok r1" "\<exists>r2. encodeSessionPolicyEvent ?e = Ok r2"
    "\<exists>r3. encodeWorkerDeleteEvent ?d = Ok r3"
    by (auto simp: encodeSessionPolicyProjection_def encodeSessionPolicyEvent_def encodeWorkerDeleteEvent_def
        isValidSessionPolicy_def isSessionPolicyMode_def SESSION_POLICY_RESTART_def nonempty_string_def v
        isSafeInt_def MAX_SAFE_INTEGER_def simp del: of_int_numeral)
  moreover have "formatDeleteLockToken ''whole'' (JStr ''ab'') = Ok ''whole:ab''" by code_simp
  ultimately show ?thesis using contract_messages_round_trip [of ?p _ ?e _ ?d _ "''whole''" "JStr ''ab''"] by metis
qed

end
