(* ===== verification/Uri_Component.thy ===== *)
theory Uri_Component
  imports Bytes
begin

text \<open>
  \<open>encodeURIComponent\<close> of the language, which the owner and object registries use to put a
  scope into a Redis key. The encoding is injective and its output holds neither the key
  separator \<open>:\<close> nor a slash.
\<close>

definition uri_unreserved :: "char \<Rightarrow> bool" where
  "uri_unreserved c \<longleftrightarrow>
     (CHR ''A'' \<le> c \<and> c \<le> CHR ''Z'') \<or> (CHR ''a'' \<le> c \<and> c \<le> CHR ''z'') \<or> (CHR ''0'' \<le> c \<and> c \<le> CHR ''9'')
     \<or> c \<in> {CHR ''-'', CHR ''_'', CHR ''.'', CHR ''!'', CHR ''~'', CHR ''*'', CHR 0x27, CHR ''('', CHR '')''}"

definition upper_hex :: "nat \<Rightarrow> char" where
  "upper_hex n = (if n < 10 then char_of (48 + n) else char_of (55 + n))"

definition percent_byte :: "char \<Rightarrow> string" where
  "percent_byte b = [CHR ''%'', upper_hex (of_char b div 16), upper_hex (of_char b mod 16)]"

definition uri_char :: "char \<Rightarrow> string" where
  "uri_char c = (if uri_unreserved c then [c] else concat (map percent_byte (utf8_char c)))"

definition encodeURIComponent :: "string \<Rightarrow> string" where
  "encodeURIComponent s = concat (map uri_char s)"

definition upper_hex_val :: "char \<Rightarrow> nat" where
  "upper_hex_val c = (if (of_char c :: nat) < 58 then of_char c - 48 else of_char c - 55)"

fun percent_decode :: "string \<Rightarrow> char list" where
  "percent_decode (c # h # l # cs) =
     (if c = CHR ''%'' then char_of (16 * upper_hex_val h + upper_hex_val l) # percent_decode cs
      else c # percent_decode (h # l # cs))"
| "percent_decode (c # cs) = c # percent_decode cs"
| "percent_decode [] = []"

lemma upper_hex_val_upper_hex: "n < 16 \<Longrightarrow> upper_hex_val (upper_hex n) = n"
  by (simp add: upper_hex_val_def upper_hex_def)

lemma decode_percent_byte: "percent_decode (percent_byte b @ cs) = b # percent_decode cs"
proof -
  have "(of_char b :: nat) div 16 < 16" using of_char_less [of b] by linarith
  moreover have "(of_char b :: nat) mod 16 < 16" by simp
  ultimately have "16 * upper_hex_val (upper_hex (of_char b div 16)) + upper_hex_val (upper_hex (of_char b mod 16)) = (of_char b :: nat)"
    by (simp add: upper_hex_val_upper_hex)
  then show ?thesis by (simp add: percent_byte_def)
qed

lemma decode_plain: "c \<noteq> CHR ''%'' \<Longrightarrow> percent_decode (c # cs) = c # percent_decode cs"
  by (cases cs; cases "tl cs") auto

lemma decode_percent_bytes: "percent_decode (concat (map percent_byte bs) @ cs) = bs @ percent_decode cs"
  by (induction bs) (auto simp: decode_percent_byte)

lemma unreserved_ascii: "uri_unreserved c \<Longrightarrow> utf8_char c = [c] \<and> c \<noteq> CHR ''%''"
  unfolding uri_unreserved_def utf8_char_cases
  by (elim disjE conjE insertE emptyE) (auto simp: less_eq_char_def)

lemma decode_uri_char: "percent_decode (uri_char c @ cs) = utf8_char c @ percent_decode cs"
  by (simp add: uri_char_def decode_percent_bytes decode_plain unreserved_ascii)

lemma percent_decode_encode: "percent_decode (encodeURIComponent s) = utf8_encode s"
  by (induction s) (auto simp: encodeURIComponent_def utf8_encode_def decode_uri_char)

lemma encodeURIComponent_inject: "encodeURIComponent s = encodeURIComponent t \<longleftrightarrow> s = t"
proof
  assume "encodeURIComponent s = encodeURIComponent t"
  then have "utf8_encode s = utf8_encode t" unfolding percent_decode_encode [symmetric] by (rule arg_cong)
  then show "s = t" by (simp only: utf8_encode_inject)
qed simp

lemma upper_hex_clean: "n < 16 \<Longrightarrow> upper_hex n \<notin> {CHR '':'', CHR ''/''}"
  unfolding upper_hex_def by (auto simp: char_of_eq_iff take_bit_eq_mod)

lemma uri_char_clean: "c \<in> set (uri_char d) \<Longrightarrow> c \<notin> {CHR '':'', CHR ''/''}"
proof -
  have "(of_char b :: nat) div 16 < 16" for b :: char using of_char_less [of b] by linarith
  then have "c \<in> set (percent_byte b) \<Longrightarrow> c \<notin> {CHR '':'', CHR ''/''}" for b
    using upper_hex_clean [of "of_char b div 16"] upper_hex_clean [of "of_char b mod 16"]
    by (auto simp: percent_byte_def)
  then show "c \<in> set (uri_char d) \<Longrightarrow> c \<notin> {CHR '':'', CHR ''/''}"
    by (auto simp: uri_char_def uri_unreserved_def less_eq_char_def split: if_split_asm)
qed

lemma encodeURIComponent_clean: "CHR '':'' \<notin> set (encodeURIComponent s)" "CHR ''/'' \<notin> set (encodeURIComponent s)"
  using uri_char_clean by (fastforce simp: encodeURIComponent_def)+

end
