(* ===== verification/Wdl_Io.thy ===== *)
theory Wdl_Io
  imports Auth_Lib
begin

text \<open>
  Programs that talk to services. The Redis server, the clock, the random source and the digest
  of WebCrypto are not part of the repository; an asynchronous function of the source is a tree
  of requests (\<open>Ask\<close>) whose branches are the possible replies, ending in a result or an error.
  A program is therefore a function of the replies, and \<open>outcome p tr r\<close> says that the replies
  in the trace \<open>tr\<close> lead to the result \<open>r\<close>: a theorem over all outcomes holds for every
  behaviour of the services and every interleaving with other clients. Module variables of a
  worker are shared by its requests and are read and written through requests as well. \<open>Spin\<close>
  marks a loop that has used up its fuel; no outcome follows from it.
  The theory also holds the shared helpers \<open>shared/optimistic-retry.js\<close>,
  \<open>shared/redis-lock.js\<close>, \<open>shared/random-id.js\<close> and \<open>shared/env.js\<close>.
\<close>

section \<open>Requests, replies, programs\<close>

text \<open>
  A command is the list of its arguments, as the client sends it. A reply is a simple or bulk
  string (\<open>Text\<close>, by its decoded text), an integer, nil or an array; \<open>Failed\<close> is an error reply
  or a broken transport. Module variables are read and written by name. \<open>Local\<close> is a synchronous
  call of a function over the shared state of the process, which runs atomically; \<open>Value\<close> is what
  it returns.
\<close>

type_synonym cmd = "string list"

datatype req =
    Command cmd
  | Pipeline "cmd list"
  | Transaction "cmd list"        \<comment> \<open>\<open>MULTI\<close>, the commands, \<open>EXEC\<close>\<close>
  | NowMs
  | RandomBytes nat
  | ModuleGet string
  | ModuleSet string string
  | Local string "jsval list"

datatype reply = NoReply | Text string | Number int | Many "reply list" | Value jsval | Failed js_error

datatype 'a io = Done "'a result" | Ask req "reply \<Rightarrow> 'a io" | Spin

primrec io_try :: "'a io \<Rightarrow> ('a result \<Rightarrow> 'b io) \<Rightarrow> 'b io" where
  "io_try (Done r) f = f r"
| "io_try (Ask q k) f = Ask q (\<lambda>a. io_try (k a) f)"
| "io_try Spin f = Spin"

definition io_bind :: "'a io \<Rightarrow> ('a \<Rightarrow> 'b io) \<Rightarrow> 'b io" where
  "io_bind m f = io_try m (\<lambda>r. case r of Inl e \<Rightarrow> Done (Throw e) | Inr x \<Rightarrow> f x)"

definition io_catch :: "'a io \<Rightarrow> (js_error \<Rightarrow> 'a io) \<Rightarrow> 'a io" where
  "io_catch m h = io_try m (\<lambda>r. case r of Inl e \<Rightarrow> h e | Inr x \<Rightarrow> Done (Ok x))"

text \<open>\<open>try .. finally\<close>: an error of the cleanup replaces the outcome.\<close>

definition io_finally :: "'a io \<Rightarrow> unit io \<Rightarrow> 'a io" where
  "io_finally m cleanup = io_try m (\<lambda>r. io_bind cleanup (\<lambda>_. Done r))"

abbreviation io_return :: "'a \<Rightarrow> 'a io" where "io_return x \<equiv> Done (Ok x)"
abbreviation io_throw :: "js_error \<Rightarrow> 'a io" where "io_throw e \<equiv> Done (Throw e)"
abbreviation io_lift :: "'a result \<Rightarrow> 'a io" where "io_lift r \<equiv> Done r"

abbreviation io_then :: "'a io \<Rightarrow> 'b io \<Rightarrow> 'b io" where
  "io_then p q \<equiv> io_bind p (\<lambda>_. q)"

text \<open>Requests; a failure is thrown. A pipeline has one reply per command.\<close>

definition ask :: "req \<Rightarrow> reply io" where
  "ask q = Ask q (\<lambda>a. case a of Failed e \<Rightarrow> io_throw e | _ \<Rightarrow> io_return a)"

definition ask_number :: "req \<Rightarrow> int io" where
  "ask_number q = Ask q (\<lambda>a. case a of Number n \<Rightarrow> io_return n | Failed e \<Rightarrow> io_throw e | _ \<Rightarrow> io_throw JsError)"

definition now_ms :: "int io" where
  "now_ms = ask_number NowMs"

text \<open>\<open>getRandomValues\<close> fills the buffer it is given.\<close>

definition random_bytes :: "nat \<Rightarrow> char list io" where
  "random_bytes n = Ask (RandomBytes n) (\<lambda>a. case a of Text bs \<Rightarrow> if length bs = n then io_return bs else io_throw JsError
     | Failed e \<Rightarrow> io_throw e | _ \<Rightarrow> io_throw JsError)"

definition module_get :: "string \<Rightarrow> string option io" where
  "module_get v = Ask (ModuleGet v) (\<lambda>a. case a of Text s \<Rightarrow> io_return (Some s) | _ \<Rightarrow> io_return None)"

definition module_set :: "string \<Rightarrow> string \<Rightarrow> unit io" where
  "module_set v s = Ask (ModuleSet v s) (\<lambda>_. io_return ())"

text \<open>A synchronous call over the shared state of the process.\<close>

definition local_call :: "string \<Rightarrow> jsval list \<Rightarrow> jsval io" where
  "local_call f args = Ask (Local f args) (\<lambda>a. case a of Value v \<Rightarrow> io_return v | Failed e \<Rightarrow> io_throw e | _ \<Rightarrow> io_return JUndef)"

section \<open>Outcomes\<close>

inductive outcome :: "'a io \<Rightarrow> (req \<times> reply) list \<Rightarrow> 'a result \<Rightarrow> bool" where
  outcome_done: "outcome (Done r) [] r"
| outcome_ask: "outcome (k a) tr r \<Longrightarrow> outcome (Ask q k) ((q, a) # tr) r"

inductive_simps outcome_Done [simp]: "outcome (Done r) tr r'"
inductive_simps outcome_Ask: "outcome (Ask q k) tr r"
inductive_simps outcome_Spin [simp]: "outcome Spin tr r"

text \<open>The function form: the outcome for a list of replies, if they are enough.\<close>

fun run_io :: "'a io \<Rightarrow> reply list \<Rightarrow> ((req \<times> reply) list \<times> 'a result) option" where
  "run_io (Done r) as = (if as = [] then Some ([], r) else None)"
| "run_io (Ask q k) [] = None"
| "run_io (Ask q k) (a # as) = map_option (\<lambda>(tr, r). ((q, a) # tr, r)) (run_io (k a) as)"
| "run_io Spin as = None"

lemma run_io_outcome: "run_io p as = Some (tr, r) \<Longrightarrow> outcome p tr r"
  by (induction p as arbitrary: tr rule: run_io.induct) (auto intro: outcome.intros split: if_split_asm)

lemma outcome_try_iff:
  "outcome (io_try m f) tr r \<longleftrightarrow> (\<exists>t1 t2 x. tr = t1 @ t2 \<and> outcome m t1 x \<and> outcome (f x) t2 r)"
proof
  show "outcome (io_try m f) tr r \<Longrightarrow> \<exists>t1 t2 x. tr = t1 @ t2 \<and> outcome m t1 x \<and> outcome (f x) t2 r"
  proof (induction m arbitrary: tr)
    case (Done x)
    then show ?case by (intro exI [of _ "[]"] exI [of _ tr] exI [of _ x]) simp
  next
    case (Ask q k)
    then obtain a t where t: "tr = (q, a) # t" "outcome (io_try (k a) f) t r" by (auto simp: outcome_Ask)
    from Ask.IH [OF _ t(2)] obtain t1 t2 x where "t = t1 @ t2" "outcome (k a) t1 x" "outcome (f x) t2 r" by auto
    then have "tr = ((q, a) # t1) @ t2 \<and> outcome (Ask q k) ((q, a) # t1) x \<and> outcome (f x) t2 r"
      using t(1) by (simp add: outcome_ask)
    then show ?case by blast
  qed simp
next
  assume "\<exists>t1 t2 x. tr = t1 @ t2 \<and> outcome m t1 x \<and> outcome (f x) t2 r"
  then obtain t1 t2 x where t: "tr = t1 @ t2" "outcome m t1 x" "outcome (f x) t2 r" by blast
  from t(2,3) have "outcome (io_try m f) (t1 @ t2) r"
    by (induction rule: outcome.induct) (auto intro: outcome_ask)
  with t(1) show "outcome (io_try m f) tr r" by simp
qed

lemma outcome_bind_Ok:
  "outcome (io_bind m f) tr (Ok y) \<longleftrightarrow> (\<exists>t1 t2 x. tr = t1 @ t2 \<and> outcome m t1 (Ok x) \<and> outcome (f x) t2 (Ok y))"
  unfolding io_bind_def outcome_try_iff split_sum_ex by simp

lemma outcome_catch_Ok:
  "outcome (io_catch m h) tr (Ok y) \<longleftrightarrow> outcome m tr (Ok y) \<or>
     (\<exists>t1 t2 e. tr = t1 @ t2 \<and> outcome m t1 (Throw e) \<and> outcome (h e) t2 (Ok y))"
  unfolding io_catch_def outcome_try_iff split_sum_ex by auto

lemma outcome_finally_Ok:
  "outcome (io_finally m c) tr (Ok y) \<longleftrightarrow> (\<exists>t1 t2. tr = t1 @ t2 \<and> outcome m t1 (Ok y) \<and> outcome c t2 (Ok ()))"
  unfolding io_finally_def outcome_try_iff outcome_bind_Ok by auto

lemma outcome_bindI: "outcome m t1 (Ok x) \<Longrightarrow> outcome (f x) t2 r \<Longrightarrow> outcome (io_bind m f) (t1 @ t2) r"
  unfolding io_bind_def outcome_try_iff by fastforce

lemma outcome_bind_Throw:
  "outcome (io_bind m f) tr (Throw e) \<longleftrightarrow> outcome m tr (Throw e) \<or>
     (\<exists>t1 t2 x. tr = t1 @ t2 \<and> outcome m t1 (Ok x) \<and> outcome (f x) t2 (Throw e))"
  unfolding io_bind_def outcome_try_iff split_sum_ex by auto

lemma outcome_ask_Ok: "outcome (ask q) tr (Ok a) \<longleftrightarrow> tr = [(q, a)] \<and> (\<forall>e. a \<noteq> Failed e)"
proof -
  have "outcome (case b of Failed e \<Rightarrow> io_throw e | _ \<Rightarrow> io_return b) t (Ok a) \<longleftrightarrow> t = [] \<and> a = b \<and> (\<forall>e. a \<noteq> Failed e)" for b t
    by (cases b) auto
  then show ?thesis by (auto simp: ask_def outcome_Ask)
qed

lemma outcome_number_Ok: "outcome (ask_number q) tr (Ok n) \<longleftrightarrow> tr = [(q, Number n)]"
  by (auto simp: ask_number_def outcome_Ask split: reply.split_asm)

lemma outcome_now_Ok: "outcome now_ms tr (Ok n) \<longleftrightarrow> tr = [(NowMs, Number n)]"
  by (simp add: now_ms_def outcome_number_Ok)

lemma outcome_random_Ok: "outcome (random_bytes n) tr (Ok bs) \<longleftrightarrow> tr = [(RandomBytes n, Text bs)] \<and> length bs = n"
  by (auto simp: random_bytes_def outcome_Ask split: reply.split_asm if_split_asm)

lemma outcome_module_get_Ok:
  "outcome (module_get v) tr (Ok x) \<longleftrightarrow> (\<exists>a. tr = [(ModuleGet v, a)] \<and> x = (case a of Text s \<Rightarrow> Some s | _ \<Rightarrow> None))"
  by (auto simp: module_get_def outcome_Ask split: reply.split_asm reply.split)

lemma module_get_runs: "outcome (module_get v) [(ModuleGet v, Text s)] (Ok (Some s))"
  unfolding outcome_module_get_Ok by (intro exI [of _ "Text s"]) simp

lemma outcome_module_set_Ok: "outcome (module_set v s) tr (Ok x) \<longleftrightarrow> (\<exists>a. tr = [(ModuleSet v s, a)])"
  by (auto simp: module_set_def outcome_Ask)

lemma io_bind_assoc: "io_bind (io_bind m f) g = io_bind m (\<lambda>x. io_bind (f x) g)"
proof (induction m)
  case (Done r)
  then show ?case by (cases r) (simp_all add: io_bind_def)
next
  case (Ask q k)
  have "io_bind (io_bind (k a) f) g = io_bind (k a) (\<lambda>x. io_bind (f x) g)" for a by (rule Ask) simp
  then show ?case by (simp add: io_bind_def)
qed (simp add: io_bind_def)

text \<open>
  The verification condition of a program: what holds of every trace and result. Its laws follow
  the program text, so the simplifier computes the condition of a straight-line program.
\<close>

definition always :: "'a io \<Rightarrow> ((req \<times> reply) list \<Rightarrow> 'a result \<Rightarrow> bool) \<Rightarrow> bool" where
  "always p Q \<longleftrightarrow> (\<forall>tr r. outcome p tr r \<longrightarrow> Q tr r)"

lemma alwaysD: "always p Q \<Longrightarrow> outcome p tr r \<Longrightarrow> Q tr r"
  by (simp add: always_def)

lemma always_mono: "always p Q \<Longrightarrow> (\<And>tr r. outcome p tr r \<Longrightarrow> Q tr r \<Longrightarrow> R tr r) \<Longrightarrow> always p R"
  by (auto simp: always_def)

lemma always_Done [simp]: "always (Done r) Q \<longleftrightarrow> Q [] r"
  by (auto simp: always_def)

lemma always_Spin [simp]: "always Spin Q"
  by (simp add: always_def)

lemma always_Ask [simp]: "always (Ask q k) Q \<longleftrightarrow> (\<forall>a. always (k a) (\<lambda>tr. Q ((q, a) # tr)))"
  by (auto simp: always_def outcome_Ask)

lemma always_try [simp]: "always (io_try m f) Q \<longleftrightarrow> always m (\<lambda>t x. always (f x) (\<lambda>t'. Q (t @ t')))"
  unfolding always_def outcome_try_iff by blast

lemma always_bind [simp]:
  "always (io_bind m f) Q \<longleftrightarrow> always m (\<lambda>t x. case x of Inl e \<Rightarrow> Q t (Throw e) | Inr y \<Rightarrow> always (f y) (\<lambda>t'. Q (t @ t')))"
proof -
  have "always (case x of Inl e \<Rightarrow> Done (Throw e) | Inr x \<Rightarrow> f x) (\<lambda>t'. Q (t @ t')) \<longleftrightarrow>
      (case x of Inl e \<Rightarrow> Q t (Throw e) | Inr y \<Rightarrow> always (f y) (\<lambda>t'. Q (t @ t')))" for x t
    by (cases x) simp_all
  then show ?thesis by (simp add: io_bind_def)
qed

lemma always_catch [simp]:
  "always (io_catch m h) Q \<longleftrightarrow> always m (\<lambda>t x. case x of Inl e \<Rightarrow> always (h e) (\<lambda>t'. Q (t @ t')) | Inr y \<Rightarrow> Q t (Ok y))"
proof -
  have "always (case x of Inl e \<Rightarrow> h e | Inr x \<Rightarrow> Done (Ok x)) (\<lambda>t'. Q (t @ t')) \<longleftrightarrow>
      (case x of Inl e \<Rightarrow> always (h e) (\<lambda>t'. Q (t @ t')) | Inr y \<Rightarrow> Q t (Ok y))" for x t
    by (cases x) simp_all
  then show ?thesis by (simp add: io_catch_def)
qed

lemmas outcome_Ok = outcome_bind_Ok outcome_catch_Ok outcome_finally_Ok outcome_ask_Ok outcome_number_Ok
  outcome_now_Ok outcome_random_Ok outcome_module_get_Ok outcome_module_set_Ok

section \<open>Termination\<close>

text \<open>
  A program that never reaches \<open>Spin\<close> ends: \<open>Ask\<close> is a constructor of a datatype, so a run is
  finite. The environment that answers is a function of the requests and replies so far.
\<close>

primrec settles :: "'a io \<Rightarrow> bool" where
  "settles (Done r) \<longleftrightarrow> True"
| "settles (Ask q k) \<longleftrightarrow> (\<forall>a. settles (k a))"
| "settles Spin \<longleftrightarrow> False"

type_synonym environment = "(req \<times> reply) list \<Rightarrow> req \<Rightarrow> reply"

primrec answered :: "environment \<Rightarrow> (req \<times> reply) list \<Rightarrow> (req \<times> reply) list \<Rightarrow> bool" where
  "answered env h [] \<longleftrightarrow> True"
| "answered env h (x # tr) \<longleftrightarrow> snd x = env h (fst x) \<and> answered env (h @ [x]) tr"

lemma settles_outcome: "settles p \<Longrightarrow> \<exists>tr r. outcome p tr r \<and> answered env h tr"
proof (induction p arbitrary: h)
  case (Ask q k)
  let ?a = "env h q"
  from Ask.prems Ask.IH [of "k ?a" "h @ [(q, ?a)]"] obtain tr r where "outcome (k ?a) tr r" "answered env (h @ [(q, ?a)]) tr" by auto
  then show ?case by (intro exI [of _ "(q, ?a) # tr"] exI [of _ r]) (simp add: outcome_ask)
qed (auto intro: exI [of _ "[]"])

lemma settles_try: "settles m \<Longrightarrow> (\<And>x. settles (f x)) \<Longrightarrow> settles (io_try m f)"
  by (induction m) auto

lemma settles_bind [intro]: "settles m \<Longrightarrow> (\<And>x. settles (f x)) \<Longrightarrow> settles (io_bind m f)"
  unfolding io_bind_def by (auto intro!: settles_try split: sum.split)

lemma settles_catch [intro]: "settles m \<Longrightarrow> (\<And>e. settles (h e)) \<Longrightarrow> settles (io_catch m h)"
  unfolding io_catch_def by (auto intro!: settles_try split: sum.split)

lemma settles_ask [simp]: "settles (ask q)" "settles (local_call f args)"
  by (auto simp: ask_def local_call_def split: reply.split)

section \<open>Bounded retries\<close>

text \<open>
  \<open>shared/optimistic-retry.js\<close>: the attempts run in order; a result that should not be retried
  is returned, an error that is not retryable is thrown, and after the last attempt the fallback
  decides.
\<close>

function withOptimisticRetries :: "(nat \<Rightarrow> 'a io) \<Rightarrow> nat \<Rightarrow> (js_error \<Rightarrow> bool) \<Rightarrow> ('a \<Rightarrow> nat \<Rightarrow> bool) \<Rightarrow> 'a io \<Rightarrow> nat \<Rightarrow> 'a io" where
  "withOptimisticRetries operation attempts isRetryableError shouldRetryResult onExhausted attempt =
     (if attempt < attempts
      then io_try (operation attempt) (\<lambda>r.
        let continue = withOptimisticRetries operation attempts isRetryableError shouldRetryResult onExhausted (attempt + 1) in
        case r of
          Inr x \<Rightarrow> if shouldRetryResult x attempt then continue else io_return x
        | Inl e \<Rightarrow> if isRetryableError e then continue else io_throw e)
      else onExhausted)"
  by pat_completeness auto
termination
  by (relation "measure (\<lambda>(_, attempts, _, _, _, attempt). attempts - attempt)") auto

declare withOptimisticRetries.simps [simp del]

section \<open>Random identifiers and token locks\<close>

definition randomHex :: "nat \<Rightarrow> string io" where
  "randomHex byteLength = io_bind (random_bytes byteLength) (\<lambda>bytes. io_return (bytesToHex bytes))"

section \<open>Environment variables\<close>

definition CANONICAL_POSITIVE_DECIMAL :: rx where
  "CANONICAL_POSITIVE_DECIMAL = RSeq (Cls [(CHR ''1'', CHR ''9'')]) (RStar (Cls [(CHR ''0'', CHR ''9'')]))"

definition envValueOr :: "jsval \<Rightarrow> jsval \<Rightarrow> jsval" where
  "envValueOr v fallback = (if nullish v \<or> v = JStr [] then fallback else v)"

text \<open>\<open>Number(raw)\<close> of a canonical decimal is its value, exact in the safe range and not below it elsewhere.\<close>

definition canonicalPositiveIntegerEnv :: "jsval \<Rightarrow> string \<Rightarrow> int \<Rightarrow> int \<Rightarrow> int" where
  "canonicalPositiveIntegerEnv env name fallback upper =
     (case jget env name of
        JStr raw \<Rightarrow>
          if \<not> rx_test CANONICAL_POSITIVE_DECIMAL raw then fallback
          else let v = int (digits_val raw) in if isSafeInt v \<and> v \<le> upper then v else fallback
      | _ \<Rightarrow> fallback)"

lemma digit_cls: "in_cls [(CHR ''0'', CHR ''9'')] c \<longleftrightarrow> is_digit c"
  by (simp add: is_digit_def)

lemma canonical_decimal: "rx_test CANONICAL_POSITIVE_DECIMAL s \<Longrightarrow> 0 < digits_val s \<and> show_nat (digits_val s) = s"
proof -
  assume "rx_test CANONICAL_POSITIVE_DECIMAL s"
  then have s: "s \<noteq> []" "in_cls [(CHR ''1'', CHR ''9'')] (hd s)" "\<forall>c \<in> set (tl s). is_digit c"
    unfolding CANONICAL_POSITIVE_DECIMAL_def rx_test_seq_cls rx_test_star_cls digit_cls by auto
  moreover have "CHR ''1'' \<le> c \<and> c \<le> CHR ''9'' \<Longrightarrow> is_digit c \<and> c \<noteq> CHR ''0''" for c
    by (auto simp: is_digit_def less_eq_char_def)
  ultimately have "s \<noteq> []" "\<forall>c \<in> set s. is_digit c" "hd s \<noteq> CHR ''0''" by (cases s; auto)+
  then show ?thesis using digits_val_pos show_nat_digits_val by blast
qed

lemma canonical_env_bounds:
  assumes "0 < fallback" "fallback \<le> upper"
  shows "0 < canonicalPositiveIntegerEnv env name fallback upper \<and> canonicalPositiveIntegerEnv env name fallback upper \<le> upper"
  using assms canonical_decimal by (auto simp: canonicalPositiveIntegerEnv_def Let_def split: jsval.split)

end
