(* ===== verification/Redis_Resp.thy ===== *)
theory Redis_Resp
  imports Bytes
begin

text \<open>
  The Redis wire protocol (\<open>shared/redis-resp.js\<close>): the command encoder, which plans the
  length of every frame before it fills one buffer, the batching of frames into bounded writes,
  and the reader that parses replies out of a stream of chunks while it compacts and grows its
  buffer. The bytes of a line are kept as they are; what the text decoder of the platform makes of
  them is not part of the model. The reader is related to a parser of plain byte strings: what it
  returns does not depend on how the stream is cut into chunks.
\<close>

section \<open>Command frames\<close>

datatype redis_arg = AText string | ABytes "char list"

type_synonym redis_command = "redis_arg list"

definition SHORT_UTF8_ARG_MAX_CODE_UNITS :: nat where
  "SHORT_UTF8_ARG_MAX_CODE_UNITS = 512"


text \<open>Typed arrays ignore a write past their end.\<close>

fun writeAscii :: "char list \<Rightarrow> nat \<Rightarrow> string \<Rightarrow> char list \<times> nat" where
  "writeAscii target offset [] = (target, offset)"
| "writeAscii target offset (c # text) = writeAscii (target[offset := c]) (offset + 1) text"

record command_plan =
  plan_args :: redis_command
  plan_byteLength :: nat
  plan_longUtf8 :: "char list option list"

definition plan_arg :: "redis_arg \<Rightarrow> nat \<times> char list option" where
  "plan_arg arg =
     (case arg of
        ABytes bytes \<Rightarrow> (length bytes, None)
      | AText value \<Rightarrow>
          if length value \<le> SHORT_UTF8_ARG_MAX_CODE_UNITS then (utf8ByteLength value, None)
          else (let bytes = utf8_encode value in (length bytes, Some bytes)))"

definition planCommand :: "redis_command \<Rightarrow> command_plan" where
  "planCommand args =
     \<lparr>plan_args = args,
      plan_byteLength = foldl (\<lambda>tot arg. let byteLength = fst (plan_arg arg) in
          tot + (1 + length (show_nat byteLength) + 2 + byteLength + 2))
        (1 + length (show_nat (length args)) + 2) args,
      plan_longUtf8 = map (\<lambda>arg. snd (plan_arg arg)) args\<rparr>"

text \<open>
  \<open>encodeInto\<close> writes the characters that fit as a whole and reports how many it read and how
  many bytes it wrote; \<open>set\<close> refuses bytes that do not fit.
\<close>

fun encode_room :: "string \<Rightarrow> nat \<Rightarrow> char list \<times> nat" where
  "encode_room [] room = ([], 0)"
| "encode_room (c # s) room =
     (if length (utf8_char c) \<le> room
      then (let (bytes, read) = encode_room s (room - length (utf8_char c)) in (utf8_char c @ bytes, read + 1))
      else ([], 0))"

definition crlf :: string where
  "crlf = [CHR 0x0D, CHR 0x0A]"

definition encode_arg :: "redis_arg \<Rightarrow> char list option \<Rightarrow> char list \<times> nat \<Rightarrow> (char list \<times> nat) result" where
  "encode_arg arg long st =
     (let bytes = (case arg of ABytes b \<Rightarrow> Some b | AText _ \<Rightarrow> long);
          value = (case arg of ABytes b \<Rightarrow> b | AText s \<Rightarrow> s);
          byteLength = (case bytes of Some b \<Rightarrow> length b | None \<Rightarrow> utf8ByteLength value);
          (out, off) = (case writeAscii (fst st) (snd st) ''$'' of (out, off) \<Rightarrow>
                        case writeAscii out off (show_nat byteLength) of (out, off) \<Rightarrow>
                        writeAscii out off crlf)
      in bind_result
           (case bytes of
              Some b \<Rightarrow> if off + length b \<le> length out then Ok (fst (writeAscii out off b)) else Throw JsError
            | None \<Rightarrow>
                (let (b, read) = encode_room value (min byteLength (length out - off)) in
                 if read \<noteq> length value \<or> length b \<noteq> byteLength then Throw JsError
                 else Ok (fst (writeAscii out off b))))
           (\<lambda>out. Ok (writeAscii out (off + byteLength) crlf)))"

fun encode_args :: "redis_command \<Rightarrow> char list option list \<Rightarrow> char list \<times> nat \<Rightarrow> (char list \<times> nat) result" where
  "encode_args [] longs st = Ok st"
| "encode_args (arg # args) longs st =
     bind_result (encode_arg arg (case longs of [] \<Rightarrow> None | l # _ \<Rightarrow> l) st) (\<lambda>st. encode_args args (tl longs) st)"

fun encode_plans :: "command_plan list \<Rightarrow> char list \<times> nat \<Rightarrow> (char list \<times> nat) result" where
  "encode_plans [] st = Ok st"
| "encode_plans (plan # plans) st =
     (let (out, off) = (case writeAscii (fst st) (snd st) ''*'' of (out, off) \<Rightarrow>
                        case writeAscii out off (show_nat (length (plan_args plan))) of (out, off) \<Rightarrow>
                        writeAscii out off crlf)
      in bind_result (encode_args (plan_args plan) (plan_longUtf8 plan) (out, off)) (\<lambda>st. encode_plans plans st))"

definition encodeCommandPlans :: "command_plan list \<Rightarrow> nat \<Rightarrow> char list result" where
  "encodeCommandPlans plans tot =
     bind_result (encode_plans plans (replicate tot (CHR 0x00), 0)) (\<lambda>st. Ok (fst st))"

definition encodeCommands :: "redis_command list \<Rightarrow> char list result" where
  "encodeCommands commands =
     (let plans = map planCommand commands in
      encodeCommandPlans plans (foldl (\<lambda>sum plan. sum + plan_byteLength plan) 0 plans))"

definition encodeCommand :: "redis_command \<Rightarrow> char list result" where
  "encodeCommand args = encodeCommands [args]"



text \<open>The frames as the protocol describes them.\<close>

definition arg_bytes :: "redis_arg \<Rightarrow> char list" where
  "arg_bytes arg = (case arg of AText s \<Rightarrow> utf8_encode s | ABytes b \<Rightarrow> b)"

definition bulk_frame :: "char list \<Rightarrow> char list" where
  "bulk_frame bytes = ''$'' @ show_nat (length bytes) @ crlf @ bytes @ crlf"

definition command_frame :: "redis_command \<Rightarrow> char list" where
  "command_frame args = ''*'' @ show_nat (length args) @ crlf @ concat (map (\<lambda>a. bulk_frame (arg_bytes a)) args)"

section \<open>The reply reader\<close>

text \<open>
  A reply; \<open>Bulk\<close> and \<open>Simple\<close> hold bytes. Errors of the reader: the stream ended, the bytes
  are no RESP, the server answered with an error line, or (never, see \<open>parseOne_total\<close>) the
  fuel of the model ran out.
\<close>

datatype resp = Simple "char list" | Integer int | Bulk "char list" | Null | Arr "resp list"

datatype resp_error = ConnectionClosed | InvalidResp | RedisReplyError "char list" | OutOfFuel

type_synonym 'a parsed = "resp_error + 'a"

abbreviation (input) ok :: "'a \<Rightarrow> 'a parsed" where "ok \<equiv> Inr"
abbreviation (input) fail :: "resp_error \<Rightarrow> 'a parsed" where "fail \<equiv> Inl"

definition bind_parsed :: "'a parsed \<Rightarrow> ('a \<Rightarrow> 'b parsed) \<Rightarrow> 'b parsed" where
  "bind_parsed p f = (case p of Inl e \<Rightarrow> Inl e | Inr x \<Rightarrow> f x)"

lemma bind_parsed_simps [simp]: "bind_parsed (Inl e) f = Inl e" "bind_parsed (Inr x) f = f x"
  by (simp_all add: bind_parsed_def)

lemma bind_parsed_eq_Inr: "bind_parsed p f = Inr y \<longleftrightarrow> (\<exists>x. p = Inr x \<and> f x = Inr y)"
  by (cases p) simp_all

lemma bind_parsed_eq_Inl: "bind_parsed p f = Inl e \<longleftrightarrow> p = Inl e \<or> (\<exists>x. p = Inr x \<and> f x = Inl e)"
  by (cases p) simp_all

definition RESP_RETAINED_BUFFER_LIMIT :: nat where
  "RESP_RETAINED_BUFFER_LIMIT = 64 * 1024"

text \<open>The digit loop of the two integer parsers.\<close>

fun integer_digits :: "char list \<Rightarrow> int \<Rightarrow> int option" where
  "integer_digits [] v = Some v"
| "integer_digits (c # cs) v =
     (if \<not> is_digit c then None
      else let numericDigit = int (digit_val c) in
        if v * 10 > MAX_SAFE_INTEGER - numericDigit then None
        else integer_digits cs (v * 10 + numericDigit))"

definition parseRespIntegerBytes :: "char list \<Rightarrow> int parsed" where
  "parseRespIntegerBytes bytes =
     (if bytes = [] then fail InvalidResp
      else
        let negative = (hd bytes = CHR ''-''); rest = (if negative then tl bytes else bytes) in
        if rest = [] then fail InvalidResp
        else if \<not> is_digit (hd rest) then fail InvalidResp
        else if hd rest = CHR ''0'' \<and> (negative \<or> length rest \<noteq> 1) then fail InvalidResp
        else case integer_digits rest 0 of
          None \<Rightarrow> fail InvalidResp
        | Some v \<Rightarrow> ok (if negative then - v else v))"

text \<open>
  The reader: \<open>_storage\<close>, the length of its view \<open>buf\<close>, the position in it, and the chunks
  the stream will still deliver before it ends.
\<close>

record resp_reader =
  storage :: "char list"
  buf_len :: nat
  rpos :: nat
  incoming :: "char list list"

definition RespReader :: "char list list \<Rightarrow> resp_reader" where
  "RespReader chunks = \<lparr>storage = [], buf_len = 0, rpos = 0, incoming = chunks\<rparr>"

definition buf :: "resp_reader \<Rightarrow> char list" where
  "buf r = take (buf_len r) (storage r)"

definition compactConsumed :: "bool \<Rightarrow> resp_reader \<Rightarrow> nat \<times> resp_reader" where
  "compactConsumed releaseOversized r =
     (if rpos r = 0 then (0, r)
      else if rpos r \<ge> buf_len r then
        (rpos r,
         r\<lparr>storage := (if releaseOversized \<and> length (storage r) > RESP_RETAINED_BUFFER_LIMIT then [] else storage r),
           buf_len := 0, rpos := 0\<rparr>)
      else if releaseOversized \<and> length (storage r) > RESP_RETAINED_BUFFER_LIMIT then
        (rpos r, r\<lparr>storage := drop (rpos r) (buf r), buf_len := length (drop (rpos r) (buf r)), rpos := 0\<rparr>)
      else
        (let remaining = buf_len r - rpos r in
         (rpos r, r\<lparr>storage := drop (rpos r) (buf r) @ drop remaining (storage r), buf_len := remaining, rpos := 0\<rparr>)))"

definition ensureCapacity :: "nat \<Rightarrow> resp_reader \<Rightarrow> resp_reader" where
  "ensureCapacity needed r =
     (if length (storage r) \<ge> needed then r
      else let nextCapacity = max needed (max (length (storage r) * 2) 1024) in
        r\<lparr>storage := buf r @ replicate (nextCapacity - length (buf r)) (CHR 0x00)\<rparr>)"

definition readMore :: "resp_reader \<Rightarrow> (nat \<times> resp_reader) parsed" where
  "readMore r =
     (case incoming r of
        [] \<Rightarrow> fail ConnectionClosed
      | value # rest \<Rightarrow>
          (let (consumed, r) = compactConsumed False (r\<lparr>incoming := rest\<rparr>);
               len = buf_len r; nextLength = len + length value;
               r = ensureCapacity nextLength r
           in ok (consumed, r\<lparr>storage := take len (storage r) @ value @ drop nextLength (storage r),
                              buf_len := nextLength\<rparr>)))"

text \<open>\<open>buf.indexOf(RESP_CR, scanFrom)\<close>\<close>

definition index_from :: "char \<Rightarrow> nat \<Rightarrow> char list \<Rightarrow> nat option" where
  "index_from c n bs = map_option (\<lambda>i. n + i) (index_of c (drop n bs))"

lemma index_from_bounds: "index_from c n bs = Some i \<Longrightarrow> n \<le> i \<and> i < length bs"
  using index_of_Some by (fastforce simp: index_from_def)

lemma compact_incoming: "incoming (snd (compactConsumed b r)) = incoming r"
  by (simp add: compactConsumed_def Let_def)

lemma readMore_incoming: "readMore r = Inr (n, r') \<Longrightarrow> length (incoming r') < length (incoming r)"
  by (auto simp: readMore_def Let_def ensureCapacity_def compact_incoming split: list.split_asm prod.split_asm if_split_asm
      dest: arg_cong [where f = "\<lambda>p. incoming (snd p)"])

function findCRLF :: "nat \<Rightarrow> resp_reader \<Rightarrow> (nat \<times> resp_reader) parsed" where
  "findCRLF scanFrom r =
     (case index_from (CHR 0x0D) scanFrom (buf r) of
        Some cr \<Rightarrow>
          if cr + 1 < length (buf r) then
            (if buf r ! (cr + 1) = CHR 0x0A then ok (cr, r) else findCRLF (cr + 1) r)
          else (case readMore r of
                  Inl e \<Rightarrow> Inl e
                | Inr (consumed, r') \<Rightarrow> findCRLF (cr - consumed) r')
      | None \<Rightarrow>
          (case readMore r of
             Inl e \<Rightarrow> Inl e
           | Inr (consumed, r') \<Rightarrow> findCRLF (length (buf r) - 1 - consumed) r'))"
  by pat_completeness auto
termination
  by (relation "measures [\<lambda>(n, r). length (incoming r), \<lambda>(n, r). length (buf r) - n]")
     (auto dest: readMore_incoming index_from_bounds)

declare findCRLF.simps [simp del]

function ensureBufferedLength :: "nat \<Rightarrow> resp_reader \<Rightarrow> resp_reader parsed" where
  "ensureBufferedLength target r =
     (if length (buf r) < target
      then (case readMore r of
              Inl e \<Rightarrow> Inl e
            | Inr (consumed, r') \<Rightarrow> ensureBufferedLength (target - consumed) r')
      else ok r)"
  by pat_completeness auto
termination
  by (relation "measure (\<lambda>(n, r). length (incoming r))") (auto dest: readMore_incoming)

declare ensureBufferedLength.simps [simp del]

text \<open>What one call of \<open>_parseOne\<close> returns: a reply, or an error line that is deferred.\<close>

datatype parsed_item = Item resp | ErrorItem "char list"

text \<open>The loop over the elements of an array, with the parser of an element as argument.\<close>

primrec parse_items :: "('s \<Rightarrow> (parsed_item \<times> 's) parsed) \<Rightarrow> nat \<Rightarrow> resp list
    \<Rightarrow> char list option \<Rightarrow> 's \<Rightarrow> (resp list \<times> char list option \<times> 's) parsed" where
  "parse_items p 0 arr firstError r = ok (arr, firstError, r)"
| "parse_items p (Suc n) arr firstError r =
     bind_parsed (p r) (\<lambda>(item, r).
       case item of
         ErrorItem e \<Rightarrow> parse_items p n arr (case firstError of None \<Rightarrow> Some e | Some _ \<Rightarrow> firstError) r
       | Item x \<Rightarrow> parse_items p n (arr @ [x]) firstError r)"

definition requireCrlfAt :: "char list \<Rightarrow> nat \<Rightarrow> unit parsed" where
  "requireCrlfAt b pos =
     (if pos + 1 < length b \<and> b ! pos = CHR 0x0D \<and> b ! (pos + 1) = CHR 0x0A then ok () else fail InvalidResp)"

definition line_error :: "bool \<Rightarrow> char list \<Rightarrow> 's \<Rightarrow> (parsed_item \<times> 's) parsed" where
  "line_error deferErrors message r =
     (if deferErrors then ok (ErrorItem message, r) else fail (RedisReplyError message))"

definition parse_bulk :: "char list \<Rightarrow> resp_reader \<Rightarrow> (parsed_item \<times> resp_reader) parsed" where
  "parse_bulk line r =
     bind_parsed (parseRespIntegerBytes line) (\<lambda>len.
       if len = - 1 then ok (Item Null, r)
       else if len < 0 then fail InvalidResp
       else bind_parsed (ensureBufferedLength (rpos r + nat len + 2) r) (\<lambda>r.
         let data = take (nat len) (drop (rpos r) (buf r)) in
         bind_parsed (requireCrlfAt (buf r) (rpos r + nat len)) (\<lambda>_.
           ok (Item (Bulk data), r\<lparr>rpos := rpos r + nat len + 2\<rparr>))))"

definition parse_array :: "('s \<Rightarrow> (parsed_item \<times> 's) parsed) \<Rightarrow> bool \<Rightarrow> char list \<Rightarrow> 's
    \<Rightarrow> (parsed_item \<times> 's) parsed" where
  "parse_array p deferErrors line r =
     bind_parsed (parseRespIntegerBytes line) (\<lambda>count.
       if count = - 1 then ok (Item Null, r)
       else if count < 0 then fail InvalidResp
       else bind_parsed (parse_items p (nat count) [] None r) (\<lambda>(arr, firstError, r).
         case firstError of
           Some e \<Rightarrow> line_error deferErrors e r
         | None \<Rightarrow> ok (Item (Arr arr), r)))"

primrec parse_one :: "nat \<Rightarrow> bool \<Rightarrow> resp_reader \<Rightarrow> (parsed_item \<times> resp_reader) parsed" where
  "parse_one 0 deferErrors r = fail OutOfFuel"
| "parse_one (Suc fuel) deferErrors r =
     bind_parsed (ensureBufferedLength (rpos r + 1) r) (\<lambda>r.
       let type = buf r ! rpos r; r = r\<lparr>rpos := rpos r + 1\<rparr> in
       bind_parsed (findCRLF (rpos r) r) (\<lambda>(lineEnd, r).
         let line = take (lineEnd - rpos r) (drop (rpos r) (buf r)); r = r\<lparr>rpos := lineEnd + 2\<rparr> in
         if type = CHR ''+'' then ok (Item (Simple line), r)
         else if type = CHR ''-'' then line_error deferErrors line r
         else if type = CHR '':'' then bind_parsed (parseRespIntegerBytes line) (\<lambda>v. ok (Item (Integer v), r))
         else if type = CHR ''$'' then parse_bulk line r
         else if type = CHR ''*'' then parse_array (parse_one fuel True) deferErrors line r
         else fail InvalidResp))"

text \<open>Every element takes at least one byte, so the unread bytes bound the depth.\<close>

definition unread :: "resp_reader \<Rightarrow> char list" where
  "unread r = drop (rpos r) (buf r) @ concat (incoming r)"

definition parseOne :: "resp_reader \<Rightarrow> (resp \<times> resp_reader) parsed" where
  "parseOne r =
     bind_parsed (parse_one (Suc (length (unread r))) False r) (\<lambda>(item, r).
       case item of ErrorItem e \<Rightarrow> fail (RedisReplyError e) | Item x \<Rightarrow> ok (x, r))"

text \<open>The replies of a pipeline, read in the order of its commands.\<close>

primrec parse_replies :: "nat \<Rightarrow> resp_reader \<Rightarrow> (resp list \<times> resp_reader) parsed" where
  "parse_replies 0 r = ok ([], r)"
| "parse_replies (Suc n) r =
     bind_parsed (parseOne r) (\<lambda>(x, r). bind_parsed (parse_replies n r) (\<lambda>(xs, r). ok (x # xs, r)))"

definition compact :: "resp_reader \<Rightarrow> resp_reader" where
  "compact r = snd (compactConsumed True r)"

section \<open>The reader refines a parser of byte strings\<close>

definition reader_ok :: "resp_reader \<Rightarrow> bool" where
  "reader_ok r \<longleftrightarrow> rpos r \<le> buf_len r \<and> buf_len r \<le> length (storage r)"

lemma reader_okD: "reader_ok r \<Longrightarrow> rpos r \<le> length (buf r)" "reader_ok r \<Longrightarrow> length (buf r) = buf_len r"
  by (auto simp: reader_ok_def buf_def)

lemma reader_ok_new: "reader_ok (RespReader chunks)" "unread (RespReader chunks) = concat chunks"
  by (simp_all add: reader_ok_def RespReader_def unread_def buf_def)

lemma compactConsumed_spec:
  assumes "reader_ok r"
  shows "\<exists>r'. compactConsumed b r = (rpos r, r') \<and> reader_ok r' \<and> rpos r' = 0
    \<and> buf r' = drop (rpos r) (buf r) \<and> incoming r' = incoming r"
  using assms
  by (auto simp: compactConsumed_def reader_ok_def buf_def Let_def)

lemma readMore_spec:
  assumes "reader_ok r"
  shows "incoming r = [] \<Longrightarrow> readMore r = Inl ConnectionClosed"
    and "incoming r = c # cs \<Longrightarrow> \<exists>r'. readMore r = Inr (rpos r, r') \<and> reader_ok r' \<and> rpos r' = 0
      \<and> buf r' = drop (rpos r) (buf r) @ c \<and> incoming r' = cs"
proof -
  show "incoming r = [] \<Longrightarrow> readMore r = Inl ConnectionClosed" by (simp add: readMore_def)
  assume inc: "incoming r = c # cs"
  have "reader_ok (r\<lparr>incoming := cs\<rparr>)" using assms by (simp add: reader_ok_def)
  from compactConsumed_spec [OF this, of False] obtain r1 where r1:
    "compactConsumed False (r\<lparr>incoming := cs\<rparr>) = (rpos r, r1)" "reader_ok r1" "rpos r1 = 0"
    "buf r1 = drop (rpos r) (buf r)" "incoming r1 = cs"
    by (auto simp: buf_def)
  define r2 where "r2 = ensureCapacity (buf_len r1 + length c) r1"
  have r2: "take (buf_len r1) (storage r2) = buf r1" "buf_len r1 + length c \<le> length (storage r2)"
    "rpos r2 = 0" "incoming r2 = cs"
    using r1(2,3,5) reader_okD(2) [OF r1(2)] by (auto simp: r2_def ensureCapacity_def Let_def reader_ok_def buf_def)
  define r' where "r' = r2\<lparr>storage := take (buf_len r1) (storage r2) @ c @ drop (buf_len r1 + length c) (storage r2),
      buf_len := buf_len r1 + length c\<rparr>"
  have "readMore r = Inr (rpos r, r')" by (simp add: readMore_def inc r1(1) r'_def r2_def Let_def)
  moreover have len: "length (buf r1) = buf_len r1" by (rule reader_okD(2) [OF r1(2)])
  have st: "storage r' = (buf r1 @ c) @ drop (buf_len r1 + length c) (storage r2)" "buf_len r' = length (buf r1 @ c)"
    "rpos r' = 0" "incoming r' = cs"
    by (simp_all add: r'_def r2 len)
  have "buf r' = buf r1 @ c" unfolding buf_def [of r'] st(1,2) by simp
  moreover have "reader_ok r'" unfolding reader_ok_def st by simp
  ultimately show "\<exists>r'. readMore r = Inr (rpos r, r') \<and> reader_ok r' \<and> rpos r' = 0
      \<and> buf r' = drop (rpos r) (buf r) @ c \<and> incoming r' = cs"
    using r1(4) st(3,4) by metis
qed

text \<open>The position of the first line end in a byte string.\<close>

definition crlf_at :: "char list \<Rightarrow> nat \<Rightarrow> bool" where
  "crlf_at bs i \<longleftrightarrow> i + 1 < length bs \<and> bs ! i = CHR 0x0D \<and> bs ! (i + 1) = CHR 0x0A"

fun first_crlf :: "char list \<Rightarrow> nat option" where
  "first_crlf (a # b # bs) = (if a = CHR 0x0D \<and> b = CHR 0x0A then Some 0 else map_option Suc (first_crlf (b # bs)))"
| "first_crlf _ = None"

lemma first_crlf_Some: "first_crlf bs = Some i \<longleftrightarrow> crlf_at bs i \<and> (\<forall>j < i. \<not> crlf_at bs j)"
proof (induction bs arbitrary: i rule: first_crlf.induct)
  case (1 a b bs)
  have shift: "crlf_at (a # b # bs) (Suc j) \<longleftrightarrow> crlf_at (b # bs) j" for j by (auto simp: crlf_at_def)
  have zero: "crlf_at (a # b # bs) 0 \<longleftrightarrow> a = CHR 0x0D \<and> b = CHR 0x0A" by (simp add: crlf_at_def)
  show ?case
  proof (cases "a = CHR 0x0D \<and> b = CHR 0x0A")
    case True
    then show ?thesis using zero by (cases i) auto
  next
    case False
    have "(\<forall>j < Suc n. \<not> crlf_at (a # b # bs) j) \<longleftrightarrow> (\<forall>j < n. \<not> crlf_at (b # bs) j)" for n
      using False zero by (simp add: All_less_Suc2 shift)
    with False show ?thesis using 1 zero by (cases i) (auto simp: shift)
  qed
qed (auto simp: crlf_at_def)

lemma first_crlf_None: "first_crlf bs = None \<longleftrightarrow> (\<forall>j. \<not> crlf_at bs j)"
proof
  assume "first_crlf bs = None"
  show "\<forall>j. \<not> crlf_at bs j"
  proof (rule ccontr)
    assume "\<not> (\<forall>j. \<not> crlf_at bs j)"
    then have "crlf_at bs (LEAST j. crlf_at bs j)" by (metis LeastI)
    then have "first_crlf bs = Some (LEAST j. crlf_at bs j)" by (auto simp: first_crlf_Some dest: not_less_Least)
    with \<open>first_crlf bs = None\<close> show False by simp
  qed
next
  assume "\<forall>j. \<not> crlf_at bs j"
  then show "first_crlf bs = None" by (cases "first_crlf bs") (auto simp: first_crlf_Some)
qed

lemma unread_nth: "i < length (buf r) - rpos r \<Longrightarrow> unread r ! i = buf r ! (rpos r + i)"
  by (simp add: unread_def nth_append)

lemma index_from_Some: "index_from c n bs = Some i \<Longrightarrow> bs ! i = c \<and> (\<forall>j. n \<le> j \<and> j < i \<longrightarrow> bs ! j \<noteq> c)"
proof -
  assume a: "index_from c n bs = Some i"
  then obtain k where k: "index_of c (drop n bs) = Some k" "i = n + k" by (auto simp: index_from_def)
  have b: "n \<le> length bs" using index_from_bounds [OF a] by simp
  from index_of_Some [OF k(1)] have "drop n bs ! k = c" and j: "\<forall>j < k. drop n bs ! j \<noteq> c"
    by (auto simp: in_set_conv_nth)
  moreover have "bs ! j \<noteq> c" if "n \<le> j" "j < i" for j
    using j [rule_format, of "j - n"] that k(2) b by simp
  ultimately show ?thesis using k(2) b by simp
qed

lemma index_from_None: "index_from c n bs = None \<Longrightarrow> n \<le> j \<Longrightarrow> j < length bs \<Longrightarrow> bs ! j \<noteq> c"
proof
  assume a: "index_from c n bs = None" "n \<le> j" "j < length bs" "bs ! j = c"
  then have "c \<notin> set (drop n bs)" by (simp add: index_from_def index_of_None)
  moreover have "drop n bs ! (j - n) = c" "j - n < length (drop n bs)" using a by simp_all
  ultimately show False by (metis nth_mem)
qed

lemma crlf_at_cr: "crlf_at (unread r) i \<Longrightarrow> i < length (buf r) - rpos r \<Longrightarrow> buf r ! (rpos r + i) = CHR 0x0D"
  by (simp add: crlf_at_def unread_nth)

text \<open>No line end starts before the scan position, relative to the unread bytes.\<close>

lemma findCRLF_spec:
  assumes "reader_ok r" "rpos r \<le> scanFrom" "\<forall>i < scanFrom - rpos r. \<not> crlf_at (unread r) i"
  shows "case first_crlf (unread r) of
      None \<Rightarrow> findCRLF scanFrom r = Inl ConnectionClosed
    | Some i \<Rightarrow> \<exists>r'. findCRLF scanFrom r = Inr (rpos r' + i, r') \<and> reader_ok r' \<and> unread r' = unread r
        \<and> rpos r' + i + 1 < length (buf r')"
  using assms
proof (induction scanFrom r rule: findCRLF.induct)
  case (1 scanFrom r)
  note pos = reader_okD(1) [OF "1.prems"(1)]
  have more: "case first_crlf (unread r) of
      None \<Rightarrow> (case readMore r of Inl e \<Rightarrow> Inl e | Inr (consumed, r') \<Rightarrow> findCRLF (n - consumed) r') = Inl ConnectionClosed
    | Some i \<Rightarrow> \<exists>r'. (case readMore r of Inl e \<Rightarrow> Inl e | Inr (consumed, r') \<Rightarrow> findCRLF (n - consumed) r') = Inr (rpos r' + i, r')
        \<and> reader_ok r' \<and> unread r' = unread r \<and> rpos r' + i + 1 < length (buf r')"
    if IH: "\<And>consumed r'. readMore r = Inr (consumed, r') \<Longrightarrow> reader_ok r' \<Longrightarrow> rpos r' \<le> n - consumed \<Longrightarrow>
        \<forall>i < n - consumed - rpos r'. \<not> crlf_at (unread r') i \<Longrightarrow>
        case first_crlf (unread r') of None \<Rightarrow> findCRLF (n - consumed) r' = Inl ConnectionClosed
        | Some i \<Rightarrow> \<exists>r''. findCRLF (n - consumed) r' = Inr (rpos r'' + i, r'') \<and> reader_ok r'' \<and> unread r'' = unread r'
            \<and> rpos r'' + i + 1 < length (buf r'')"
      and no: "\<forall>i < n - rpos r. \<not> crlf_at (unread r) i"
      and short: "\<forall>i. crlf_at (unread r) i \<longrightarrow> length (buf r) - rpos r \<le> i + 1" for n
  proof (cases "incoming r")
    case Nil
    have "\<not> crlf_at (unread r) i" for i
      using short Nil by (auto simp: unread_def crlf_at_def)
    then have "first_crlf (unread r) = None" by (simp add: first_crlf_None)
    then show ?thesis using readMore_spec(1) [OF "1.prems"(1) Nil] by simp
  next
    case (Cons c cs)
    from readMore_spec(2) [OF "1.prems"(1) Cons] obtain r' where r': "readMore r = Inr (rpos r, r')" "reader_ok r'"
      "rpos r' = 0" "buf r' = drop (rpos r) (buf r) @ c" "incoming r' = cs" by blast
    then have same: "unread r' = unread r" by (simp add: unread_def Cons)
    have "case first_crlf (unread r') of None \<Rightarrow> findCRLF (n - rpos r) r' = Inl ConnectionClosed
        | Some i \<Rightarrow> \<exists>r''. findCRLF (n - rpos r) r' = Inr (rpos r'' + i, r'') \<and> reader_ok r'' \<and> unread r'' = unread r'
            \<and> rpos r'' + i + 1 < length (buf r'')"
      using no r' by (intro IH [OF r'(1,2)]) (simp_all add: same)
    then show ?thesis using r'(1) by (simp add: same cong: option.case_cong)
  qed
  show ?case
  proof (cases "index_from (CHR 0x0D) scanFrom (buf r)")
    case None
    have cr: "buf r ! j \<noteq> CHR 0x0D" if "scanFrom \<le> j" "j < length (buf r)" for j
      using index_from_None [OF None that] .
    have short: "length (buf r) - rpos r \<le> i" if "crlf_at (unread r) i" for i
    proof (rule ccontr)
      assume less: "\<not> length (buf r) - rpos r \<le> i"
      from "1.prems"(3) that have "scanFrom - rpos r \<le> i" by (meson not_le)
      then have "scanFrom \<le> rpos r + i" using "1.prems"(2) by simp
      moreover have "rpos r + i < length (buf r)" using less by linarith
      ultimately show False using cr [of "rpos r + i"] crlf_at_cr [OF that] less by simp
    qed
    have eq: "findCRLF scanFrom r = (case readMore r of Inl e \<Rightarrow> Inl e
        | Inr (consumed, r') \<Rightarrow> findCRLF (length (buf r) - 1 - consumed) r')"
      by (subst findCRLF.simps) (simp add: None)
    have a: "\<forall>i < length (buf r) - 1 - rpos r. \<not> crlf_at (unread r) i" using short by fastforce
    have b: "\<forall>i. crlf_at (unread r) i \<longrightarrow> length (buf r) - rpos r \<le> i + 1" using short by fastforce
    show ?thesis unfolding eq by (rule more [OF "1.IH"(1) [OF None _ refl] a b])
  next
    case (Some cr)
    note b = index_from_bounds [OF Some]
    from index_from_Some [OF Some] have at: "buf r ! cr = CHR 0x0D"
      and before: "\<And>j. scanFrom \<le> j \<Longrightarrow> j < cr \<Longrightarrow> buf r ! j \<noteq> CHR 0x0D" by auto
    have le: "rpos r \<le> cr" using b "1.prems"(2) by simp
    have no: "\<not> crlf_at (unread r) i" if "i < cr - rpos r" for i
    proof
      assume c: "crlf_at (unread r) i"
      with "1.prems"(3) have "scanFrom - rpos r \<le> i" by (meson not_le)
      then have "scanFrom \<le> rpos r + i" "rpos r + i < cr" "i < length (buf r) - rpos r"
        using that b "1.prems"(2) by linarith+
      then show False using before [of "rpos r + i"] crlf_at_cr [OF c] by simp
    qed
    show ?thesis
    proof (cases "cr + 1 < length (buf r)")
      case True
      then have at2: "unread r ! (cr - rpos r) = CHR 0x0D" "unread r ! (cr - rpos r + 1) = buf r ! (cr + 1)"
        "cr - rpos r + 1 < length (unread r)"
        using at le by (simp_all add: unread_nth unread_def [of r, THEN arg_cong [where f = length]])
      show ?thesis
      proof (cases "buf r ! (cr + 1) = CHR 0x0A")
        case lf: True
        then have "first_crlf (unread r) = Some (cr - rpos r)" using at2 no by (simp add: first_crlf_Some crlf_at_def)
        moreover have "findCRLF scanFrom r = Inr (cr, r)" by (subst findCRLF.simps) (use Some True lf in simp)
        ultimately show ?thesis using "1.prems"(1) le True by simp
      next
        case lf: False
        have eq: "findCRLF scanFrom r = findCRLF (cr + 1) r" by (subst findCRLF.simps) (use Some True lf in simp)
        have no': "\<forall>i < cr + 1 - rpos r. \<not> crlf_at (unread r) i"
        proof (intro allI impI)
          fix i assume "i < cr + 1 - rpos r"
          then consider "i < cr - rpos r" | "i = cr - rpos r" by linarith
          then show "\<not> crlf_at (unread r) i" using no at2 lf by cases (auto simp: crlf_at_def)
        qed
        show ?thesis unfolding eq using le by (intro "1.IH"(2) [OF Some True lf "1.prems"(1) _ no']) simp
      qed
    next
      case False
      have eq: "findCRLF scanFrom r = (case readMore r of Inl e \<Rightarrow> Inl e
          | Inr (consumed, r') \<Rightarrow> findCRLF (cr - consumed) r')"
        by (subst findCRLF.simps) (use Some False in simp)
      have a: "\<forall>i < cr - rpos r. \<not> crlf_at (unread r) i" using no by blast
      have b: "\<forall>i. crlf_at (unread r) i \<longrightarrow> length (buf r) - rpos r \<le> i + 1"
      proof (intro allI impI)
        fix i assume "crlf_at (unread r) i"
        then have "cr - rpos r \<le> i" using no by (meson not_le)
        then show "length (buf r) - rpos r \<le> i + 1" using False by linarith
      qed
      show ?thesis unfolding eq by (rule more [OF "1.IH"(3) [OF Some False _ refl] a b])
    qed
  qed
qed

lemma ensureBufferedLength_spec:
  assumes "reader_ok r" "rpos r \<le> target"
  shows "if length (unread r) < target - rpos r then ensureBufferedLength target r = Inl ConnectionClosed
    else \<exists>r'. ensureBufferedLength target r = Inr r' \<and> reader_ok r' \<and> unread r' = unread r
      \<and> rpos r' + (target - rpos r) \<le> length (buf r')"
  using assms
proof (induction target r rule: ensureBufferedLength.induct)
  case (1 target r)
  have len: "length (unread r) = (length (buf r) - rpos r) + length (concat (incoming r))" by (simp add: unread_def)
  show ?case
  proof (cases "length (buf r) < target")
    case True
    show ?thesis
    proof (cases "incoming r")
      case Nil
      have "ensureBufferedLength target r = Inl ConnectionClosed"
        by (subst ensureBufferedLength.simps) (use True readMore_spec(1) [OF "1.prems"(1) Nil] in simp)
      moreover have "length (unread r) < target - rpos r" using True len Nil reader_okD(1) [OF "1.prems"(1)] by simp
      ultimately show ?thesis by simp
    next
      case (Cons c cs)
      from readMore_spec(2) [OF "1.prems"(1) Cons] obtain r' where r': "readMore r = Inr (rpos r, r')" "reader_ok r'"
        "rpos r' = 0" "buf r' = drop (rpos r) (buf r) @ c" "incoming r' = cs" by blast
      then have same: "unread r' = unread r" by (simp add: unread_def Cons)
      have eq: "ensureBufferedLength target r = ensureBufferedLength (target - rpos r) r'"
        by (subst ensureBufferedLength.simps) (use True r'(1) in simp)
      have n: "rpos r' \<le> target - rpos r" "target - rpos r - rpos r' = target - rpos r" using r'(3) by simp_all
      show ?thesis using "1.IH" [OF True r'(1) refl r'(2) n(1)] unfolding eq same n(2) .
    qed
  next
    case False
    then have "ensureBufferedLength target r = Inr r" by (subst ensureBufferedLength.simps) simp
    moreover have "\<not> length (unread r) < target - rpos r" using False len by simp
    ultimately show ?thesis using "1.prems" False by simp
  qed
qed

text \<open>The parser of byte strings, with the same treatment of errors.\<close>

definition spec_bulk :: "char list \<Rightarrow> char list \<Rightarrow> (parsed_item \<times> char list) parsed" where
  "spec_bulk line bs =
     bind_parsed (parseRespIntegerBytes line) (\<lambda>len.
       if len = - 1 then ok (Item Null, bs)
       else if len < 0 then fail InvalidResp
       else if length bs < nat len + 2 then fail ConnectionClosed
       else if take 2 (drop (nat len) bs) = crlf then ok (Item (Bulk (take (nat len) bs)), drop (nat len + 2) bs)
       else fail InvalidResp)"

definition spec_line :: "(char list \<Rightarrow> (parsed_item \<times> char list) parsed) \<Rightarrow> bool \<Rightarrow> char \<Rightarrow> char list \<Rightarrow> char list
    \<Rightarrow> (parsed_item \<times> char list) parsed" where
  "spec_line p deferErrors type line rest =
     (if type = CHR ''+'' then ok (Item (Simple line), rest)
      else if type = CHR ''-'' then line_error deferErrors line rest
      else if type = CHR '':'' then bind_parsed (parseRespIntegerBytes line) (\<lambda>v. ok (Item (Integer v), rest))
      else if type = CHR ''$'' then spec_bulk line rest
      else if type = CHR ''*'' then parse_array p deferErrors line rest
      else fail InvalidResp)"

primrec spec_one :: "nat \<Rightarrow> bool \<Rightarrow> char list \<Rightarrow> (parsed_item \<times> char list) parsed" where
  "spec_one 0 deferErrors bs = fail OutOfFuel"
| "spec_one (Suc fuel) deferErrors bs =
     (case bs of
        [] \<Rightarrow> fail ConnectionClosed
      | type # rest \<Rightarrow>
          (case first_crlf rest of
             None \<Rightarrow> fail ConnectionClosed
           | Some i \<Rightarrow> spec_line (spec_one fuel True) deferErrors type (take i rest) (drop (i + 2) rest)))"

text \<open>Results agree: the same error, or the same value with the same bytes left unread.\<close>

definition agrees :: "('a \<times> resp_reader) parsed \<Rightarrow> ('a \<times> char list) parsed \<Rightarrow> bool" where
  "agrees p q \<longleftrightarrow> (case p of Inl e \<Rightarrow> q = Inl e | Inr (x, r) \<Rightarrow> reader_ok r \<and> q = Inr (x, unread r))"

lemma agrees_Inl [simp]: "agrees (Inl e) q \<longleftrightarrow> q = Inl e"
  by (simp add: agrees_def)

lemma agrees_Inr [simp]: "agrees (Inr (x, r)) q \<longleftrightarrow> reader_ok r \<and> q = Inr (x, unread r)"
  by (simp add: agrees_def)

lemma agrees_cases:
  assumes "agrees p q"
  obtains (bad) e where "p = Inl e" "q = Inl e" | (good) x r where "p = Inr (x, r)" "q = Inr (x, unread r)" "reader_ok r"
  using assms by (cases p) auto

lemma agrees_bind:
  assumes "agrees p q" "\<And>x r. reader_ok r \<Longrightarrow> agrees (f (x, r)) (g (x, unread r))"
  shows "agrees (bind_parsed p f) (bind_parsed q g)"
  using assms(1) by (cases rule: agrees_cases) (use assms(2) in auto)

lemma take_unread: "n \<le> length (buf r) - rpos r \<Longrightarrow> take n (unread r) = take n (drop (rpos r) (buf r))"
  by (simp add: unread_def)

lemma unread_advance:
  assumes "reader_ok r" "rpos r + n \<le> length (buf r)"
  shows "reader_ok (r\<lparr>rpos := rpos r + n\<rparr>)" "unread (r\<lparr>rpos := rpos r + n\<rparr>) = drop n (unread r)"
  using assms reader_okD(2) [OF assms(1)] by (simp_all add: reader_ok_def unread_def buf_def add.commute)

lemma parse_bulk_agrees:
  assumes "reader_ok r"
  shows "agrees (parse_bulk line r) (spec_bulk line (unread r))"
proof (cases "parseRespIntegerBytes line")
  case (Inr len)
  show ?thesis
  proof (cases "len < 0")
    case False
    have "target - rpos r = nat len + 2" if "target = rpos r + nat len + 2" for target using that by simp
    note ens = ensureBufferedLength_spec [OF assms, of "rpos r + nat len + 2"]
    show ?thesis
    proof (cases "length (unread r) < nat len + 2")
      case True
      with ens False show ?thesis by (simp add: parse_bulk_def spec_bulk_def Inr)
    next
      case long: False
      with ens obtain r' where r': "ensureBufferedLength (rpos r + nat len + 2) r = Inr r'" "reader_ok r'"
        "unread r' = unread r" "rpos r' + (nat len + 2) \<le> length (buf r')" by auto
      have t: "take (nat len) (drop (rpos r') (buf r')) = take (nat len) (unread r)"
        using take_unread [of "nat len" r'] r' by simp
      have "take 2 (drop (nat len) (unread r)) = take 2 (drop (rpos r' + nat len) (buf r'))"
        using take_unread [of "nat len + 2" r'] r'(3,4)
        by (metis add.commute add_le_imp_le_diff drop_drop take_drop)
      also have "\<dots> = [buf r' ! (rpos r' + nat len), buf r' ! (rpos r' + nat len + 1)]"
        using r'(4) by (simp add: take_Suc_conv_app_nth numeral_2_eq_2)
      finally have c: "requireCrlfAt (buf r') (rpos r' + nat len) =
          (if take 2 (drop (nat len) (unread r)) = crlf then Inr () else Inl InvalidResp)"
        using r'(4) by (simp add: requireCrlfAt_def crlf_def)
      have adv: "reader_ok (r'\<lparr>rpos := rpos r' + nat len + 2\<rparr>)"
        "unread (r'\<lparr>rpos := rpos r' + nat len + 2\<rparr>) = drop (nat len + 2) (unread r)"
        using unread_advance [OF r'(2), of "nat len + 2"] r'(3,4) by (simp_all add: add.assoc)
      show ?thesis
        unfolding parse_bulk_def spec_bulk_def Inr bind_parsed_simps r'(1) t c Let_def using False long adv by simp
    qed
  qed (use assms in \<open>simp add: parse_bulk_def spec_bulk_def Inr\<close>)
qed (simp add: parse_bulk_def spec_bulk_def)

lemma parse_items_agrees:
  assumes "\<And>r. reader_ok r \<Longrightarrow> agrees (p r) (q (unread r))" "reader_ok r"
  shows "parse_items q n arr fe (unread r) =
      (case parse_items p n arr fe r of Inl e \<Rightarrow> Inl e | Inr (a, f, r') \<Rightarrow> Inr (a, f, unread r'))
    \<and> (case parse_items p n arr fe r of Inl e \<Rightarrow> True | Inr (a, f, r') \<Rightarrow> reader_ok r')"
  using assms(2)
proof (induction n arbitrary: arr fe r)
  case (Suc n)
  from assms(1) [OF Suc.prems] show ?case
  proof (cases rule: agrees_cases)
    case (good x r')
    then show ?thesis using Suc.IH [OF good(3)] by (cases x) simp_all
  qed simp
qed simp

lemma line_error_agrees: "reader_ok r \<Longrightarrow> agrees (line_error d e r) (line_error d e (unread r))"
  by (simp add: line_error_def)

lemma parse_array_agrees:
  assumes "\<And>r. reader_ok r \<Longrightarrow> agrees (p r) (q (unread r))" "reader_ok r"
  shows "agrees (parse_array p d line r) (parse_array q d line (unread r))"
proof (cases "parseRespIntegerBytes line")
  case (Inr count)
  show ?thesis
    using parse_items_agrees [where p = p and q = q, OF assms(1) assms(2), of "nat count" "[]" None] assms(2)
    by (cases "parse_items p (nat count) [] None r")
       (auto simp: parse_array_def Inr line_error_agrees split: option.split)
qed (simp add: parse_array_def)

lemma parse_one_agrees: "reader_ok r \<Longrightarrow> agrees (parse_one fuel d r) (spec_one fuel d (unread r))"
proof (induction fuel arbitrary: d r)
  case (Suc fuel)
  note ens = ensureBufferedLength_spec [OF Suc.prems, of "rpos r + 1"]
  show ?case
  proof (cases "unread r")
    case Nil
    with ens show ?thesis by simp
  next
    case (Cons t rest)
    with ens obtain r1 where r1: "ensureBufferedLength (rpos r + 1) r = Inr r1" "reader_ok r1" "unread r1 = t # rest"
      "rpos r1 + 1 \<le> length (buf r1)" by auto
    have t: "buf r1 ! rpos r1 = t" using unread_nth [of 0 r1] r1(3,4) by simp
    define r2 where "r2 = r1\<lparr>rpos := rpos r1 + 1\<rparr>"
    have r2: "reader_ok r2" "unread r2 = rest"
      using unread_advance [OF r1(2,4)] r1(3) by (simp_all add: r2_def)
    note find = findCRLF_spec [OF r2(1) order_refl, unfolded r2(2)]
    note steps = parse_one.simps(2) r1(1) bind_parsed_simps Let_def t r2_def [symmetric]
    show ?thesis
    proof (cases "first_crlf rest")
      case None
      with find have "findCRLF (rpos r2) r2 = Inl ConnectionClosed" by simp
      then show ?thesis unfolding steps by (simp add: Cons None)
    next
      case (Some i)
      with find obtain r3 where r3: "findCRLF (rpos r2) r2 = Inr (rpos r3 + i, r3)" "reader_ok r3" "unread r3 = rest"
        "rpos r3 + i + 1 < length (buf r3)" by auto
      define r4 where "r4 = r3\<lparr>rpos := rpos r3 + i + 2\<rparr>"
      have r4: "reader_ok r4" "unread r4 = drop (i + 2) rest"
        using unread_advance [OF r3(2), of "i + 2"] r3(3,4) by (simp_all add: r4_def add.assoc)
      have line: "take i (drop (rpos r3) (buf r3)) = take i rest" using take_unread [of i r3] r3(3,4) by simp
      have spec: "spec_one (Suc fuel) d (unread r) = spec_line (spec_one fuel True) d t (take i rest) (unread r4)"
        by (simp add: Cons Some r4)
      show ?thesis
        unfolding steps r3(1) prod.case add_diff_cancel_left' line r4_def [symmetric] spec spec_line_def
        using r4(1) parse_bulk_agrees [OF r4(1)] parse_array_agrees [where p = "parse_one fuel True" and q = "spec_one fuel True", OF Suc.IH r4(1)] line_error_agrees [OF r4(1)]
        by (cases "parseRespIntegerBytes (take i rest)") simp_all
    qed
  qed
qed simp

section \<open>Enough fuel\<close>

lemma parse_items_shrinks:
  assumes "\<And>bs x rest. p bs = Inr (x, rest) \<Longrightarrow> length rest < length bs"
  shows "parse_items p n arr fe bs = Inr (a, f, rest) \<Longrightarrow> length rest \<le> length bs"
proof (induction n arbitrary: arr fe bs)
  case (Suc n)
  then obtain x bs' where p: "p bs = Inr (x, bs')" by (auto simp: bind_parsed_eq_Inr)
  with Suc have "length rest \<le> length bs'" by (cases x) auto
  with assms [OF p] show ?case by simp
qed simp

lemma spec_line_shrinks:
  assumes "\<And>bs x rest. p bs = Inr (x, rest) \<Longrightarrow> length rest < length bs" "spec_line p d t line bs = Inr (x, rest)"
  shows "length rest \<le> length bs"
  using assms(2) parse_items_shrinks [where p = p, OF assms(1)]
  by (auto simp: spec_line_def spec_bulk_def parse_array_def line_error_def bind_parsed_eq_Inr
      split: if_split_asm option.split_asm)

lemma spec_one_shrinks: "spec_one fuel d bs = Inr (x, rest) \<Longrightarrow> length rest < length bs"
proof (induction fuel arbitrary: d bs x rest)
  case (Suc fuel)
  then obtain t r i where bs: "bs = t # r"
    "spec_line (spec_one fuel True) d t (take i r) (drop (i + 2) r) = Inr (x, rest)"
    by (auto split: list.split_asm option.split_asm)
  have "length rest \<le> length (drop (i + 2) r)"
    by (rule spec_line_shrinks [where p = "spec_one fuel True", OF Suc.IH bs(2)])
  then show ?case by (simp add: bs)
qed simp

lemma parse_items_cong:
  assumes "\<And>bs x rest. p bs = Inr (x, rest) \<Longrightarrow> length rest < length bs"
    and "\<And>bs. length bs < n \<Longrightarrow> p bs = q bs"
  shows "length bs < n \<Longrightarrow> parse_items p m arr fe bs = parse_items q m arr fe bs"
proof (induction m arbitrary: arr fe bs)
  case (Suc m)
  show ?case
  proof (cases "p bs")
    case (Inl e)
    then show ?thesis using assms(2) [OF Suc.prems] by simp
  next
    case (Inr y)
    obtain x rest where y: "y = (x, rest)" by (cases y)
    then have "length rest < n" using assms(1) Inr Suc.prems by fastforce
    moreover have "q bs = Inr y" using assms(2) [OF Suc.prems] Inr by simp
    ultimately show ?thesis using Suc.IH [of rest] Inr y by (cases x) simp_all
  qed
qed simp

lemma spec_one_more_fuel: "length bs < fuel \<Longrightarrow> fuel \<le> fuel' \<Longrightarrow> spec_one fuel' d bs = spec_one fuel d bs"
proof (induction fuel arbitrary: fuel' d bs)
  case (Suc fuel)
  then obtain fuel'' where f: "fuel' = Suc fuel''" "fuel \<le> fuel''" by (cases fuel') auto
  have items: "parse_items (spec_one fuel'' True) m arr fe rest = parse_items (spec_one fuel True) m arr fe rest"
    if "length rest < fuel" for m arr fe rest
    by (rule parse_items_cong [where p = "spec_one fuel'' True" and q = "spec_one fuel True",
          OF spec_one_shrinks Suc.IH [OF _ f(2)] that])
  have "parse_array (spec_one fuel'' True) d line rest = parse_array (spec_one fuel True) d line rest"
    if "length rest < fuel" for line rest by (simp only: parse_array_def items [OF that])
  then have "spec_line (spec_one fuel'' True) d t line rest = spec_line (spec_one fuel True) d t line rest"
    if "length rest < fuel" for t line rest using that by (simp add: spec_line_def)
  with Suc.prems show ?case by (auto simp: f(1) split: list.split option.split)
qed simp

lemma parse_items_no_fuel:
  assumes "\<And>bs x rest. p bs = Inr (x, rest) \<Longrightarrow> length rest < length bs"
    and "\<And>bs. length bs < n \<Longrightarrow> p bs \<noteq> Inl OutOfFuel"
  shows "length bs < n \<Longrightarrow> parse_items p m arr fe bs \<noteq> Inl OutOfFuel"
proof (induction m arbitrary: arr fe bs)
  case (Suc m)
  show ?case
  proof (cases "p bs")
    case (Inl e)
    then show ?thesis using assms(2) [OF Suc.prems] by simp
  next
    case (Inr y)
    obtain x rest where y: "y = (x, rest)" by (cases y)
    then have "length rest < n" using assms(1) Inr Suc.prems by fastforce
    with Suc.IH show ?thesis using Inr y by (cases x) simp_all
  qed
qed simp

lemma integer_no_fuel: "parseRespIntegerBytes line \<noteq> Inl OutOfFuel"
  by (simp add: parseRespIntegerBytes_def Let_def split: option.split)

lemma spec_one_no_fuel: "length bs < fuel \<Longrightarrow> spec_one fuel d bs \<noteq> Inl OutOfFuel"
proof (induction fuel arbitrary: d bs)
  case (Suc fuel)
  have "parse_array (spec_one fuel True) d line rest \<noteq> Inl OutOfFuel" if "length rest < fuel" for line rest
    using parse_items_no_fuel [where p = "spec_one fuel True", OF spec_one_shrinks Suc.IH that]
    by (auto simp: parse_array_def bind_parsed_eq_Inl integer_no_fuel line_error_def split: if_split_asm option.split_asm)
  then have "spec_line (spec_one fuel True) d t line rest \<noteq> Inl OutOfFuel" if "length rest < fuel" for t line rest
    using that by (auto simp: spec_line_def spec_bulk_def bind_parsed_eq_Inl integer_no_fuel line_error_def split: if_split_asm)
  with Suc.prems show ?case by (auto split: list.split option.split)
qed simp

text \<open>The reply at the front of a byte string.\<close>

definition spec_reply :: "char list \<Rightarrow> (resp \<times> char list) parsed" where
  "spec_reply bs =
     bind_parsed (spec_one (Suc (length bs)) False bs) (\<lambda>(item, rest).
       case item of ErrorItem e \<Rightarrow> fail (RedisReplyError e) | Item x \<Rightarrow> ok (x, rest))"

lemma parseOne_agrees: "reader_ok r \<Longrightarrow> agrees (parseOne r) (spec_reply (unread r))"
  unfolding parseOne_def spec_reply_def
  by (intro agrees_bind parse_one_agrees) (auto split: parsed_item.split)

lemma spec_reply_total: "spec_reply bs \<noteq> Inl OutOfFuel"
  using spec_one_no_fuel [of bs "Suc (length bs)" False]
  by (auto simp: spec_reply_def bind_parsed_eq_Inl split: parsed_item.split_asm)

section \<open>Printing and parsing\<close>

lemma integer_digits_fold:
  "list_all is_digit cs \<Longrightarrow> int (foldl (\<lambda>acc c. acc * 10 + digit_val c) v cs) \<le> MAX_SAFE_INTEGER \<Longrightarrow>
   integer_digits cs (int v) = Some (int (foldl (\<lambda>acc c. acc * 10 + digit_val c) v cs))"
proof (induction cs arbitrary: v)
  case (Cons c cs)
  have mono: "n \<le> foldl (\<lambda>acc c. acc * 10 + digit_val c) n cs" for n
  proof (induction cs arbitrary: n)
    case (Cons d ds)
    from Cons [of "n * 10 + digit_val d"] show ?case by simp
  qed simp
  have step: "int v * 10 + int (digit_val c) = int (v * 10 + digit_val c)" by simp
  have "int (v * 10 + digit_val c) \<le> MAX_SAFE_INTEGER"
    using mono [of "v * 10 + digit_val c"] Cons.prems(2) by simp
  then show ?case using Cons.prems Cons.IH [of "v * 10 + digit_val c"] by (simp add: Let_def step del: of_nat_add of_nat_mult)
qed simp

lemma integer_digits_show: "int n \<le> MAX_SAFE_INTEGER \<Longrightarrow> integer_digits (show_nat n) 0 = Some (int n)"
  using integer_digits_fold [of "show_nat n" 0] show_nat_digits [of n] digits_val_show_nat [of n]
  by (simp add: list_all_iff digits_val_def)

lemma parse_show_int:
  assumes "isSafeInt v"
  shows "parseRespIntegerBytes (show_int v) = Inr v"
proof -
  have lead: "is_digit (hd (show_nat n))" for n using show_nat_digits [of n] by (cases "show_nat n") auto
  have minus: "hd (show_nat n) \<noteq> CHR ''-''" for n
    using lead [of n] by (auto simp: is_digit_iff)
  show ?thesis
  proof (cases "v < 0")
    case True
    then show ?thesis
      using assms lead [of "nat (- v)"] show_nat_leading [of "nat (- v)"] integer_digits_show [of "nat (- v)"]
      by (simp add: parseRespIntegerBytes_def show_int_def isSafeInt_def Let_def)
  next
    case False
    have "\<not> (hd (show_nat (nat v)) = CHR ''0'' \<and> length (show_nat (nat v)) \<noteq> 1)"
      using show_nat_leading [of "nat v"] show_nat_zero by (cases "v = 0") (use False in auto)
    then show ?thesis
      using False assms lead [of "nat v"] minus [of "nat v"] integer_digits_show [of "nat v"]
      by (simp add: parseRespIntegerBytes_def show_int_def isSafeInt_def Let_def)
  qed
qed

lemma show_nat_no_cr: "CHR 0x0D \<notin> set (show_nat n)"
proof
  assume "CHR 0x0D \<in> set (show_nat n)"
  with show_nat_digits have "is_digit (CHR 0x0D)" by blast
  moreover have "\<not> is_digit (CHR 0x0D)" by code_simp
  ultimately show False by blast
qed

lemma show_int_no_cr: "CHR 0x0D \<notin> set (show_int v)"
  using show_nat_no_cr by (simp add: show_int_def)

lemma first_crlf_line: "CHR 0x0D \<notin> set line \<Longrightarrow> first_crlf (line @ crlf @ rest) = Some (length line)"
proof (induction line)
  case (Cons a line)
  then show ?case by (cases "line @ crlf @ rest") (auto simp: crlf_def)
qed (simp add: crlf_def)

text \<open>The wire form of a reply, and the replies the protocol can carry.\<close>

fun print_resp :: "resp \<Rightarrow> char list" where
  "print_resp (Simple line) = ''+'' @ line @ crlf"
| "print_resp (Integer v) = '':'' @ show_int v @ crlf"
| "print_resp (Bulk bytes) = bulk_frame bytes"
| "print_resp Null = ''$-1'' @ crlf"
| "print_resp (Arr xs) = ''*'' @ show_nat (length xs) @ crlf @ concat (map print_resp xs)"

fun resp_ok :: "resp \<Rightarrow> bool" where
  "resp_ok (Simple line) \<longleftrightarrow> CHR 0x0D \<notin> set line"
| "resp_ok (Integer v) \<longleftrightarrow> isSafeInt v"
| "resp_ok (Bulk bytes) \<longleftrightarrow> int (length bytes) \<le> MAX_SAFE_INTEGER"
| "resp_ok Null \<longleftrightarrow> True"
| "resp_ok (Arr xs) \<longleftrightarrow> int (length xs) \<le> MAX_SAFE_INTEGER \<and> list_all resp_ok xs"

lemma spec_one_line:
  "CHR 0x0D \<notin> set line \<Longrightarrow>
   spec_one (Suc fuel) d (t # line @ crlf @ rest) = spec_line (spec_one fuel True) d t line rest"
  using first_crlf_line [of line rest] by (simp add: crlf_def)

lemma parse_show_nat: "int n \<le> MAX_SAFE_INTEGER \<Longrightarrow> parseRespIntegerBytes (show_nat n) = Inr (int n)"
  using parse_show_int [of "int n"] by (simp add: show_int_def isSafeInt_def)

lemma print_nonempty: "print_resp x \<noteq> []"
  by (cases x) (simp_all add: bulk_frame_def)

lemma parse_items_print:
  assumes "\<And>x rest. x \<in> set xs \<Longrightarrow> p (print_resp x @ rest) = Inr (Item x, rest)"
  shows "parse_items p (length xs) arr None (concat (map print_resp xs) @ rest) = Inr (arr @ xs, None, rest)"
  using assms
proof (induction xs arbitrary: arr)
  case (Cons x xs)
  then show ?case using Cons.IH [of "arr @ [x]"] by simp
qed simp

lemma spec_one_print:
  "resp_ok x \<Longrightarrow> length (print_resp x) < fuel \<Longrightarrow> spec_one fuel d (print_resp x @ rest) = Inr (Item x, rest)"
proof (induction x arbitrary: fuel d rest)
  case (Simple line)
  then show ?case by (cases fuel) (simp_all add: spec_one_line spec_line_def del: spec_one.simps)
next
  case (Integer v)
  then show ?case
    by (cases fuel) (simp_all add: spec_one_line spec_line_def show_int_no_cr parse_show_int del: spec_one.simps)
next
  case (Bulk bytes)
  obtain f where f: "fuel = Suc f" using Bulk.prems by (cases fuel) auto
  have "spec_one fuel d (print_resp (Bulk bytes) @ rest) =
      spec_bulk (show_nat (length bytes)) (bytes @ crlf @ rest)"
    by (simp add: f bulk_frame_def spec_one_line spec_line_def show_nat_no_cr del: spec_one.simps)
  also have "\<dots> = Inr (Item (Bulk bytes), rest)"
    using Bulk.prems(1) by (simp add: spec_bulk_def parse_show_nat crlf_def)
  finally show ?case .
next
  case Null
  have "parseRespIntegerBytes ''-1'' = Inr (- 1)" by code_simp
  with Null show ?case
    using spec_one_line [of "''-1''"] by (cases fuel) (simp_all add: spec_line_def spec_bulk_def del: spec_one.simps)
next
  case (Arr xs)
  obtain f where f: "fuel = Suc f" using Arr.prems by (cases fuel) auto
  have "spec_one f True (print_resp x @ rest) = Inr (Item x, rest)" if "x \<in> set xs" for x rest
  proof (rule Arr.IH [OF that])
    show "resp_ok x" using Arr.prems(1) that by (simp add: list_all_iff)
    have "length (print_resp x) \<le> length (concat (map print_resp xs))"
      using that by (simp add: length_concat member_le_sum_list)
    then show "length (print_resp x) < f" using Arr.prems(2) by (simp add: f)
  qed
  from parse_items_print [where p = "spec_one f True", OF this]
  have "parse_items (spec_one f True) (length xs) [] None (concat (map print_resp xs) @ rest) = Inr (xs, None, rest)" by simp
  then show ?case
    using Arr.prems(1) by (simp add: f spec_one_line spec_line_def show_nat_no_cr parse_array_def parse_show_nat del: spec_one.simps)
qed

lemma spec_reply_print: "resp_ok x \<Longrightarrow> spec_reply (print_resp x @ rest) = Inr (x, rest)"
  using spec_one_print [of x "Suc (length (print_resp x @ rest))" False rest] by (simp add: spec_reply_def del: spec_one.simps)

section \<open>The encoder against the grammar\<close>

lemma write_at:
  "length xs \<le> length rest \<Longrightarrow>
   writeAscii (pre @ rest) (length pre) xs = ((pre @ xs) @ drop (length xs) rest, length (pre @ xs))"
proof (induction xs arbitrary: pre rest)
  case (Cons c xs)
  then obtain d rest' where rest: "rest = d # rest'" by (cases rest) auto
  have "writeAscii (pre @ rest) (length pre) (c # xs) = writeAscii ((pre @ [c]) @ rest') (length (pre @ [c])) xs"
    by (simp add: rest list_update_append)
  also have "\<dots> = (((pre @ [c]) @ xs) @ drop (length xs) rest', length ((pre @ [c]) @ xs))"
    using Cons.prems by (intro Cons.IH) (simp add: rest)
  finally show ?case by (simp add: rest)
qed simp

lemma encode_room_fits: "encode_room s (length (utf8_encode s)) = (utf8_encode s, length s)"
  by (induction s) (simp_all add: utf8_encode_def)

lemma plan_arg_length: "fst (plan_arg arg) = length (arg_bytes arg)"
  by (auto simp: plan_arg_def arg_bytes_def utf8ByteLength_eq Let_def split: redis_arg.split)

lemma plan_length: "plan_byteLength (planCommand args) = length (command_frame args)"
proof -
  have "foldl (\<lambda>tot arg. let byteLength = fst (plan_arg arg) in tot + (1 + length (show_nat byteLength) + 2 + byteLength + 2)) n args
      = n + length (concat (map (\<lambda>a. bulk_frame (arg_bytes a)) args))" for n
    by (induction args arbitrary: n) (simp_all add: plan_arg_length bulk_frame_def crlf_def Let_def)
  then show ?thesis by (simp add: planCommand_def command_frame_def crlf_def)
qed

text \<open>A buffer filled up to its offset: what is written so far and the room that is left.\<close>

abbreviation filled :: "char list \<Rightarrow> char list \<Rightarrow> char list \<times> nat" where
  "filled pre rest \<equiv> (pre @ rest, length pre)"

lemma write_head:
  assumes "length (a @ n @ crlf) \<le> length rest"
  shows "(case writeAscii (fst (filled pre rest)) (snd (filled pre rest)) a of (out, off) \<Rightarrow>
            case writeAscii out off n of (out, off) \<Rightarrow> writeAscii out off crlf)
       = filled (pre @ a @ n @ crlf) (drop (length (a @ n @ crlf)) rest)"
proof -
  have 1: "writeAscii (fst (filled pre rest)) (snd (filled pre rest)) a = filled (pre @ a) (drop (length a) rest)"
    using assms by (simp add: write_at)
  have 2: "writeAscii ((pre @ a) @ drop (length a) rest) (length (pre @ a)) n
      = filled ((pre @ a) @ n) (drop (length n) (drop (length a) rest))"
    using assms by (intro write_at) simp
  have 3: "writeAscii (((pre @ a) @ n) @ drop (length n) (drop (length a) rest)) (length ((pre @ a) @ n)) crlf
      = filled (((pre @ a) @ n) @ crlf) (drop (length crlf) (drop (length n) (drop (length a) rest)))"
    using assms by (intro write_at) simp
  show ?thesis unfolding 1 prod.case 2 3 by (simp add: drop_drop add.commute add.left_commute)
qed

lemma encode_arg_frame:
  assumes "length (bulk_frame (arg_bytes arg)) \<le> length rest"
  shows "encode_arg arg (snd (plan_arg arg)) (filled pre rest) =
    Ok (filled (pre @ bulk_frame (arg_bytes arg)) (drop (length (bulk_frame (arg_bytes arg))) rest))"
proof -
  define bs where "bs = arg_bytes arg"
  define head where "head = ''$'' @ show_nat (length bs) @ crlf"
  define room where "room = drop (length head) rest"
  have fr: "bulk_frame bs = head @ bs @ crlf" by (simp add: bulk_frame_def head_def)
  have fits: "length head + length bs + length crlf \<le> length rest" using assms by (simp add: bs_def [symmetric] fr)
  have len: "(case (case arg of ABytes b \<Rightarrow> Some b | AText _ \<Rightarrow> snd (plan_arg arg)) of Some b \<Rightarrow> length b
      | None \<Rightarrow> utf8ByteLength (case arg of ABytes b \<Rightarrow> b | AText s \<Rightarrow> s)) = length bs"
    by (auto simp: bs_def arg_bytes_def plan_arg_def utf8ByteLength_eq Let_def split: redis_arg.split)
  have h: "(case writeAscii (fst (filled pre rest)) (snd (filled pre rest)) ''$'' of (out, off) \<Rightarrow>
            case writeAscii out off (show_nat (length bs)) of (out, off) \<Rightarrow> writeAscii out off crlf) = filled (pre @ head) room"
    using fits unfolding head_def room_def by (intro write_head) simp
  have room: "length bs + length crlf \<le> length room" using fits by (simp add: room_def)
  then have w: "writeAscii ((pre @ head) @ room) (length (pre @ head)) bs
      = filled ((pre @ head) @ bs) (drop (length bs) room)" by (intro write_at) simp
  have body: "(case (case arg of ABytes b \<Rightarrow> Some b | AText _ \<Rightarrow> snd (plan_arg arg)) of
        Some b \<Rightarrow> if length (pre @ head) + length b \<le> length ((pre @ head) @ room)
           then Ok (fst (writeAscii ((pre @ head) @ room) (length (pre @ head)) b)) else Throw JsError
      | None \<Rightarrow> (let (b, read) = encode_room (case arg of ABytes b \<Rightarrow> b | AText s \<Rightarrow> s)
            (min (length bs) (length ((pre @ head) @ room) - length (pre @ head))) in
          if read \<noteq> length (case arg of ABytes b \<Rightarrow> b | AText s \<Rightarrow> s) \<or> length b \<noteq> length bs then Throw JsError
          else Ok (fst (writeAscii ((pre @ head) @ room) (length (pre @ head)) b))))
      = Ok (((pre @ head) @ bs) @ drop (length bs) room)"
  proof (cases "case arg of ABytes b \<Rightarrow> Some b | AText _ \<Rightarrow> snd (plan_arg arg)")
    case None
    then obtain s where s: "arg = AText s" by (cases arg) auto
    then have "bs = utf8_encode s" by (simp add: bs_def arg_bytes_def)
    then show ?thesis using None s room w by (simp add: encode_room_fits)
  next
    case (Some b)
    then have "b = bs"
      by (auto simp: bs_def arg_bytes_def plan_arg_def Let_def split: redis_arg.split_asm if_split_asm)
    then show ?thesis using Some room w by simp
  qed
  have tail: "writeAscii (((pre @ head) @ bs) @ drop (length bs) room) (length (pre @ head) + length bs) crlf
      = filled (((pre @ head) @ bs) @ crlf) (drop (length crlf) (drop (length bs) room))"
    using room write_at [of crlf "drop (length bs) room" "(pre @ head) @ bs"] by (simp add: add.assoc)
  have "encode_arg arg (snd (plan_arg arg)) (filled pre rest) =
      Ok (filled (((pre @ head) @ bs) @ crlf) (drop (length crlf) (drop (length bs) room)))"
    unfolding encode_arg_def Let_def len h prod.case body [unfolded Let_def] using tail by (simp del: append_assoc length_append)
  then show ?thesis unfolding bs_def [symmetric] fr room_def by (simp add: drop_drop add.commute add.left_commute)
qed

lemma encode_args_frames:
  "length (concat (map (\<lambda>a. bulk_frame (arg_bytes a)) args)) \<le> length rest \<Longrightarrow>
   encode_args args (map (\<lambda>arg. snd (plan_arg arg)) args) (filled pre rest) =
     Ok (filled (pre @ concat (map (\<lambda>a. bulk_frame (arg_bytes a)) args))
       (drop (length (concat (map (\<lambda>a. bulk_frame (arg_bytes a)) args))) rest))"
proof (induction args arbitrary: pre rest)
  case (Cons arg args)
  then have fits: "length (bulk_frame (arg_bytes arg)) \<le> length rest"
    "length (concat (map (\<lambda>a. bulk_frame (arg_bytes a)) args)) \<le> length (drop (length (bulk_frame (arg_bytes arg))) rest)"
    by auto
  show ?case
    unfolding list.map encode_args.simps list.case list.sel
    by (subst encode_arg_frame [OF fits(1)], subst bind_result_simps(2), subst Cons.IH [OF fits(2)])
       (simp add: drop_drop add.commute)
qed simp

lemma encode_plans_frames:
  "length (concat (map command_frame commands)) \<le> length rest \<Longrightarrow>
   encode_plans (map planCommand commands) (filled pre rest) =
     Ok (filled (pre @ concat (map command_frame commands)) (drop (length (concat (map command_frame commands))) rest))"
proof (induction commands arbitrary: pre rest)
  case (Cons args commands)
  define head where "head = ''*'' @ show_nat (length args) @ crlf"
  define body where "body = concat (map (\<lambda>a. bulk_frame (arg_bytes a)) args)"
  have fr: "command_frame args = head @ body" by (simp add: command_frame_def head_def body_def)
  from Cons.prems have fits: "length head \<le> length rest" "length body \<le> length (drop (length head) rest)"
    "length (concat (map command_frame commands)) \<le> length (drop (length body) (drop (length head) rest))"
    by (auto simp: fr)
  have h: "(case writeAscii (fst (filled pre rest)) (snd (filled pre rest)) ''*'' of (out, off) \<Rightarrow>
            case writeAscii out off (show_nat (length args)) of (out, off) \<Rightarrow> writeAscii out off crlf)
       = filled (pre @ head) (drop (length head) rest)"
    using fits(1) unfolding head_def by (intro write_head)
  have plan: "plan_args (planCommand args) = args" "plan_longUtf8 (planCommand args) = map (\<lambda>arg. snd (plan_arg arg)) args"
    by (simp_all add: planCommand_def)
  show ?case
    unfolding list.map encode_plans.simps plan h Let_def prod.case
    by (subst encode_args_frames [OF fits(2) [unfolded body_def], folded body_def], subst bind_result_simps(2),
        subst Cons.IH [OF fits(3)]) (simp add: fr drop_drop ac_simps)
qed simp

lemma encodeCommandPlans_frames:
  "encodeCommandPlans (map planCommand commands) (length (concat (map command_frame commands)))
     = Ok (concat (map command_frame commands))"
  using encode_plans_frames [of commands "replicate (length (concat (map command_frame commands))) (CHR 0x00)" "[]"]
  by (simp add: encodeCommandPlans_def)

lemma encodeCommands_frames: "encodeCommands commands = Ok (concat (map command_frame commands))"
proof -
  have "foldl (\<lambda>sum plan. sum + plan_byteLength plan) n (map planCommand commands)
      = n + length (concat (map command_frame commands))" for n
    by (induction commands arbitrary: n) (simp_all add: plan_length)
  then show ?thesis by (simp add: encodeCommands_def Let_def encodeCommandPlans_frames)
qed





section \<open>Streams of replies\<close>

primrec spec_replies :: "nat \<Rightarrow> char list \<Rightarrow> (resp list \<times> char list) parsed" where
  "spec_replies 0 bs = ok ([], bs)"
| "spec_replies (Suc n) bs =
     bind_parsed (spec_reply bs) (\<lambda>(x, bs). bind_parsed (spec_replies n bs) (\<lambda>(xs, bs). ok (x # xs, bs)))"

lemma parse_replies_agrees: "reader_ok r \<Longrightarrow> agrees (parse_replies n r) (spec_replies n (unread r))"
proof (induction n arbitrary: r)
  case (Suc n)
  show ?case
    unfolding parse_replies.simps spec_replies.simps
  proof (rule agrees_bind [OF parseOne_agrees [OF Suc.prems]])
    fix x r' assume "reader_ok r'"
    show "agrees (case (x, r') of (x, r) \<Rightarrow> bind_parsed (parse_replies n r) (\<lambda>(xs, r). ok (x # xs, r)))
        (case (x, unread r') of (x, bs) \<Rightarrow> bind_parsed (spec_replies n bs) (\<lambda>(xs, bs). ok (x # xs, bs)))"
      unfolding prod.case by (rule agrees_bind [OF Suc.IH [OF \<open>reader_ok r'\<close>]]) simp
  qed
qed simp

lemma spec_replies_total: "spec_replies n bs \<noteq> Inl OutOfFuel"
  by (induction n arbitrary: bs) (auto simp: bind_parsed_eq_Inl spec_reply_total)

lemma spec_replies_print:
  "list_all resp_ok xs \<Longrightarrow> spec_replies (length xs) (concat (map print_resp xs) @ rest) = Inr (xs, rest)"
  by (induction xs) (simp_all add: spec_reply_print)

lemma parse_replies_print:
  assumes "list_all resp_ok xs" "concat chunks = concat (map print_resp xs) @ rest"
  shows "\<exists>r. parse_replies (length xs) (RespReader chunks) = Inr (xs, r) \<and> unread r = rest"
  using parse_replies_agrees [OF reader_ok_new(1), of "length xs" chunks]
  by (cases rule: agrees_cases) (use spec_replies_print [OF assms(1)] assms(2) in \<open>auto simp: reader_ok_new\<close>)



section \<open>Properties\<close>

text \<open>
  C8: what a pipeline reads does not depend on how the stream is cut into chunks. Two readers
  whose chunks hold the same bytes return the same replies or the same error, and leave the same
  bytes unread; the reader always comes to a result.
\<close>

theorem replies_independent_of_chunks:
  assumes "concat chunks = concat chunks'"
  shows "(case parse_replies n (RespReader chunks) of
       Inl e \<Rightarrow> e \<noteq> OutOfFuel \<and> parse_replies n (RespReader chunks') = Inl e
     | Inr (xs, r) \<Rightarrow> \<exists>r'. parse_replies n (RespReader chunks') = Inr (xs, r') \<and> unread r' = unread r)"
proof -
  have a: "agrees (parse_replies n (RespReader chunks)) (spec_replies n (concat chunks))"
    using parse_replies_agrees [OF reader_ok_new(1), of n chunks] by (simp add: reader_ok_new)
  have b: "agrees (parse_replies n (RespReader chunks')) (spec_replies n (concat chunks))"
    using parse_replies_agrees [OF reader_ok_new(1), of n chunks'] assms by (simp add: reader_ok_new)
  from a show ?thesis
  proof (cases rule: agrees_cases)
    case (bad e)
    with b spec_replies_total [of n "concat chunks"] show ?thesis by (cases rule: agrees_cases) auto
  next
    case (good xs r)
    with b show ?thesis by (cases rule: agrees_cases) auto
  qed
qed

theorem replies_independent_of_chunks_witness:
  "\<exists>r'. parse_replies 1 (RespReader ['':1'', ''2'', crlf]) = Inr ([Integer 12], r')"
proof -
  have "concat [['':'' ! 0], ''12'', crlf] = concat ['':1'', ''2'', crlf]" by simp
  note replies_independent_of_chunks [OF this, of 1]
  moreover have "(case parse_replies 1 (RespReader [['':'' ! 0], ''12'', crlf]) of Inl e \<Rightarrow> False
      | Inr (xs, r) \<Rightarrow> xs = [Integer 12])" by code_simp
  ultimately show ?thesis by (auto split: sum.split_asm)
qed

text \<open>
  C36: every reply the protocol can carry is read back as it was sent, however the stream is cut,
  and the bytes behind it stay unread.
\<close>

theorem replies_round_trip:
  assumes "list_all resp_ok xs" "concat chunks = concat (map print_resp xs) @ rest"
  shows "\<exists>r. parse_replies (length xs) (RespReader chunks) = Inr (xs, r) \<and> unread r = rest"
  using assms by (rule parse_replies_print)

theorem replies_round_trip_witness:
  "\<exists>r. parse_replies 2 (RespReader [''$2'', crlf @ ''ok'', crlf @ '':-'', ''7'' @ crlf @ ''+'']) = Inr ([Bulk ''ok'', Integer (- 7)], r)
     \<and> unread r = ''+''"
proof -
  have ok: "list_all resp_ok [Bulk ''ok'', Integer (- 7)]" by code_simp
  have eq: "concat [''$2'', crlf @ ''ok'', crlf @ '':-'', ''7'' @ crlf @ ''+''] =
      concat (map print_resp [Bulk ''ok'', Integer (- 7)]) @ ''+''" by code_simp
  have len: "length [Bulk ''ok'', Integer (- 7)] = 2" by simp
  from replies_round_trip [OF ok eq, unfolded len] show ?thesis .
qed



end
