(* ===== verification/Redis_Commands.thy ===== *)
theory Redis_Commands
  imports Wdl_Io Redis_Resp
begin

text \<open>
  The typed Redis commands: argument construction and reply decoding of
  \<open>shared/redis-resp.js\<close>, the command surface that clients and sessions share
  (\<open>shared/redis-command-surface.js\<close>), the pipelines and the transaction builder of a session
  (\<open>shared/redis-session.js\<close>), the batch commands of the client
  (\<open>shared/redis-command-client.js\<close>) and the token locks (\<open>shared/redis-lock.js\<close>). Sockets and
  their timeouts are the transport: a command that fails there has the reply \<open>Failed\<close>.
\<close>

section \<open>Decoding replies\<close>

text \<open>
  A bulk or simple string reads as its text and an integer as its decimal form. An array does not
  occur where the commands below expect a string; it is read as nil.
\<close>

fun decodeBulk :: "reply \<Rightarrow> string option" where
  "decodeBulk (Text s) = Some s"
| "decodeBulk (Number n) = Some (show_int n)"
| "decodeBulk _ = None"

fun elements :: "reply \<Rightarrow> reply list" where
  "elements (Many rs) = rs"
| "elements _ = []"

definition decodeStringArray :: "reply \<Rightarrow> string list" where
  "decodeStringArray arr = List.map_filter decodeBulk (elements arr)"

text \<open>
  The object of a hash reply; a missing last value is \<open>undefined\<close>. Assigning a primitive to
  \<open>__proto__\<close> of an object literal leaves no own property.
\<close>

type_synonym hash_object = "(string, string option) omap"

fun hash_pairs :: "reply list \<Rightarrow> hash_object \<Rightarrow> hash_object" where
  "hash_pairs [] out = out"
| "hash_pairs (f # rest) out =
     hash_pairs (tl rest)
       (case decodeBulk f of
          None \<Rightarrow> out
        | Some field \<Rightarrow>
            if field = ''__proto__'' then out
            else omap_set field (case rest of [] \<Rightarrow> None | v # _ \<Rightarrow> decodeBulk v) out)"

definition decodeHashObject :: "reply \<Rightarrow> hash_object" where
  "decodeHashObject arr = hash_pairs (elements arr) []"

text \<open>The string-valued fields of a hash object.\<close>

definition hash_fields :: "hash_object \<Rightarrow> (string \<times> string) list" where
  "hash_fields h = List.map_filter (\<lambda>(k, v). map_option (Pair k) v) h"

definition parseRedisTimeInteger :: "string \<Rightarrow> int result" where
  "parseRedisTimeInteger s =
     (if s = [] \<or> (length s > 1 \<and> hd s = CHR ''0'') then Throw JsError
      else case integer_digits s 0 of None \<Rightarrow> Throw JsError | Some v \<Rightarrow> Ok v)"

definition decodeRedisTimePart :: "reply \<Rightarrow> int result" where
  "decodeRedisTimePart v = (case decodeBulk v of None \<Rightarrow> Throw JsError | Some s \<Rightarrow> parseRedisTimeInteger s)"

definition decodeRedisTimeMs :: "reply \<Rightarrow> int result" where
  "decodeRedisTimeMs r =
     (case r of
        Many [s, us] \<Rightarrow>
          bind_result (decodeRedisTimePart s) (\<lambda>seconds.
          bind_result (decodeRedisTimePart us) (\<lambda>microseconds.
            if microseconds > 999999 then Throw JsError
            else let nowMs = seconds * 1000 + microseconds div 1000 in
              if isSafeInt nowMs then Ok nowMs else Throw JsError))
      | _ \<Rightarrow> Throw JsError)"

section \<open>Building arguments\<close>

definition buildHSetArgs :: "string \<Rightarrow> (string \<times> string) list \<Rightarrow> cmd" where
  "buildHSetArgs key rest = [''HSET'', key] @ concat (map (\<lambda>(f, v). [f, v]) rest)"

record set_options =
  so_ttl :: "jsnum option"
  so_exat :: "jsnum option"
  so_nx :: bool
  so_xx :: bool
  so_ifeq :: "string option"

definition no_options :: set_options where
  "no_options = \<lparr>so_ttl = None, so_exat = None, so_nx = False, so_xx = False, so_ifeq = None\<rparr>"

definition positiveIntegerSetOption :: "jsnum \<Rightarrow> int result" where
  "positiveIntegerSetOption v = (if \<not> isSafeInteger v \<or> toInt v \<le> 0 then Throw JsError else Ok (toInt v))"

definition buildSetArgs :: "string \<Rightarrow> string \<Rightarrow> set_options \<Rightarrow> cmd result" where
  "buildSetArgs key v opts =
     bind_result
       (case so_ttl opts of
          Some ttl \<Rightarrow> bind_result (positiveIntegerSetOption ttl) (\<lambda>n. Ok [''EX'', show_int n])
        | None \<Rightarrow>
            (case so_exat opts of
               Some exat \<Rightarrow> bind_result (positiveIntegerSetOption exat) (\<lambda>n. Ok [''EXAT'', show_int n])
             | None \<Rightarrow> Ok []))
       (\<lambda>expiry. Ok ([''SET'', key, v] @ expiry @ (if so_nx opts then [''NX''] else [])
          @ (if so_xx opts then [''XX''] else [])
          @ (case so_ifeq opts of None \<Rightarrow> [] | Some e \<Rightarrow> [''IFEQ'', e])))"

section \<open>The command surface\<close>

text \<open>\<open>_exec\<close> and \<open>_execPipeline\<close>: one reply per command, in order.\<close>

definition exec :: "cmd \<Rightarrow> reply io" where
  "exec args = ask (Command args)"

definition execPipeline :: "cmd list \<Rightarrow> reply list io" where
  "execPipeline commands =
     (if commands = [] then io_return []
      else Ask (Pipeline commands) (\<lambda>a. case a of
          Many rs \<Rightarrow> if length rs = length commands then io_return rs else io_throw JsError
        | Failed e \<Rightarrow> io_throw e
        | _ \<Rightarrow> io_throw JsError))"

abbreviation io_map :: "('a \<Rightarrow> 'b) \<Rightarrow> 'a io \<Rightarrow> 'b io" where
  "io_map f m \<equiv> io_bind m (\<lambda>x. io_return (f x))"

definition redis_set :: "string \<Rightarrow> string \<Rightarrow> set_options \<Rightarrow> string option io" where
  "redis_set key v opts = io_bind (io_lift (buildSetArgs key v opts)) (\<lambda>args. io_map decodeBulk (exec args))"

definition redis_get :: "string \<Rightarrow> string option io" where
  "redis_get key = io_map decodeBulk (exec [''GET'', key])"

definition redis_del :: "string list \<Rightarrow> reply io" where
  "redis_del keys = exec (''DEL'' # keys)"

definition delIfEq :: "string \<Rightarrow> string \<Rightarrow> reply io" where
  "delIfEq key v = exec [''DELIFEQ'', key, v]"

definition redis_time :: "int io" where
  "redis_time = io_bind (exec [''TIME'']) (\<lambda>r. io_lift (decodeRedisTimeMs r))"

definition publish :: "string \<Rightarrow> string \<Rightarrow> reply io" where
  "publish channel message = exec [''PUBLISH'', channel, message]"

definition redis_eval :: "string \<Rightarrow> string list \<Rightarrow> string list \<Rightarrow> reply io" where
  "redis_eval script keys args = exec ([''EVAL'', script, show_nat (length keys)] @ keys @ args)"

text \<open>A \<open>SCAN\<close> reply is a cursor and an array of keys.\<close>

definition scan :: "string \<Rightarrow> string \<Rightarrow> nat \<Rightarrow> (string \<times> string list) io" where
  "scan cursor match count =
     io_bind (exec [''SCAN'', cursor, ''MATCH'', match, ''COUNT'', show_nat count]) (\<lambda>r.
       case r of
         Many (Text next # Many keys # _) \<Rightarrow> io_return (next, decodeStringArray (Many keys))
       | _ \<Rightarrow> io_throw JsTypeError)"

definition hGet :: "string \<Rightarrow> string \<Rightarrow> string option io" where
  "hGet key field = io_map decodeBulk (exec [''HGET'', key, field])"

definition hGetMany :: "(string \<times> string) list \<Rightarrow> string option list io" where
  "hGetMany pairs = io_map (map decodeBulk) (execPipeline (map (\<lambda>(key, field). [''HGET'', key, field]) pairs))"

definition hMGet :: "string \<Rightarrow> string list \<Rightarrow> string option list io" where
  "hMGet key fs =
     (if fs = [] then io_return []
      else io_map (\<lambda>arr. map decodeBulk (elements arr)) (exec ([''HMGET'', key] @ fs)))"

definition hGetAll :: "string \<Rightarrow> hash_object io" where
  "hGetAll key = io_map decodeHashObject (exec [''HGETALL'', key])"

definition hGetAllMany :: "string list \<Rightarrow> hash_object list io" where
  "hGetAllMany keys = io_map (map decodeHashObject) (execPipeline (map (\<lambda>key. [''HGETALL'', key]) keys))"

definition hGetAllManyAndHKeysMany :: "string list \<Rightarrow> string list \<Rightarrow> (hash_object list \<times> string list list) io" where
  "hGetAllManyAndHKeysMany hashKeys keyListHashes =
     io_map (\<lambda>replies. (map decodeHashObject (take (length hashKeys) replies),
                        map decodeStringArray (drop (length hashKeys) replies)))
       (execPipeline (map (\<lambda>key. [''HGETALL'', key]) hashKeys @ map (\<lambda>key. [''HKEYS'', key]) keyListHashes))"

definition hGetAllAndGet :: "string \<Rightarrow> string \<Rightarrow> (hash_object \<times> string option) io" where
  "hGetAllAndGet hashKey stringKey =
     io_map (\<lambda>replies. (decodeHashObject (replies ! 0), decodeBulk (replies ! 1)))
       (execPipeline [[''HGETALL'', hashKey], [''GET'', stringKey]])"

definition hGetAndZRange :: "string \<Rightarrow> string \<Rightarrow> string \<Rightarrow> int \<Rightarrow> int \<Rightarrow> (string option \<times> string list) io" where
  "hGetAndZRange hashKey field sortedSetKey start stop =
     io_map (\<lambda>replies. (decodeBulk (replies ! 0), decodeStringArray (replies ! 1)))
       (execPipeline [[''HGET'', hashKey, field], [''ZRANGE'', sortedSetKey, show_int start, show_int stop]])"

definition zRangeManyAndHGetAllMany ::
  "string list \<Rightarrow> string list \<Rightarrow> int \<Rightarrow> int \<Rightarrow> (string list list \<times> hash_object list) io" where
  "zRangeManyAndHGetAllMany sortedSetKeys hashKeys start stop =
     io_map (\<lambda>replies. (map decodeStringArray (take (length sortedSetKeys) replies),
                        map decodeHashObject (drop (length sortedSetKeys) replies)))
       (execPipeline (map (\<lambda>key. [''ZRANGE'', key, show_int start, show_int stop]) sortedSetKeys
          @ map (\<lambda>key. [''HGETALL'', key]) hashKeys))"

definition zRangeManyAndExistsMany ::
  "string list \<Rightarrow> string list \<Rightarrow> int \<Rightarrow> int \<Rightarrow> (string list list \<times> bool list) io" where
  "zRangeManyAndExistsMany sortedSetKeys existenceKeys start stop =
     io_map (\<lambda>replies. (map decodeStringArray (take (length sortedSetKeys) replies),
                        map (\<lambda>r. r = Number 1) (drop (length sortedSetKeys) replies)))
       (execPipeline (map (\<lambda>key. [''ZRANGE'', key, show_int start, show_int stop]) sortedSetKeys
          @ map (\<lambda>key. [''EXISTS'', key]) existenceKeys))"

definition sMembersAndHGetAll :: "string \<Rightarrow> string \<Rightarrow> (string list \<times> hash_object) io" where
  "sMembersAndHGetAll setKey hashKey =
     io_map (\<lambda>replies. (decodeStringArray (replies ! 0), decodeHashObject (replies ! 1)))
       (execPipeline [[''SMEMBERS'', setKey], [''HGETALL'', hashKey]])"

definition sMembersHGetAllAndSMembers ::
  "string \<Rightarrow> string \<Rightarrow> string \<Rightarrow> (string list \<times> hash_object \<times> string list) io" where
  "sMembersHGetAllAndSMembers namespacesKey hashKey setKey =
     io_map (\<lambda>replies. (decodeStringArray (replies ! 0), decodeHashObject (replies ! 1), decodeStringArray (replies ! 2)))
       (execPipeline [[''SMEMBERS'', namespacesKey], [''HGETALL'', hashKey], [''SMEMBERS'', setKey]])"

definition hGetAllAndSMembers :: "string \<Rightarrow> string \<Rightarrow> (hash_object \<times> string list) io" where
  "hGetAllAndSMembers hashKey setKey =
     io_map (\<lambda>replies. (decodeHashObject (replies ! 0), decodeStringArray (replies ! 1)))
       (execPipeline [[''HGETALL'', hashKey], [''SMEMBERS'', setKey]])"

definition hSet :: "string \<Rightarrow> (string \<times> string) list \<Rightarrow> reply io" where
  "hSet key rest = exec (buildHSetArgs key rest)"

definition hDel :: "string \<Rightarrow> string list \<Rightarrow> reply io" where
  "hDel key fs = exec ([''HDEL'', key] @ fs)"

definition hKeys :: "string \<Rightarrow> string list io" where
  "hKeys key = io_map decodeStringArray (exec [''HKEYS'', key])"

definition hExists :: "string \<Rightarrow> string \<Rightarrow> bool io" where
  "hExists key field = io_map (\<lambda>r. r = Number 1) (exec [''HEXISTS'', key, field])"

definition hStrLenMany :: "(string \<times> string) list \<Rightarrow> reply list io" where
  "hStrLenMany pairs = execPipeline (map (\<lambda>(key, field). [''HSTRLEN'', key, field]) pairs)"

definition sMembersMany :: "string list \<Rightarrow> string list list io" where
  "sMembersMany keys = io_map (map decodeStringArray) (execPipeline (map (\<lambda>key. [''SMEMBERS'', key]) keys))"

definition sAdd :: "string \<Rightarrow> string list \<Rightarrow> reply io" where
  "sAdd key members = (if members = [] then io_return (Number 0) else exec ([''SADD'', key] @ members))"

definition sRem :: "string \<Rightarrow> string list \<Rightarrow> reply io" where
  "sRem key members = (if members = [] then io_return (Number 0) else exec ([''SREM'', key] @ members))"

definition sMembers :: "string \<Rightarrow> string list io" where
  "sMembers key = io_map decodeStringArray (exec [''SMEMBERS'', key])"

definition sIsMember :: "string \<Rightarrow> string \<Rightarrow> bool io" where
  "sIsMember key member = io_map (\<lambda>r. r = Number 1) (exec [''SISMEMBER'', key, member])"

definition sCard :: "string \<Rightarrow> reply io" where
  "sCard key = exec [''SCARD'', key]"

definition sCardMany :: "string list \<Rightarrow> reply list io" where
  "sCardMany keys = execPipeline (map (\<lambda>key. [''SCARD'', key]) keys)"

definition redis_incr :: "string \<Rightarrow> reply io" where
  "redis_incr key = exec [''INCR'', key]"

definition redis_exists :: "string list \<Rightarrow> reply io" where
  "redis_exists keys = exec (''EXISTS'' # keys)"

fun positive_reply :: "reply \<Rightarrow> bool" where
  "positive_reply (Number n) \<longleftrightarrow> n > 0"
| "positive_reply _ \<longleftrightarrow> False"

definition existsMany :: "string list \<Rightarrow> bool list io" where
  "existsMany keys = io_map (map positive_reply) (execPipeline (map (\<lambda>key. [''EXISTS'', key]) keys))"

definition zCard :: "string \<Rightarrow> reply io" where
  "zCard key = exec [''ZCARD'', key]"

definition zRange :: "string \<Rightarrow> int \<Rightarrow> int \<Rightarrow> string list io" where
  "zRange key start stop = io_map decodeStringArray (exec [''ZRANGE'', key, show_int start, show_int stop])"

definition copy_args :: "string \<Rightarrow> string \<Rightarrow> bool \<Rightarrow> cmd" where
  "copy_args src dst replace = [''COPY'', src, dst] @ (if replace then [''REPLACE''] else [])"

definition redis_copy :: "string \<Rightarrow> string \<Rightarrow> bool \<Rightarrow> reply io" where
  "redis_copy src dst replace = exec (copy_args src dst replace)"

definition xRead :: "string list \<Rightarrow> reply io" where
  "xRead args = exec (''XREAD'' # args)"

section \<open>Sessions\<close>

definition watch :: "string list \<Rightarrow> reply io" where
  "watch keys = exec (''WATCH'' # keys)"

definition unwatch :: "reply io" where
  "unwatch = exec [''UNWATCH'']"

text \<open>\<open>WATCH\<close> is the first command, so every read behind it is protected.\<close>

definition watchAndExecPipeline :: "string list \<Rightarrow> cmd list \<Rightarrow> reply list io" where
  "watchAndExecPipeline watchKeys readCommands =
     (if watchKeys = [] then io_throw JsError
      else if readCommands = [] then io_throw JsError
      else io_map (drop 1) (execPipeline ((''WATCH'' # watchKeys) # readCommands)))"

definition hGetManyAndHGetAllMany ::
  "(string \<times> string) list \<Rightarrow> string list \<Rightarrow> (string option list \<times> hash_object list) io" where
  "hGetManyAndHGetAllMany fieldPairs hashKeys =
     io_map (\<lambda>replies. (map decodeBulk (take (length fieldPairs) replies),
                        map decodeHashObject (drop (length fieldPairs) replies)))
       (execPipeline (map (\<lambda>(key, field). [''HGET'', key, field]) fieldPairs
          @ map (\<lambda>key. [''HGETALL'', key]) hashKeys))"

definition hGetManyAndSMembersMany ::
  "(string \<times> string) list \<Rightarrow> string list \<Rightarrow> (string option list \<times> string list list) io" where
  "hGetManyAndSMembersMany fieldPairs setKeys =
     io_map (\<lambda>replies. (map decodeBulk (take (length fieldPairs) replies),
                        map decodeStringArray (drop (length fieldPairs) replies)))
       (execPipeline (map (\<lambda>(key, field). [''HGET'', key, field]) fieldPairs
          @ map (\<lambda>key. [''SMEMBERS'', key]) setKeys))"

definition watchAndHGetAllAndGet :: "string list \<Rightarrow> string \<Rightarrow> string \<Rightarrow> (hash_object \<times> string option) io" where
  "watchAndHGetAllAndGet watchKeys hashKey stringKey =
     io_map (\<lambda>replies. (decodeHashObject (replies ! 0), decodeBulk (replies ! 1)))
       (watchAndExecPipeline watchKeys [[''HGETALL'', hashKey], [''GET'', stringKey]])"

definition watchAndHGetAllGetSMembers ::
  "string list \<Rightarrow> string \<Rightarrow> string \<Rightarrow> string \<Rightarrow> (hash_object \<times> string option \<times> string list) io" where
  "watchAndHGetAllGetSMembers watchKeys hashKey stringKey setKey =
     io_map (\<lambda>replies. (decodeHashObject (replies ! 0), decodeBulk (replies ! 1), decodeStringArray (replies ! 2)))
       (watchAndExecPipeline watchKeys [[''HGETALL'', hashKey], [''GET'', stringKey], [''SMEMBERS'', setKey]])"

definition watchAndExistsAndHStrLenMany ::
  "string list \<Rightarrow> string list \<Rightarrow> (string \<times> string) list \<Rightarrow> (reply \<times> reply list) io" where
  "watchAndExistsAndHStrLenMany watchKeys existenceKeys lengthPairs =
     (let existenceCommand = (if existenceKeys \<noteq> [] then [''EXISTS'' # existenceKeys] else []) in
      io_map (\<lambda>replies. (if existenceKeys \<noteq> [] then replies ! 0 else Number 0, drop (length existenceCommand) replies))
        (watchAndExecPipeline watchKeys (existenceCommand @ map (\<lambda>(key, field). [''HSTRLEN'', key, field]) lengthPairs)))"

definition watchAndSMembers :: "string list \<Rightarrow> string \<Rightarrow> string list io" where
  "watchAndSMembers watchKeys key =
     io_map (\<lambda>replies. decodeStringArray (replies ! 0)) (watchAndExecPipeline watchKeys [[''SMEMBERS'', key]])"

definition sMIsMember :: "string \<Rightarrow> string list \<Rightarrow> bool list io" where
  "sMIsMember key members =
     (if members = [] then io_return []
      else io_map (\<lambda>arr. map (\<lambda>x. x = Number 1) (elements arr)) (exec ([''SMISMEMBER'', key] @ members)))"

definition getMany :: "string list \<Rightarrow> string option list io" where
  "getMany keys = io_map (map decodeBulk) (execPipeline (map (\<lambda>key. [''GET'', key]) keys))"

definition getManyAndHGetMany ::
  "string list \<Rightarrow> (string \<times> string) list \<Rightarrow> (string option list \<times> string option list) io" where
  "getManyAndHGetMany getKeys hgetPairs =
     io_map (\<lambda>replies. (map decodeBulk (take (length getKeys) replies), map decodeBulk (drop (length getKeys) replies)))
       (execPipeline (map (\<lambda>key. [''GET'', key]) getKeys @ map (\<lambda>(key, field). [''HGET'', key, field]) hgetPairs))"

definition watchAndGetManyAndHGetMany ::
  "string list \<Rightarrow> string list \<Rightarrow> (string \<times> string) list \<Rightarrow> (string option list \<times> string option list) io" where
  "watchAndGetManyAndHGetMany watchKeys getKeys hgetPairs =
     io_map (\<lambda>replies. (map decodeBulk (take (length getKeys) replies), map decodeBulk (drop (length getKeys) replies)))
       (watchAndExecPipeline watchKeys
          (map (\<lambda>key. [''GET'', key]) getKeys @ map (\<lambda>(key, field). [''HGET'', key, field]) hgetPairs))"

definition getManyWithTime :: "string list \<Rightarrow> (string option list \<times> int) io" where
  "getManyWithTime keys =
     (if keys = [] then io_throw JsError
      else io_bind (execPipeline (map (\<lambda>key. [''GET'', key]) keys @ [[''TIME'']])) (\<lambda>replies.
        io_bind (io_lift (decodeRedisTimeMs (last replies))) (\<lambda>nowMs.
          io_return (map decodeBulk (butlast replies), nowMs))))"

definition getWithTime :: "string \<Rightarrow> (string option \<times> int) io" where
  "getWithTime key = io_map (\<lambda>(values, nowMs). (values ! 0, nowMs)) (getManyWithTime [key])"

definition watchAndExistsMany :: "string list \<Rightarrow> string list \<Rightarrow> bool list io" where
  "watchAndExistsMany watchKeys keys =
     io_map (map positive_reply) (watchAndExecPipeline watchKeys (map (\<lambda>key. [''EXISTS'', key]) keys))"

text \<open>\<open>multi()\<close> .. \<open>exec()\<close>: the staged commands, and a nil reply of \<open>EXEC\<close> as the watch error.\<close>

definition multi_hSet :: "string \<Rightarrow> (string \<times> string) list \<Rightarrow> cmd list \<Rightarrow> cmd list" where
  "multi_hSet key rest cmds = cmds @ [buildHSetArgs key rest]"

definition multi_hDel :: "string \<Rightarrow> string list \<Rightarrow> cmd list \<Rightarrow> cmd list" where
  "multi_hDel key fs cmds = cmds @ [[''HDEL'', key] @ fs]"

definition multi_sAdd :: "string \<Rightarrow> string list \<Rightarrow> cmd list \<Rightarrow> cmd list" where
  "multi_sAdd key members cmds = (if members = [] then cmds else cmds @ [[''SADD'', key] @ members])"

definition multi_sRem :: "string \<Rightarrow> string list \<Rightarrow> cmd list \<Rightarrow> cmd list" where
  "multi_sRem key members cmds = (if members = [] then cmds else cmds @ [[''SREM'', key] @ members])"

definition multi_del :: "string list \<Rightarrow> cmd list \<Rightarrow> cmd list" where
  "multi_del keys cmds = cmds @ [''DEL'' # keys]"

definition multi_set :: "string \<Rightarrow> string \<Rightarrow> set_options \<Rightarrow> cmd list \<Rightarrow> cmd list result" where
  "multi_set key v opts cmds = bind_result (buildSetArgs key v opts) (\<lambda>args. Ok (cmds @ [args]))"

definition multi_incr :: "string \<Rightarrow> cmd list \<Rightarrow> cmd list" where
  "multi_incr key cmds = cmds @ [[''INCR'', key]]"

definition multi_publish :: "string \<Rightarrow> string \<Rightarrow> cmd list \<Rightarrow> cmd list" where
  "multi_publish channel message cmds = cmds @ [[''PUBLISH'', channel, message]]"

definition multi_zAdd :: "string \<Rightarrow> string \<Rightarrow> string \<Rightarrow> cmd list \<Rightarrow> cmd list" where
  "multi_zAdd key score member cmds = cmds @ [[''ZADD'', key, score, member]]"

definition multi_zRem :: "string \<Rightarrow> string list \<Rightarrow> cmd list \<Rightarrow> cmd list" where
  "multi_zRem key members cmds = cmds @ [[''ZREM'', key] @ members]"

definition multi_expireAt :: "string \<Rightarrow> int \<Rightarrow> cmd list \<Rightarrow> cmd list" where
  "multi_expireAt key timestampSec cmds = cmds @ [[''EXPIREAT'', key, show_int timestampSec]]"

definition multi_copy :: "string \<Rightarrow> string \<Rightarrow> bool \<Rightarrow> cmd list \<Rightarrow> cmd list" where
  "multi_copy src dst replace cmds = cmds @ [copy_args src dst replace]"

definition multi_exec :: "cmd list \<Rightarrow> reply io" where
  "multi_exec cmds = io_bind (ask (Transaction cmds)) (\<lambda>r. if r = NoReply then io_throw WatchError else io_return r)"

section \<open>Client batches\<close>

definition delIfEqMany :: "(string \<times> string) list \<Rightarrow> reply list io" where
  "delIfEqMany entries = execPipeline (map (\<lambda>(key, v). [''DELIFEQ'', key, v]) entries)"

definition multiExec :: "cmd list \<Rightarrow> reply io" where
  "multiExec cmdList = ask (Transaction cmdList)"

definition existsAndXRange :: "string \<Rightarrow> string \<Rightarrow> string \<Rightarrow> nat \<Rightarrow> (bool \<times> reply) io" where
  "existsAndXRange key start stop count =
     io_map (\<lambda>replies. (positive_reply (replies ! 0), replies ! 1))
       (execPipeline [[''EXISTS'', key], [''XRANGE'', key, start, stop, ''COUNT'', show_nat count]])"

definition xadd :: "string \<Rightarrow> (string \<times> string) list \<Rightarrow> nat option \<Rightarrow> string io" where
  "xadd key fs maxlen =
     io_bind (exec ([''XADD'', key]
         @ (case maxlen of None \<Rightarrow> [] | Some n \<Rightarrow> if n = 0 then [] else [''MAXLEN'', ''~'', show_nat n])
         @ [''*''] @ concat (map (\<lambda>(f, v). [f, v]) fs)))
       (\<lambda>r. case r of Text s \<Rightarrow> io_return s | _ \<Rightarrow> io_throw JsTypeError)"

section \<open>Token locks\<close>

record token_lock =
  lock_key :: string
  lock_token :: string

definition createTokenLock :: "string \<Rightarrow> token_lock io" where
  "createTokenLock key = io_map (\<lambda>token. \<lparr>lock_key = key, lock_token = token\<rparr>) (randomHex 16)"

definition acquireTokenLock :: "token_lock \<Rightarrow> jsnum \<Rightarrow> bool io" where
  "acquireTokenLock lock ttlSeconds =
     io_map (\<lambda>r. r = Some ''OK'')
       (redis_set (lock_key lock) (lock_token lock) (no_options\<lparr>so_nx := True, so_ttl := Some ttlSeconds\<rparr>))"

definition renewTokenLock :: "token_lock \<Rightarrow> jsnum \<Rightarrow> bool io" where
  "renewTokenLock lock ttlSeconds =
     io_map (\<lambda>r. r = Some ''OK'')
       (redis_set (lock_key lock) (lock_token lock) (no_options\<lparr>so_ttl := Some ttlSeconds, so_ifeq := Some (lock_token lock)\<rparr>))"

text \<open>Release is best-effort: a failure is reported to the logger and swallowed.\<close>

definition releaseTokenLock :: "token_lock option \<Rightarrow> unit io" where
  "releaseTokenLock lock =
     (case lock of
        None \<Rightarrow> io_return ()
      | Some l \<Rightarrow> io_catch (io_map (\<lambda>_. ()) (delIfEq (lock_key l) (lock_token l))) (\<lambda>_. io_return ()))"

end
