(* ===== verification/Auth_Index.thy ===== *)
theory Auth_Index
  imports Auth_Lib Worker_Contract Uri_Component Redis_Commands
begin

text \<open>
  The methods of the auth worker (\<open>auth/index.js\<close>) and its Redis helpers
  (\<open>auth/runtime.js\<close>): verification of a token, issue, delegated issue under a lock, listing and
  revocation. The digest, the fallback of the date parser and the collation of the platform are
  fields of \<open>auth_platform\<close>, together with the bootstrap token of the environment and the number
  of \<open>SCAN\<close> pages a listing may take. Log lines are left out: they return nothing.
\<close>

record auth_platform =
  p_sha256 :: "char list \<Rightarrow> char list"
  p_legacy :: "string \<Rightarrow> int option"
  p_localeCompare :: "string \<Rightarrow> string \<Rightarrow> int"
  p_bootstrap :: jsval
  p_scan_pages :: nat

section \<open>Keys and records\<close>

definition TOKEN_KEY_PREFIX :: string where "TOKEN_KEY_PREFIX = ''auth:token:''"
definition HASH_KEY_PREFIX :: string where "HASH_KEY_PREFIX = ''auth:hash:''"

definition READ_TOKEN_BY_HASH_SCRIPT :: string where
  "READ_TOKEN_BY_HASH_SCRIPT =
     join (CHR 0x0A)
      ['''',
       ''local token_id = redis.call('' @ [CHR 0x22] @ ''GET'' @ [CHR 0x22] @ '', KEYS[1])'',
       ''if not token_id then'', ''  return {0}'', ''end'',
       ''local record = redis.call('' @ [CHR 0x22] @ ''HGETALL'' @ [CHR 0x22] @ '', ARGV[1] .. token_id)'',
       ''local out = {1, token_id}'',
       ''for i = 1, #record do'', ''  table.insert(out, record[i])'', ''end'',
       ''return out'', '''']"

definition tokenKey :: "string \<Rightarrow> string" where
  "tokenKey tokenId = TOKEN_KEY_PREFIX @ tokenId"

definition hashKey :: "string \<Rightarrow> string" where
  "hashKey hash = HASH_KEY_PREFIX @ hash"

definition buildHsetCmd :: "string \<Rightarrow> (string \<times> string option) list \<Rightarrow> cmd" where
  "buildHsetCmd key fs =
     [''HSET'', key] @ concat (map (\<lambda>(f, v). case v of None \<Rightarrow> [] | Some x \<Rightarrow> [f, x]) fs)"

text \<open>\<open>new Date().toISOString()\<close>; a time value outside the range of dates throws.\<close>

definition iso_of :: "int \<Rightarrow> string result" where
  "iso_of t = (if \<bar>t\<bar> \<le> 8640000000000000 then Ok (toISOString t) else Throw JsError)"

definition now_iso :: "string io" where
  "now_iso = io_bind now_ms (\<lambda>t. io_lift (iso_of t))"

definition readRecord :: "string \<Rightarrow> token_record option io" where
  "readRecord tokenId = io_map (\<lambda>h. parseTokenRecord (hash_fields h)) (hGetAll (tokenKey tokenId))"

text \<open>The reply of the lookup script; \<open>decodeBulk\<close> of a missing or empty field name throws.\<close>

fun indexed_fields :: "reply list \<Rightarrow> hash_object \<Rightarrow> hash_object result" where
  "indexed_fields (f # v # rest) out =
     (case decodeBulk f of
        None \<Rightarrow> Throw JsError
      | Some field \<Rightarrow>
          if field = [] then Throw JsError
          else indexed_fields rest (if field = ''__proto__'' then out else omap_set field (decodeBulk v) out))"
| "indexed_fields _ out = Ok out"

definition parseIndexedTokenReply :: "reply \<Rightarrow> (string \<times> token_record option) option result" where
  "parseIndexedTokenReply reply =
     (case reply of
        Many (r # rest) \<Rightarrow>
          if r = Number 0 then (if rest \<noteq> [] then Throw JsError else Ok None)
          else if r \<noteq> Number 1 \<or> rest = [] \<or> even (length rest) then Throw JsError
          else
            (case decodeBulk (hd rest) of
               None \<Rightarrow> Throw JsError
             | Some tokenId \<Rightarrow>
                 if tokenId = [] then Throw JsError
                 else bind_result (indexed_fields (tl rest) []) (\<lambda>fs.
                   Ok (Some (tokenId, parseTokenRecord (hash_fields fs)))))
      | _ \<Rightarrow> Throw JsError)"

definition readRecordByHash :: "string \<Rightarrow> (string \<times> token_record option) option io" where
  "readRecordByHash hash =
     io_bind (redis_eval READ_TOKEN_BY_HASH_SCRIPT [hashKey hash] [TOKEN_KEY_PREFIX]) (\<lambda>reply.
       io_lift (parseIndexedTokenReply reply))"

definition readRecords :: "string list \<Rightarrow> (string \<times> token_record option) list io" where
  "readRecords tokenIds =
     (if tokenIds = [] then io_return []
      else io_map (\<lambda>hashes. zip tokenIds (map (\<lambda>h. parseTokenRecord (hash_fields h)) hashes))
        (hGetAllMany (map tokenKey tokenIds)))"

section \<open>The bootstrap token\<close>

definition desiredBootstrapHash :: "auth_platform \<Rightarrow> string result" where
  "desiredBootstrapHash p =
     (case p_bootstrap p of
        JStr token \<Rightarrow> if trim token = [] then Throw JsError else Ok (hashToken (p_sha256 p) token)
      | _ \<Rightarrow> Throw JsError)"

definition verifyBootstrapHash :: string where
  "verifyBootstrapHash = ''verifyBootstrapHash''"

definition bootstrap_fields :: "string \<Rightarrow> string \<Rightarrow> (string \<times> string) list" where
  "bootstrap_fields hash now =
     [(''hash'', hash), (''kind'', ''ops''), (''created_at'', now), (''created_by'', BOOTSTRAP_TOKEN_ID), (''revoked_at'', [])]"

definition rotateBootstrap :: "string \<Rightarrow> unit io" where
  "rotateBootstrap desiredHash =
     io_bind (watch [tokenKey BOOTSTRAP_TOKEN_ID]) (\<lambda>_.
     io_bind (hGet (tokenKey BOOTSTRAP_TOKEN_ID) ''hash'') (\<lambda>oldHash.
       if oldHash = Some desiredHash then io_map (\<lambda>_. ()) unwatch
       else io_bind now_iso (\<lambda>now.
         let m = (case oldHash of None \<Rightarrow> [] | Some h \<Rightarrow> if h = [] then [] else multi_del [hashKey h] []);
             m = multi_hSet (tokenKey BOOTSTRAP_TOKEN_ID) (bootstrap_fields desiredHash now) m in
         io_bind (io_lift (multi_set (hashKey desiredHash) BOOTSTRAP_TOKEN_ID no_options m)) (\<lambda>m.
           io_map (\<lambda>_. ()) (multi_exec m)))))"

definition ensureBootstrapHash :: "string \<Rightarrow> unit io" where
  "ensureBootstrapHash desiredHash =
     io_bind (hGet (tokenKey BOOTSTRAP_TOKEN_ID) ''hash'') (\<lambda>existingHash.
       if existingHash = Some desiredHash then module_set verifyBootstrapHash desiredHash
       else io_bind (withOptimisticRetries (\<lambda>_. rotateBootstrap desiredHash) 5 (\<lambda>e. e = WatchError)
              (\<lambda>_ _. False) (io_throw JsError) 0) (\<lambda>_.
         module_set verifyBootstrapHash desiredHash))"

definition ensureBootstrap :: "auth_platform \<Rightarrow> (string \<times> bool) io" where
  "ensureBootstrap p =
     io_bind (io_lift (desiredBootstrapHash p)) (\<lambda>desiredHash.
     io_bind (ensureBootstrapHash desiredHash) (\<lambda>_. io_return (desiredHash, False)))"

definition ensureBootstrapForVerify :: "auth_platform \<Rightarrow> (string \<times> bool) io" where
  "ensureBootstrapForVerify p =
     io_bind (module_get verifyBootstrapHash) (\<lambda>cached.
       case cached of
         Some h \<Rightarrow> if h \<noteq> [] then io_return (h, True) else ensureBootstrap p
       | None \<Rightarrow> ensureBootstrap p)"

section \<open>Verification\<close>

definition refuse :: "nat \<Rightarrow> string \<Rightarrow> string option \<Rightarrow> jsval" where
  "refuse status reason tokenId =
     JObj ([(''ok'', JBool False), (''status'', JNum (num (int status))), (''reason'', JStr reason)]
       @ (case tokenId of None \<Rightarrow> [] | Some t \<Rightarrow> [(''tokenId'', JStr t)]))"

text \<open>A role without a bound namespace has no \<open>ns\<close> key in its principal.\<close>

definition principal_of :: "token_record \<Rightarrow> jsval" where
  "principal_of r =
     (case map_of ROLES (tr_kind r) of
        Some role \<Rightarrow>
          if boundNsKind role = BoundNone then JObj [(''kind'', JStr (tr_kind r))]
          else JObj [(''kind'', JStr (tr_kind r)), (''ns'', opt_val (tr_ns r))]
      | None \<Rightarrow> JObj [(''kind'', JStr (tr_kind r)), (''ns'', opt_val (tr_ns r))])"

definition grant :: "token_record \<Rightarrow> string \<Rightarrow> jsval" where
  "grant r tokenId =
     JObj [(''ok'', JBool True), (''status'', JNum (num 200)), (''principal'', principal_of r), (''tokenId'', JStr tokenId)]"

definition tombstone_expired :: "string \<Rightarrow> string \<Rightarrow> unit io" where
  "tombstone_expired tokenId hash =
     (if hash = [] then io_return ()
      else io_bind now_iso (\<lambda>now.
        io_map (\<lambda>_. ())
          (multiExec [[''DEL'', hashKey hash], buildHsetCmd (tokenKey tokenId) [(''expired_at'', Some now)]])))"

definition judge :: "auth_platform \<Rightarrow> jsval \<Rightarrow> jsval \<Rightarrow> string \<Rightarrow> string \<Rightarrow> token_record \<Rightarrow> jsval io" where
  "judge p action ns hash tokenId r =
     (if tr_hash r \<noteq> hash then io_return (refuse 503 ''invalid_record_hash'' (Some tokenId))
      else io_bind (io_lift (validateRecordShape (token_obj r))) (\<lambda>shape.
        case shape of
          Deny reason \<Rightarrow> io_return (refuse 503 reason (Some tokenId))
        | Allow \<Rightarrow>
            if isRevoked (Some r) then io_return (refuse 401 ''revoked'' (Some tokenId))
            else io_bind now_ms (\<lambda>now.
              if isExpired (p_legacy p) (Some r) now
              then io_map (\<lambda>_. refuse 401 ''expired'' (Some tokenId)) (tombstone_expired tokenId (tr_hash r))
              else case evaluateAccess action ns (JStr (tr_kind r)) (opt_val (tr_ns r)) of
                Deny reason \<Rightarrow>
                  io_return (refuse (if reason = ''unknown_role'' then 503 else 403) reason (Some tokenId))
              | Allow \<Rightarrow> io_return (grant r tokenId))))"

definition verify_hash :: "auth_platform \<Rightarrow> jsval \<Rightarrow> jsval \<Rightarrow> string \<Rightarrow> jsval io" where
  "verify_hash p action ns hash =
     io_bind (ensureBootstrapForVerify p) (\<lambda>(desiredHash, cached).
     io_bind (readRecordByHash hash) (\<lambda>loaded.
     io_bind (if loaded = None \<and> cached \<and> hash = desiredHash
              then io_bind (ensureBootstrap p) (\<lambda>_. readRecordByHash hash)
              else io_return loaded) (\<lambda>loaded.
       case loaded of
         None \<Rightarrow> io_return (refuse 401 ''unknown_token'' None)
       | Some (tokenId, None) \<Rightarrow> io_return (refuse 401 ''unknown_token'' None)
       | Some (tokenId, Some r) \<Rightarrow> judge p action ns hash tokenId r)))"

definition string_or_undefined :: "jsval \<Rightarrow> jsval" where
  "string_or_undefined v = (if is_string v then v else JUndef)"

definition verify :: "auth_platform \<Rightarrow> jsval \<Rightarrow> jsval io" where
  "verify p input =
     (case jget input ''token'' of
        JStr token \<Rightarrow>
          if token = [] then io_return (refuse 401 ''missing_token'' None)
          else verify_hash p (jget input ''action'') (string_or_undefined (jget input ''ns'')) (hashToken (p_sha256 p) token)
      | _ \<Rightarrow> io_return (refuse 401 ''missing_token'' None))"

section \<open>Issue\<close>

text \<open>An identifier of 16 random bytes has 22 characters and is never the bootstrap id.\<close>

definition new_token_id :: "string io" where
  "new_token_id = io_bind (random_bytes 16) (\<lambda>buf. case generateTokenId [buf] of Some i \<Rightarrow> io_return i | None \<Rightarrow> Spin)"

definition new_plaintext :: "string io" where
  "new_plaintext = io_map generatePlaintextToken (random_bytes 32)"

fun resolve_templates :: "string list \<Rightarrow> unit result" where
  "resolve_templates [] = Ok ()"
| "resolve_templates (t # ts) = bind_result (resolveDelegatedIssueTemplate t) (\<lambda>_. resolve_templates ts)"

record issue_request =
  iq_kind :: string
  iq_ns :: "string option"
  iq_templates :: "string list option"
  iq_label :: "string option"
  iq_expiresAt :: "string option"
  iq_issuer :: string

definition issue_templates_of :: "string \<Rightarrow> jsval \<Rightarrow> string list option result" where
  "issue_templates_of kind input =
     (if kind = ''token-issuer''
      then bind_result (validateIssueTemplatesInput (jget input ''issueTemplates'')) (\<lambda>ids.
             bind_result (resolve_templates ids) (\<lambda>_. Ok (Some ids)))
      else if jget input ''issueTemplates'' \<noteq> JUndef then AuthPolicyError 400 ''invalid_template_request''
      else Ok None)"

definition issue_label_of :: "jsval \<Rightarrow> string option result" where
  "issue_label_of label =
     (if nullish label then Ok None
      else case label of
        JStr s \<Rightarrow> if length s > 128 then AuthPolicyError 400 ''invalid_label'' else Ok (Some s)
      | _ \<Rightarrow> AuthPolicyError 400 ''invalid_label'')"

definition issue_issuer_of :: "jsval \<Rightarrow> string result" where
  "issue_issuer_of v =
     (case v of JStr s \<Rightarrow> if s = [] then AuthPolicyError 400 ''missing_issuer'' else Ok s
      | _ \<Rightarrow> AuthPolicyError 400 ''missing_issuer'')"

definition validate_issue :: "jsval \<Rightarrow> issue_request io" where
  "validate_issue input =
     (if jget input ''issue_templates'' \<noteq> JUndef then io_lift (AuthPolicyError 400 ''invalid_template_request'')
      else io_bind (io_lift (validateIssueInput (jget input ''kind'') (jget input ''ns''))) (\<lambda>(kind, ns).
        io_bind (io_lift (issue_templates_of kind input)) (\<lambda>templates.
        io_bind (io_lift (issue_label_of (jget input ''label''))) (\<lambda>label.
        io_bind now_ms (\<lambda>now.
        io_bind (io_lift (validateExpiresAt (jget input ''expiresAt'') now)) (\<lambda>expiresAt.
        io_bind (io_lift (issue_issuer_of (jget input ''issuerTokenId''))) (\<lambda>issuer.
          io_return \<lparr>iq_kind = kind, iq_ns = ns, iq_templates = templates, iq_label = label,
                     iq_expiresAt = expiresAt, iq_issuer = issuer\<rparr>)))))))"

definition truthy_pair :: "string \<Rightarrow> string option \<Rightarrow> (string \<times> string option) list" where
  "truthy_pair key v = (case v of None \<Rightarrow> [] | Some s \<Rightarrow> if s = [] then [] else [(key, Some s)])"

definition issue_fields :: "string \<Rightarrow> string \<Rightarrow> issue_request \<Rightarrow> (string \<times> string option) list" where
  "issue_fields hash now q =
     [(''hash'', Some hash), (''kind'', Some (iq_kind q)), (''created_at'', Some now), (''created_by'', Some (iq_issuer q))]
     @ (if boundNsKind (the (map_of ROLES (iq_kind q))) \<noteq> BoundNone then [(''ns'', iq_ns q)] else [])
     @ truthy_pair ''label'' (iq_label q) @ truthy_pair ''expires_at'' (iq_expiresAt q)
     @ (case iq_templates q of None \<Rightarrow> [] | Some ids \<Rightarrow> [(''issue_templates'', Some (stringify (JArr (map JStr ids))))])"

definition issue :: "auth_platform \<Rightarrow> jsval \<Rightarrow> jsval io" where
  "issue p input =
     io_bind (ensureBootstrap p) (\<lambda>_.
     io_bind (validate_issue input) (\<lambda>q.
     io_bind new_token_id (\<lambda>tokenId.
     io_bind new_plaintext (\<lambda>plaintext.
       let hash = hashToken (p_sha256 p) plaintext in
       io_bind now_iso (\<lambda>now.
       io_bind (multiExec [buildHsetCmd (tokenKey tokenId) (issue_fields hash now q), [''SET'', hashKey hash, tokenId]]) (\<lambda>_.
         io_return (JObj [(''token'', JStr plaintext), (''tokenId'', JStr tokenId)])))))))"

section \<open>Scanning the records\<close>

definition TOKEN_SCAN_COUNT :: nat where "TOKEN_SCAN_COUNT = 2000"
definition TOKEN_RECORD_READ_BATCH_SIZE :: nat where "TOKEN_RECORD_READ_BATCH_SIZE = 128"

fun collect_token_ids :: "string list \<Rightarrow> string list \<Rightarrow> string list" where
  "collect_token_ids [] tokenIds = tokenIds"
| "collect_token_ids (key # keys) tokenIds =
     (let tokenId = drop (length TOKEN_KEY_PREFIX) key in
      collect_token_ids keys
        (if \<not> starts_with key TOKEN_KEY_PREFIX \<or> tokenId \<in> set tokenIds then tokenIds else tokenIds @ [tokenId]))"

primrec scan_pages :: "nat \<Rightarrow> string \<Rightarrow> string list \<Rightarrow> string list io" where
  "scan_pages 0 cursor tokenIds = Spin"
| "scan_pages (Suc fuel) cursor tokenIds =
     io_bind (scan cursor (TOKEN_KEY_PREFIX @ ''*'') TOKEN_SCAN_COUNT) (\<lambda>(next, keys).
       let tokenIds = collect_token_ids keys tokenIds in
       if next \<noteq> ''0'' then scan_pages fuel next tokenIds else io_return tokenIds)"

definition live_records :: "(string \<times> token_record option) list \<Rightarrow> (string \<times> token_record) list" where
  "live_records items = List.map_filter (\<lambda>(i, r). map_option (Pair i) r) items"

function read_batches :: "string list \<Rightarrow> (string \<times> token_record) list io" where
  "read_batches tokenIds =
     (if tokenIds = [] then io_return []
      else io_bind (readRecords (take TOKEN_RECORD_READ_BATCH_SIZE tokenIds)) (\<lambda>batch.
        io_bind (read_batches (drop TOKEN_RECORD_READ_BATCH_SIZE tokenIds)) (\<lambda>rest.
          io_return (live_records batch @ rest))))"
  by pat_completeness auto
termination
  by (relation "measure length") (auto simp: TOKEN_RECORD_READ_BATCH_SIZE_def)

declare read_batches.simps [simp del]

definition scanTokenRecords :: "auth_platform \<Rightarrow> (string \<times> token_record) list io" where
  "scanTokenRecords p = io_bind (scan_pages (p_scan_pages p) ''0'' []) read_batches"

section \<open>Delegated issue\<close>

definition DELEGATED_ISSUE_NAMESPACE_RETRIES :: nat where "DELEGATED_ISSUE_NAMESPACE_RETRIES = 16"
definition DELEGATED_ISSUE_LOCK_TTL_SECONDS :: int where "DELEGATED_ISSUE_LOCK_TTL_SECONDS = 30"
definition DELEGATED_ISSUE_LOCK_KEY_PREFIX :: string where
  "DELEGATED_ISSUE_LOCK_KEY_PREFIX = ''auth:delegated-issue-lock:''"

definition delegatedIssueLockKey :: "string \<Rightarrow> string \<Rightarrow> string" where
  "delegatedIssueLockKey issuerTokenId templateId =
     DELEGATED_ISSUE_LOCK_KEY_PREFIX @ encodeURIComponent issuerTokenId @ '':'' @ encodeURIComponent templateId"

definition requireString :: "jsval \<Rightarrow> string result" where
  "requireString v =
     (case v of JStr s \<Rightarrow> if s = [] then AuthPolicyError 400 ''invalid_template_request'' else Ok s
      | _ \<Rightarrow> AuthPolicyError 400 ''invalid_template_request'')"

definition validateIssuerForDelegatedIssue :: "auth_platform \<Rightarrow> token_record option \<Rightarrow> string \<Rightarrow> unit io" where
  "validateIssuerForDelegatedIssue p issuer templateId =
     (case issuer of
        None \<Rightarrow> io_lift (AuthPolicyError 403 ''delegated_issue_not_allowed'')
      | Some r \<Rightarrow>
          io_bind (io_lift (validateRecordShape (token_obj r))) (\<lambda>shape.
            case shape of
              Deny reason \<Rightarrow> io_lift (AuthPolicyError 503 reason)
            | Allow \<Rightarrow>
                if tr_kind r \<noteq> ''token-issuer'' then io_lift (AuthPolicyError 403 ''issuer_not_token_issuer'')
                else if isRevoked issuer then io_lift (AuthPolicyError 403 ''issuer_not_active'')
                else io_bind now_ms (\<lambda>now.
                  if isExpired (p_legacy p) issuer now then io_lift (AuthPolicyError 403 ''issuer_not_active'')
                  else io_bind (io_lift (parseStoredIssueTemplates (opt_val (tr_issue_templates r)))) (\<lambda>allowed.
                    if templateId \<notin> set allowed then io_lift (AuthPolicyError 403 ''template_not_allowed'')
                    else io_return ()))))"

definition watchDelegatedIssuePrerequisites :: "auth_platform \<Rightarrow> token_lock \<Rightarrow> string \<Rightarrow> string \<Rightarrow> unit io" where
  "watchDelegatedIssuePrerequisites p lock issuerTokenId templateId =
     io_bind (watch [lock_key lock, tokenKey issuerTokenId]) (\<lambda>_.
     io_bind (redis_get (lock_key lock)) (\<lambda>current.
       if current \<noteq> Some (lock_token lock) then io_lift (AuthPolicyError 409 ''delegated_issue_busy'')
       else io_bind (readRecord issuerTokenId) (\<lambda>issuer. validateIssuerForDelegatedIssue p issuer templateId)))"

definition assertDelegatedIssueLockLocalBudget :: "int \<Rightarrow> unit io" where
  "assertDelegatedIssueLockLocalBudget lockAttemptStartedAtMs =
     io_bind now_ms (\<lambda>now.
       if now - lockAttemptStartedAtMs \<ge> (DELEGATED_ISSUE_LOCK_TTL_SECONDS - 1) * 1000
       then io_lift (AuthPolicyError 409 ''delegated_issue_busy'') else io_return ())"

fun countActiveDelegatedTokens :: "(string \<times> token_record) list \<Rightarrow> string \<Rightarrow> string \<Rightarrow> int \<Rightarrow> nat \<Rightarrow> nat result" where
  "countActiveDelegatedTokens [] issuerTokenId templateId nowMs active = Ok active"
| "countActiveDelegatedTokens ((_, r) # records) issuerTokenId templateId nowMs active =
     (if tr_created_by r \<noteq> Some issuerTokenId \<or> tr_issue_template r \<noteq> Some templateId
      then countActiveDelegatedTokens records issuerTokenId templateId nowMs active
      else if isRevoked (Some r) then countActiveDelegatedTokens records issuerTokenId templateId nowMs active
      else case tr_expires_at r of
        None \<Rightarrow> AuthPolicyError 503 ''delegated_issue_misconfigured''
      | Some e \<Rightarrow>
          if e = [] \<or> \<not> isCanonicalStoredTimestamp e then AuthPolicyError 503 ''delegated_issue_misconfigured''
          else countActiveDelegatedTokens records issuerTokenId templateId nowMs
                 (case parse_iso e of Some ms \<Rightarrow> if ms > nowMs then active + 1 else active | None \<Rightarrow> active))"

definition tokenNamespaceClaimExists :: "(string \<times> token_record) list \<Rightarrow> string \<Rightarrow> bool" where
  "tokenNamespaceClaimExists records ns \<longleftrightarrow> list_ex (\<lambda>(_, r). tr_ns r = Some ns) records"

primrec choose_namespace :: "nat \<Rightarrow> (string \<times> token_record) list \<Rightarrow> delegated_template \<Rightarrow> (string \<times> string) io" where
  "choose_namespace 0 records template = io_lift (AuthPolicyError 409 ''namespace_collision'')"
| "choose_namespace (Suc n) records template =
     io_bind (randomHex (t_randomHexBytes template)) (\<lambda>hex.
       let ns = t_prefix template @ hex in
       if \<not> isValidTenantNs (JStr ns) then choose_namespace n records template
       else io_bind (sIsMember NAMESPACES_KEY ns) (\<lambda>member.
         if member then choose_namespace n records template
         else if tokenNamespaceClaimExists records ns then choose_namespace n records template
         else io_return (ns, renderDelegatedIssueLabel template ns)))"

definition chooseDelegatedNamespace :: "(string \<times> token_record) list \<Rightarrow> delegated_template \<Rightarrow> (string \<times> string) io" where
  "chooseDelegatedNamespace = choose_namespace DELEGATED_ISSUE_NAMESPACE_RETRIES"

definition delegated_input :: "jsval \<Rightarrow> (string \<times> string \<times> delegated_template) result" where
  "delegated_input input =
     (if list_ex (\<lambda>f. f \<notin> {''issuerTokenId'', ''template'', ''requestId''}) (case input of JObj ps \<Rightarrow> map fst ps | _ \<Rightarrow> [])
      then AuthPolicyError 400 ''invalid_template_request''
      else bind_result (requireString (jget input ''issuerTokenId'')) (\<lambda>issuerTokenId.
        bind_result (requireString (jget input ''template'')) (\<lambda>templateId.
        bind_result (resolveDelegatedIssueTemplate templateId) (\<lambda>template.
          Ok (issuerTokenId, templateId, template)))))"

definition delegated_fields :: "string \<Rightarrow> delegated_template \<Rightarrow> string \<Rightarrow> string \<Rightarrow> string \<Rightarrow> string \<Rightarrow> string
    \<Rightarrow> (string \<times> string) list" where
  "delegated_fields hash template ns label now issuerTokenId expiresAt =
     [(''hash'', hash), (''kind'', t_targetKind template), (''ns'', ns), (''label'', label), (''created_at'', now),
      (''created_by'', issuerTokenId), (''expires_at'', expiresAt), (''issue_template'', t_id template),
      (''issue_template_version'', t_version template)]"

text \<open>
  The critical section. Its result carries the flag \<open>canReleaseIssueLock\<close>: only an \<open>EXEC\<close> whose
  outcome is unknown keeps the lock.
\<close>

definition delegated_commit :: "cmd list \<Rightarrow> (bool \<times> unit result) io" where
  "delegated_commit cmds =
     io_try (multi_exec cmds) (\<lambda>r. io_return
       (case r of
          Inr _ \<Rightarrow> (True, Ok ())
        | Inl e \<Rightarrow> if e = WatchError then (True, AuthPolicyError 409 ''delegated_issue_busy'') else (False, Throw e)))"

definition delegated_prepare :: "auth_platform \<Rightarrow> token_lock \<Rightarrow> int \<Rightarrow> string \<Rightarrow> string \<Rightarrow> delegated_template
    \<Rightarrow> (int \<times> string \<times> string) io" where
  "delegated_prepare p lock startedAt issuerTokenId templateId template =
     io_bind now_ms (\<lambda>nowMs.
     io_bind (scanTokenRecords p) (\<lambda>records.
     io_bind (io_lift (countActiveDelegatedTokens records issuerTokenId templateId nowMs 0)) (\<lambda>active.
       if active \<ge> t_activeQuota template then io_lift (AuthPolicyError 409 ''active_quota_exceeded'')
       else io_bind (chooseDelegatedNamespace records template) (\<lambda>(ns, label).
         io_bind (assertDelegatedIssueLockLocalBudget startedAt) (\<lambda>_.
         io_bind (watchDelegatedIssuePrerequisites p lock issuerTokenId templateId) (\<lambda>_.
           io_return (nowMs, ns, label)))))))"

definition delegated_issue_locked :: "auth_platform \<Rightarrow> token_lock \<Rightarrow> int \<Rightarrow> string \<Rightarrow> string \<Rightarrow> delegated_template
    \<Rightarrow> (bool \<times> jsval result) io" where
  "delegated_issue_locked p lock startedAt issuerTokenId templateId template =
     io_try
       (io_bind (delegated_prepare p lock startedAt issuerTokenId templateId template) (\<lambda>(nowMs, ns, label).
        io_bind new_token_id (\<lambda>tokenId.
        io_bind (io_lift (iso_of (nowMs + int (t_ttlSeconds template) * 1000))) (\<lambda>expiresAt.
        io_bind new_plaintext (\<lambda>plaintext.
          let hash = hashToken (p_sha256 p) plaintext in
          io_bind (io_lift (iso_of nowMs)) (\<lambda>now.
          io_bind (io_lift (multi_set (hashKey hash) tokenId no_options
              (multi_hSet (tokenKey tokenId) (delegated_fields hash template ns label now issuerTokenId expiresAt) []))) (\<lambda>cmds.
          io_bind (delegated_commit cmds) (\<lambda>(release, committed).
            io_return (release, bind_result committed (\<lambda>_. Ok (JObj
              [(''token'', JStr plaintext), (''tokenId'', JStr tokenId), (''kind'', JStr (t_targetKind template)),
               (''ns'', JStr ns), (''label'', JStr label), (''expiresAt'', JStr expiresAt),
               (''issueTemplate'', JStr (t_id template)), (''issueTemplateVersion'', JStr (t_version template))])))))))))))
       (\<lambda>r. case r of Inl e \<Rightarrow> io_return (True, Throw e) | Inr x \<Rightarrow> io_return x)"

definition delegatedIssue :: "auth_platform \<Rightarrow> jsval \<Rightarrow> jsval io" where
  "delegatedIssue p input =
     io_bind (ensureBootstrap p) (\<lambda>_.
     io_bind (io_lift (delegated_input input)) (\<lambda>(issuerTokenId, templateId, template).
     io_bind (readRecord issuerTokenId) (\<lambda>issuer.
     io_bind (validateIssuerForDelegatedIssue p issuer templateId) (\<lambda>_.
     io_bind (createTokenLock (delegatedIssueLockKey issuerTokenId templateId)) (\<lambda>issueLock.
     io_bind now_ms (\<lambda>startedAt.
     io_bind (acquireTokenLock issueLock (num DELEGATED_ISSUE_LOCK_TTL_SECONDS)) (\<lambda>locked.
       if \<not> locked then io_lift (AuthPolicyError 409 ''delegated_issue_busy'')
       else io_bind (delegated_issue_locked p issueLock startedAt issuerTokenId templateId template) (\<lambda>(release, outcome).
         if release then io_bind (releaseTokenLock (Some issueLock)) (\<lambda>_. io_lift outcome) else io_lift outcome))))))))"

section \<open>Listing and revocation\<close>

definition list_tokens :: "auth_platform \<Rightarrow> jsval \<Rightarrow> jsval io" where
  "list_tokens p input =
     (let filterNs = jget input ''ns'' in
      io_bind (io_lift (if nullish filterNs then Ok () else assertTenantNs filterNs)) (\<lambda>_.
      io_bind (ensureBootstrap p) (\<lambda>_.
      io_bind (scanTokenRecords p) (\<lambda>records.
        let tokens = List.map_filter (\<lambda>(tokenId, r).
              if truthy filterNs \<and> opt_val (tr_ns r) \<noteq> filterNs then None
              else Some (tokenId, recordToListEntry tokenId r)) records in
        io_return (JObj [(''tokens'',
          JArr (map snd (toSorted (\<lambda>a b. p_localeCompare p (fst a) (fst b)) tokens)))])))))"

definition revoked_result :: "bool \<Rightarrow> jsval" where
  "revoked_result b = JObj [(''revoked'', JBool b)]"

text \<open>\<open>Number(delReply) === 1\<close> for the first reply of the transaction, which \<open>DEL\<close> gives as an integer.\<close>

definition first_reply_is_one :: "reply \<Rightarrow> bool" where
  "first_reply_is_one r = (case r of Many (x # _) \<Rightarrow> x = Number 1 | _ \<Rightarrow> False)"

definition revoke :: "auth_platform \<Rightarrow> jsval \<Rightarrow> jsval io" where
  "revoke p input =
     io_bind (ensureBootstrap p) (\<lambda>_.
       case jget input ''tokenId'' of
         JStr tokenId \<Rightarrow>
           if tokenId = [] then io_lift (AuthPolicyError 400 ''missing_token_id'')
           else if tokenId = BOOTSTRAP_TOKEN_ID then io_lift (AuthPolicyError 403 ''bootstrap_protected'')
           else io_bind (readRecord tokenId) (\<lambda>record.
             case record of
               None \<Rightarrow> io_return (revoked_result False)
             | Some r \<Rightarrow>
                 if tr_hash r = [] then io_return (revoked_result False)
                 else io_bind (redis_get (hashKey (tr_hash r))) (\<lambda>indexed.
                   if indexed = None \<or> indexed = Some [] then io_return (revoked_result False)
                   else if isRevoked (Some r)
                   then io_bind (redis_del [hashKey (tr_hash r)]) (\<lambda>_. io_return (revoked_result False))
                   else io_bind now_iso (\<lambda>now.
                     io_bind (multi_exec (multi_hSet (tokenKey tokenId) [(''revoked_at'', now)] (multi_del [hashKey (tr_hash r)] [])))
                       (\<lambda>result. io_return (revoked_result (first_reply_is_one result))))))
       | _ \<Rightarrow> io_lift (AuthPolicyError 400 ''missing_token_id''))"

section \<open>What a grant rests on\<close>

lemma refuse_not_ok [simp]: "jget (refuse st reason t) ''ok'' = JBool False"
  by (simp add: refuse_def)

lemma grant_ok [simp]: "jget (grant r t) ''ok'' = JBool True"
  by (simp add: grant_def)

text \<open>The conditions under which a record answers a request with a grant.\<close>

definition grants :: "auth_platform \<Rightarrow> jsval \<Rightarrow> jsval \<Rightarrow> string \<Rightarrow> int \<Rightarrow> token_record \<Rightarrow> bool" where
  "grants p action ns hash now r \<longleftrightarrow>
     tr_hash r = hash \<and> validateRecordShape (token_obj r) = Ok Allow \<and> \<not> isRevoked (Some r)
     \<and> \<not> isExpired (p_legacy p) (Some r) now
     \<and> evaluateAccess action ns (JStr (tr_kind r)) (opt_val (tr_ns r)) = Allow"

lemma ex_decision: "(\<exists>d. P d) \<longleftrightarrow> P Allow \<or> (\<exists>reason. P (Deny reason))"
  by (metis decision.exhaust)

lemma judge_grant:
  assumes "outcome (judge p action ns hash t r) tr (Ok v)" "jget v ''ok'' = JBool True"
  shows "\<exists>now. tr = [(NowMs, Number now)] \<and> grants p action ns hash now r \<and> v = grant r t"
  using assms
  by (auto simp: judge_def grants_def outcome_Ok ex_decision split: if_split_asm decision.split_asm)

lemma judge_runs:
  "grants p action ns hash now r \<Longrightarrow> outcome (judge p action ns hash t r) [(NowMs, Number now)] (Ok (grant r t))"
  by (auto simp: judge_def grants_def outcome_Ok)

abbreviation lookup_request :: "string \<Rightarrow> req" where
  "lookup_request hash \<equiv>
     Command ([''EVAL'', READ_TOKEN_BY_HASH_SCRIPT, show_nat 1] @ [hashKey hash] @ [TOKEN_KEY_PREFIX])"

lemma readRecordByHash_Ok:
  "outcome (readRecordByHash hash) tr (Ok x) \<Longrightarrow>
   \<exists>reply. tr = [(lookup_request hash, reply)] \<and> parseIndexedTokenReply reply = Ok x"
  by (auto simp: readRecordByHash_def redis_eval_def exec_def outcome_Ok)

lemma verify_hash_grant:
  assumes "outcome (verify_hash p action ns hash) tr (Ok v)" "jget v ''ok'' = JBool True"
  shows "\<exists>t0 reply now tokenId r. tr = t0 @ [(lookup_request hash, reply), (NowMs, Number now)]
    \<and> parseIndexedTokenReply reply = Ok (Some (tokenId, Some r))
    \<and> grants p action ns hash now r \<and> v = grant r tokenId"
proof -
  from assms(1) obtain t1 t2 t3 t4 d c loaded loaded' where
    tr: "tr = t1 @ t2 @ t3 @ t4"
    and first: "outcome (readRecordByHash hash) t2 (Ok loaded)"
    and again: "outcome (if loaded = None \<and> c \<and> hash = d then io_bind (ensureBootstrap p) (\<lambda>_. readRecordByHash hash)
        else io_return loaded) t3 (Ok loaded')"
    and rest: "outcome (case loaded' of None \<Rightarrow> io_return (refuse 401 ''unknown_token'' None)
        | Some (tokenId, None) \<Rightarrow> io_return (refuse 401 ''unknown_token'' None)
        | Some (tokenId, Some r) \<Rightarrow> judge p action ns hash tokenId r) t4 (Ok v)"
    unfolding verify_hash_def outcome_bind_Ok split_paired_Ex prod.case by blast
  obtain tokenId r where l: "loaded' = Some (tokenId, Some r)"
    using rest assms(2) by (auto split: option.split_asm prod.split_asm)
  with rest have "outcome (judge p action ns hash tokenId r) t4 (Ok v)" by simp
  from judge_grant [OF this assms(2)] obtain now where now: "t4 = [(NowMs, Number now)]"
    "grants p action ns hash now r" "v = grant r tokenId" by blast
  obtain u reply where look: "t2 @ t3 = u @ [(lookup_request hash, reply)]"
    "parseIndexedTokenReply reply = Ok loaded'"
  proof (cases "loaded = None \<and> c \<and> hash = d")
    case True
    with again obtain u1 u2 where "t3 = u1 @ u2" "outcome (readRecordByHash hash) u2 (Ok loaded')"
      by (auto simp: outcome_bind_Ok)
    with readRecordByHash_Ok that [of "t2 @ u1"] show ?thesis by fastforce
  next
    case False
    with again have "t3 = []" "loaded' = loaded" by simp_all
    with readRecordByHash_Ok [OF first] that [of "[]"] show ?thesis by auto
  qed
  then have "tr = (t1 @ u) @ [(lookup_request hash, reply), (NowMs, Number now)]"
    using tr now(1) by simp
  with look(2) l now show ?thesis by blast
qed

section \<open>Records survive storage\<close>

text \<open>The hash reply that holds the given fields.\<close>

definition field_replies :: "(string \<times> string) list \<Rightarrow> reply list" where
  "field_replies ps = concat (map (\<lambda>(k, v). [Text k, Text v]) ps)"

definition plain_fields :: "(string \<times> string) list \<Rightarrow> bool" where
  "plain_fields ps \<longleftrightarrow> distinct (map fst ps) \<and> list_all (\<lambda>(k, _). k \<noteq> [] \<and> k \<noteq> ''__proto__'') ps"

lemma field_replies_simps [simp]:
  "field_replies [] = []" "field_replies ((k, v) # ps) = Text k # Text v # field_replies ps"
  by (simp_all add: field_replies_def)

lemma even_field_replies [simp]: "even (length (field_replies ps))"
  by (induction ps) auto

lemma indexed_fields_replies:
  "plain_fields ps \<Longrightarrow> fst ` set ps \<inter> fst ` set out = {} \<Longrightarrow>
   indexed_fields (field_replies ps) out = Ok (out @ map (\<lambda>(k, v). (k, Some v)) ps)"
proof (induction ps arbitrary: out)
  case (Cons kv ps)
  obtain k v where kv: "kv = (k, v)" by (cases kv)
  have "map_of out k = None" using Cons.prems(2) kv by (auto simp: map_of_eq_None_iff)
  with Cons kv show ?case by (auto simp: plain_fields_def omap_set_fresh)
qed simp

lemma hash_fields_stored [simp]: "hash_fields (map (\<lambda>(k, v). (k, Some v)) ps) = ps"
  by (induction ps) (auto simp: hash_fields_def List.map_filter_simps)

lemma parse_indexed_reply:
  assumes "plain_fields ps" "tokenId \<noteq> []"
  shows "parseIndexedTokenReply (Many (Number 1 # Text tokenId # field_replies ps)) = Ok (Some (tokenId, parseTokenRecord ps))"
  using indexed_fields_replies [OF assms(1), of "[]"] assms(2) by (simp add: parseIndexedTokenReply_def)

lemma parseTokenRecord_cong:
  assumes "map_of ps = map_of qs"
  shows "parseTokenRecord ps = parseTokenRecord qs"
  unfolding parseTokenRecord_def present_def assms ..

lemma map_of_same_set: "distinct (map fst ps) \<Longrightarrow> distinct (map fst qs) \<Longrightarrow> set ps = set qs \<Longrightarrow> map_of ps = map_of qs"
  by (metis map_of_inject_set)

text \<open>The fields an \<open>HSET\<close> built from optional values stores.\<close>

definition stored_fields :: "(string \<times> string option) list \<Rightarrow> (string \<times> string) list" where
  "stored_fields fs = List.map_filter (\<lambda>(f, v). map_option (Pair f) v) fs"

lemma buildHsetCmd_stored: "buildHsetCmd key fs = buildHSetArgs key (stored_fields fs)"
  by (induction fs) (auto simp: buildHsetCmd_def buildHSetArgs_def stored_fields_def List.map_filter_simps split: option.split)

lemma hashToken_hex: "length (p_sha256 p (utf8_encode s)) = 32 \<Longrightarrow> rx_test SHA256_HEX_RE (hashToken (p_sha256 p) s)"
  using bytesToHex_digits unfolding SHA256_HEX_RE_def rx_test_rep_cls hashToken_def by (simp del: in_cls_simps)

text \<open>The record that an issue request leaves in storage.\<close>

definition issued_record :: "string \<Rightarrow> string \<Rightarrow> issue_request \<Rightarrow> token_record" where
  "issued_record hash now q =
     \<lparr>tr_hash = hash, tr_kind = iq_kind q, tr_ns = iq_ns q,
      tr_label = (if iq_label q = Some [] then None else iq_label q),
      tr_created_at = Some now, tr_created_by = Some (iq_issuer q), tr_expires_at = iq_expiresAt q,
      tr_revoked_at = None, tr_expired_at = None,
      tr_issue_templates = map_option (\<lambda>ids. stringify (JArr (map JStr ids))) (iq_templates q),
      tr_issue_template = None, tr_issue_template_version = None\<rparr>"

text \<open>What a validated request satisfies.\<close>

definition request_ok :: "issue_request \<Rightarrow> bool" where
  "request_ok q \<longleftrightarrow>
     (\<exists>role. map_of ROLES (iq_kind q) = Some role \<and> bound_ok role (iq_ns q))
     \<and> (iq_kind q = ''token-issuer'' \<longrightarrow> (\<exists>ids. iq_templates q = Some ids \<and> template_ids ids))
     \<and> (iq_kind q \<noteq> ''token-issuer'' \<longrightarrow> iq_templates q = None)
     \<and> (\<forall>e. iq_expiresAt q = Some e \<longrightarrow> (\<exists>t. year_range t \<and> e = toISOString t)) \<and> iq_issuer q \<noteq> []"

lemma validate_issue_Ok:
  assumes "outcome (validate_issue input) tr (Ok q)"
  shows "\<exists>now. tr = [(NowMs, Number now)] \<and> request_ok q
    \<and> validateIssueInput (jget input ''kind'') (jget input ''ns'') = Ok (iq_kind q, iq_ns q)
    \<and> validateExpiresAt (jget input ''expiresAt'') now = Ok (iq_expiresAt q)"
proof -
  from assms obtain now templates where
    tr: "tr = [(NowMs, Number now)]"
    and kind: "validateIssueInput (jget input ''kind'') (jget input ''ns'') = Ok (iq_kind q, iq_ns q)"
    and temp: "issue_templates_of (iq_kind q) input = Ok (iq_templates q)"
    and exp: "validateExpiresAt (jget input ''expiresAt'') now = Ok (iq_expiresAt q)"
    and issuer: "issue_issuer_of (jget input ''issuerTokenId'') = Ok (iq_issuer q)"
    by (auto simp: validate_issue_def outcome_Ok split: if_split_asm)
  have "iq_kind q = ''token-issuer'' \<Longrightarrow> \<exists>ids. iq_templates q = Some ids \<and> template_ids ids"
    using temp validateIssueTemplatesInput_Ok by (auto simp: issue_templates_of_def bind_result_eq_Inr) metis
  moreover have "iq_kind q \<noteq> ''token-issuer'' \<Longrightarrow> iq_templates q = None"
    using temp by (auto simp: issue_templates_of_def split: if_split_asm)
  moreover have "\<forall>e. iq_expiresAt q = Some e \<longrightarrow> (\<exists>t. year_range t \<and> e = toISOString t)"
    using exp by (metis validateExpiresAt_Some)
  moreover have "iq_issuer q \<noteq> []" using issuer by (auto simp: issue_issuer_of_def split: jsval.split_asm if_split_asm)
  ultimately show ?thesis using tr kind exp validateIssueInput_Ok [OF kind] by (simp add: request_ok_def)
qed

lemma toISOString_nonempty: "year_range t \<Longrightarrow> toISOString t \<noteq> []"
  by (simp add: toISOString_def Let_def)

lemma bound_ns_nonempty: "bound_ok role (Some ns) \<Longrightarrow> ns \<noteq> []"
proof -
  have "[] \<notin> set PLATFORM_TIER_RESERVED_NS" by code_simp
  then show "bound_ok role (Some ns) \<Longrightarrow> ns \<noteq> []"
    using tenant_ns_string(1) by (auto simp: bound_ok_def split: bound_ns_kind.split_asm)
qed

lemma bound_ns_present: "bound_ok role ns \<Longrightarrow> ns \<noteq> None \<longleftrightarrow> boundNsKind role \<noteq> BoundNone"
  by (auto simp: bound_ok_def split: bound_ns_kind.split_asm)

lemma stored_simps [simp]:
  "stored_fields [] = []" "stored_fields ((k, Some v) # fs) = (k, v) # stored_fields fs"
  "stored_fields ((k, None) # fs) = stored_fields fs" "stored_fields (fs @ gs) = stored_fields fs @ stored_fields gs"
  by (simp_all add: stored_fields_def List.map_filter_simps List.map_filter_def)

lemma stringify_nonempty: "stringify (JArr vs) \<noteq> []"
  by simp

lemma issue_fields_stored:
  assumes "request_ok q" "now \<noteq> []"
  shows "plain_fields (stored_fields (issue_fields hash now q))"
    and "parseTokenRecord (stored_fields (issue_fields hash now q)) = Some (issued_record hash now q)"
proof -
  obtain role where role: "map_of ROLES (iq_kind q) = Some role" "bound_ok role (iq_ns q)"
    using assms(1) by (auto simp: request_ok_def)
  have kind: "iq_kind q \<noteq> []" using role(1) by (auto simp: ROLES_def)
  have issuer: "iq_issuer q \<noteq> []" using assms(1) by (simp add: request_ok_def)
  have exp: "iq_expiresAt q \<noteq> Some []"
    using assms(1) toISOString_nonempty unfolding request_ok_def by metis
  have ns: "stored_fields (if boundNsKind (the (map_of ROLES (iq_kind q))) \<noteq> BoundNone then [(''ns'', iq_ns q)] else [])
      = (case iq_ns q of None \<Rightarrow> [] | Some n \<Rightarrow> [(''ns'', n)])"
    using role bound_ns_present [OF role(2)] by (auto split: option.split)
  have ns_ne: "iq_ns q \<noteq> Some []" using role(2) bound_ns_nonempty by metis
  have fs: "stored_fields (issue_fields hash now q) =
      [(''hash'', hash), (''kind'', iq_kind q), (''created_at'', now), (''created_by'', iq_issuer q)]
      @ (case iq_ns q of None \<Rightarrow> [] | Some n \<Rightarrow> [(''ns'', n)])
      @ (case iq_label q of None \<Rightarrow> [] | Some l \<Rightarrow> if l = [] then [] else [(''label'', l)])
      @ (case iq_expiresAt q of None \<Rightarrow> [] | Some e \<Rightarrow> [(''expires_at'', e)])
      @ (case iq_templates q of None \<Rightarrow> [] | Some ids \<Rightarrow> [(''issue_templates'', stringify (JArr (map JStr ids)))])"
    unfolding issue_fields_def stored_simps ns using exp
    by (auto simp: truthy_pair_def split: option.split)
  show "plain_fields (stored_fields (issue_fields hash now q))"
    unfolding fs plain_fields_def by (auto split: option.split)
  show "parseTokenRecord (stored_fields (issue_fields hash now q)) = Some (issued_record hash now q)"
    unfolding fs parseTokenRecord_def present_def issued_record_def
    using kind issuer exp ns_ne assms(2)
    by (cases "iq_ns q"; cases "iq_label q"; cases "iq_expiresAt q"; cases "iq_templates q") simp_all
qed

lemma issued_record_shape:
  assumes "request_ok q" "year_range t" "rx_test SHA256_HEX_RE hash"
  shows "validateRecordShape (token_obj (issued_record hash (toISOString t) q)) = Ok Allow"
proof -
  have "isCanonicalStoredTimestamp (toISOString t)" using assms(2) canonical_timestamp_iff by blast
  moreover have "canonical_opt (iq_expiresAt q)"
    using assms(1) canonical_timestamp_iff by (cases "iq_expiresAt q") (auto simp: request_ok_def)
  ultimately show ?thesis
    unfolding validateRecordShape_iff using assms(1,3) stored_templates_round_trip
    by (auto simp: request_ok_def issued_record_def)
qed

lemma issued_record_expiry:
  assumes "request_ok q"
  shows "isExpired legacy (Some (issued_record hash now q)) later \<longleftrightarrow>
    (\<exists>t. year_range t \<and> iq_expiresAt q = Some (toISOString t) \<and> t \<le> later)"
proof (cases "iq_expiresAt q")
  case (Some e)
  then obtain t where t: "year_range t" "e = toISOString t" using assms by (auto simp: request_ok_def)
  have "isExpired legacy (Some (issued_record hash now q)) later \<longleftrightarrow> t \<le> later"
    using t toISOString_nonempty [OF t(1)]
    by (simp add: isExpired_def issued_record_def Some Date_parse_def toISOString_form parse_toISOString)
  moreover have "(\<exists>u. year_range u \<and> Some e = Some (toISOString u) \<and> u \<le> later) \<longleftrightarrow> t \<le> later"
    using t toISOString_inject by (metis option.inject)
  ultimately show ?thesis using Some by simp
qed (simp add: isExpired_def issued_record_def)

lemma base64urlEncode_payload: "base64urlEncode bs = map url_char (b64_payload bs)"
proof -
  have url: "in_cls b64_alphabet c \<Longrightarrow> url_char c \<noteq> eq_char" for c
    using eq_char_alphabet by (auto simp: url_char_def eq_char_def)
  have "c \<noteq> eq_char" if "c \<in> set (rev (map url_char (b64_payload bs)))" for c
    using that url payload_alphabet by auto
  then have "dropWhile (\<lambda>c. c = eq_char) (rev (map url_char (b64_payload bs))) = rev (map url_char (b64_payload bs))"
    by (cases "rev (map url_char (b64_payload bs))") simp_all
  moreover have "url_char eq_char = eq_char" by (simp add: url_char_def eq_char_def)
  moreover have "dropWhile (\<lambda>c. c = eq_char) (replicate k eq_char @ xs) = dropWhile (\<lambda>c. c = eq_char) xs" for k xs
    by (induction k) simp_all
  ultimately show ?thesis
    unfolding base64urlEncode_def encode_payload by simp
qed

lemma length_payload: "length (b64_payload bs) = (4 * length bs + 2) div 3"
  by (induction bs rule: b64_payload.induct) simp_all

lemma token_id_length: "length bs = 16 \<Longrightarrow> length (base64urlEncode bs) = 22"
  by (simp add: base64urlEncode_payload length_payload)

lemma new_token_id_Ok:
  assumes "outcome new_token_id tr (Ok i)"
  shows "\<exists>buf. tr = [(RandomBytes 16, Text buf)] \<and> length i = 22 \<and> i = base64urlEncode buf"
  using assms token_id_length
  by (auto simp: new_token_id_def outcome_Ok Let_def split: option.split_asm if_split_asm)

lemma issue_Ok:
  assumes "outcome (issue p input) tr (Ok v)"
  obtains t0 q now0 tokenId plaintext now a where
    "v = JObj [(''token'', JStr plaintext), (''tokenId'', JStr tokenId)]" "request_ok q"
    "validateIssueInput (jget input ''kind'') (jget input ''ns'') = Ok (iq_kind q, iq_ns q)"
    "validateExpiresAt (jget input ''expiresAt'') now0 = Ok (iq_expiresAt q)"
    "length tokenId = 22" "plaintext \<noteq> []" "(NowMs, Number now) \<in> set tr"
    "last tr = (Transaction [buildHsetCmd (tokenKey tokenId) (issue_fields (hashToken (p_sha256 p) plaintext) (toISOString now) q),
        [''SET'', hashKey (hashToken (p_sha256 p) plaintext), tokenId]], a)"
proof -
  from assms obtain t1 t2 t3 t4 t5 t6 q tokenId plaintext stamp a where
    tr: "tr = t1 @ t2 @ t3 @ t4 @ t5 @ t6"
    and q: "outcome (validate_issue input) t2 (Ok q)"
    and i: "outcome new_token_id t3 (Ok tokenId)"
    and pl: "outcome new_plaintext t4 (Ok plaintext)"
    and st: "outcome now_iso t5 (Ok stamp)"
    and ex: "outcome (multiExec [buildHsetCmd (tokenKey tokenId) (issue_fields (hashToken (p_sha256 p) plaintext) stamp q),
        [''SET'', hashKey (hashToken (p_sha256 p) plaintext), tokenId]]) t6 (Ok a)"
    and v: "v = JObj [(''token'', JStr plaintext), (''tokenId'', JStr tokenId)]"
    unfolding issue_def outcome_bind_Ok Let_def by fastforce
  from st obtain now where now: "stamp = toISOString now" "(NowMs, Number now) \<in> set t5"
    by (auto simp: now_iso_def outcome_Ok iso_of_def split: if_split_asm)
  from pl have "plaintext \<noteq> []"
    by (auto simp: new_plaintext_def outcome_Ok generatePlaintextToken_def base64urlEncode_payload
        dest!: arg_cong [where f = length] simp: length_payload)
  moreover have "last tr = (Transaction [buildHsetCmd (tokenKey tokenId) (issue_fields (hashToken (p_sha256 p) plaintext) (toISOString now) q),
        [''SET'', hashKey (hashToken (p_sha256 p) plaintext), tokenId]], a)"
    using ex tr now(1) by (auto simp: multiExec_def outcome_ask_Ok)
  ultimately show thesis
    using that v validate_issue_Ok [OF q] new_token_id_Ok [OF i] now tr by auto
qed

definition not_expired :: "jsval \<Rightarrow> int \<Rightarrow> bool" where
  "not_expired expiresAt now =
     (case expiresAt of JStr s \<Rightarrow> (case parse_iso s of Some t \<Rightarrow> now < t | None \<Rightarrow> True) | _ \<Rightarrow> True)"

lemma request_not_expired:
  assumes "request_ok q" "validateExpiresAt (jget input ''expiresAt'') now0 = Ok (iq_expiresAt q)"
    "not_expired (jget input ''expiresAt'') now"
  shows "\<not> isExpired legacy (Some (issued_record hash stamp q)) now"
proof
  assume "isExpired legacy (Some (issued_record hash stamp q)) now"
  then obtain t where t: "year_range t" "iq_expiresAt q = Some (toISOString t)" "t \<le> now"
    using issued_record_expiry [OF assms(1)] by blast
  with assms(2) obtain s u where "jget input ''expiresAt'' = JStr s" "parse_iso s = Some u" "toISOString t = toISOString u" "year_range u"
    by (metis validateExpiresAt_Some)
  with t assms(3) toISOString_inject show False by (auto simp: not_expired_def)
qed

lemma issued_principal:
  assumes "request_ok q"
  shows "principal_of (issued_record hash stamp q) =
    JObj ((''kind'', JStr (iq_kind q)) # (case iq_ns q of None \<Rightarrow> [] | Some n \<Rightarrow> [(''ns'', JStr n)]))"
  using assms bound_ns_present
  by (auto simp: principal_of_def issued_record_def request_ok_def split: option.split) blast+

lemma verify_runs:
  assumes "token \<noteq> []" "boot \<noteq> []" "parseIndexedTokenReply reply = Ok (Some (tokenId, Some r))"
    and "grants p action (string_or_undefined target) (hashToken (p_sha256 p) token) now r"
    and "\<And>e. reply \<noteq> Failed e"
  shows "outcome (verify p (JObj [(''token'', JStr token), (''action'', action), (''ns'', target)]))
    [(ModuleGet verifyBootstrapHash, Text boot), (lookup_request (hashToken (p_sha256 p) token), reply), (NowMs, Number now)]
    (Ok (grant r tokenId))"
proof -
  define hash where "hash = hashToken (p_sha256 p) token"
  have 1: "outcome (ensureBootstrapForVerify p) [(ModuleGet verifyBootstrapHash, Text boot)] (Ok (boot, True))"
    unfolding ensureBootstrapForVerify_def
    using outcome_bindI [OF module_get_runs, of _ boot "[]" "Ok (boot, True)"] assms(2) by fastforce
  have "outcome (redis_eval READ_TOKEN_BY_HASH_SCRIPT [hashKey hash] [TOKEN_KEY_PREFIX]) [(lookup_request hash, reply)] (Ok reply)"
    using assms(5) by (simp add: redis_eval_def exec_def outcome_ask_Ok)
  from outcome_bindI [OF this, of "\<lambda>reply. io_lift (parseIndexedTokenReply reply)" "[]"] assms(3)
  have 2: "outcome (readRecordByHash hash) [(lookup_request hash, reply)] (Ok (Some (tokenId, Some r)))"
    by (simp add: readRecordByHash_def)
  note 3 = judge_runs [OF assms(4), folded hash_def, of tokenId]
  have "outcome (verify_hash p action (string_or_undefined target) hash)
      ([(ModuleGet verifyBootstrapHash, Text boot)] @ [(lookup_request hash, reply)] @ [] @ [(NowMs, Number now)]) (Ok (grant r tokenId))"
    unfolding verify_hash_def
    by (rule outcome_bindI [OF 1], unfold prod.case, rule outcome_bindI [OF 2],
        rule outcome_bindI [where x = "Some (tokenId, Some r)"]) (use 3 in simp_all)
  then show ?thesis using assms(1) by (simp add: verify_def hash_def)
qed

lemma stored_record_verifies:
  assumes q: "request_ok q" and exp: "validateExpiresAt (jget input ''expiresAt'') now0 = Ok (iq_expiresAt q)"
    and stamp: "year_range stamp" and hash: "hash = hashToken (p_sha256 p) plaintext" "rx_test SHA256_HEX_RE hash"
    and ids: "tokenId \<noteq> []" "plaintext \<noteq> []"
    and ps: "distinct (map fst ps)" "set ps = set (stored_fields (issue_fields hash (toISOString stamp) q))"
    and now: "boot \<noteq> []" "not_expired (jget input ''expiresAt'') now"
    and allow: "evaluateAccess action (string_or_undefined target) (JStr (iq_kind q)) (opt_val (iq_ns q)) = Allow"
  shows "outcome (verify p (JObj [(''token'', JStr plaintext), (''action'', action), (''ns'', target)]))
    [(ModuleGet verifyBootstrapHash, Text boot),
     (lookup_request hash, Many (Number 1 # Text tokenId # field_replies ps)), (NowMs, Number now)]
    (Ok (JObj [(''ok'', JBool True), (''status'', JNum (num 200)),
      (''principal'', JObj ((''kind'', JStr (iq_kind q)) # (case iq_ns q of None \<Rightarrow> [] | Some n \<Rightarrow> [(''ns'', JStr n)]))),
      (''tokenId'', JStr tokenId)]))"
proof -
  define r where "r = issued_record hash (toISOString stamp) q"
  note stored = issue_fields_stored [OF q toISOString_nonempty [OF stamp], of hash, folded r_def]
  have shape: "validateRecordShape (token_obj r) = Ok Allow"
    unfolding r_def by (rule issued_record_shape [OF q stamp hash(2)])
  have r: "tr_hash r = hash" "tr_kind r = iq_kind q" "tr_ns r = iq_ns q" "\<not> isRevoked (Some r)"
    by (simp_all add: r_def issued_record_def isRevoked_def)
  have d: "distinct (map fst (stored_fields (issue_fields hash (toISOString stamp) q)))"
    using stored(1) by (simp add: plain_fields_def)
  have "plain_fields ps" using stored(1) ps by (simp add: plain_fields_def list_all_iff)
  moreover have "parseTokenRecord ps = Some r"
    using parseTokenRecord_cong [OF map_of_same_set [OF ps(1) d ps(2)]] stored(2) by simp
  ultimately have parse: "parseIndexedTokenReply (Many (Number 1 # Text tokenId # field_replies ps)) = Ok (Some (tokenId, Some r))"
    using parse_indexed_reply [of ps tokenId] ids(1) by auto
  have "\<not> isExpired (p_legacy p) (Some r) now"
    unfolding r_def by (rule request_not_expired [OF q exp now(2)])
  then have "grants p action (string_or_undefined target) hash now r"
    using shape r allow by (simp add: grants_def)
  from verify_runs [OF ids(2) now(1) parse this [unfolded hash(1)], folded hash(1)]
  have "outcome (verify p (JObj [(''token'', JStr plaintext), (''action'', action), (''ns'', target)]))
    [(ModuleGet verifyBootstrapHash, Text boot),
     (lookup_request hash, Many (Number 1 # Text tokenId # field_replies ps)), (NowMs, Number now)] (Ok (grant r tokenId))"
    by simp
  then show ?thesis unfolding grant_def r_def issued_principal [OF q] .
qed

section \<open>Properties\<close>

text \<open>
  C1: a grant rests on a live record. Whatever the replies of the server and however other
  requests interleave, if \<open>verify\<close> answers with a grant then the last two requests of the run are
  the lookup of the digest of the presented token and the clock; the reply holds a record that
  carries this very digest, has a valid shape, is neither revoked nor expired at that time, and
  whose role and namespace pass the access decision for the requested action and namespace; the
  granted principal is that of the record.
\<close>

theorem verify_grant_sound:
  assumes "outcome (verify p input) tr (Ok v)" "jget v ''ok'' = JBool True"
  shows "\<exists>token t0 reply now tokenId r. jget input ''token'' = JStr token
    \<and> tr = t0 @ [(lookup_request (hashToken (p_sha256 p) token), reply), (NowMs, Number now)]
    \<and> parseIndexedTokenReply reply = Ok (Some (tokenId, Some r))
    \<and> tr_hash r = hashToken (p_sha256 p) token \<and> validateRecordShape (token_obj r) = Ok Allow
    \<and> \<not> isRevoked (Some r) \<and> \<not> isExpired (p_legacy p) (Some r) now
    \<and> evaluateAccess (jget input ''action'') (string_or_undefined (jget input ''ns'')) (JStr (tr_kind r)) (opt_val (tr_ns r)) = Allow
    \<and> v = grant r tokenId"
proof -
  obtain token where token: "jget input ''token'' = JStr token"
    and run: "outcome (verify_hash p (jget input ''action'') (string_or_undefined (jget input ''ns''))
      (hashToken (p_sha256 p) token)) tr (Ok v)"
    using assms by (auto simp: verify_def split: jsval.split_asm if_split_asm)
  from verify_hash_grant [OF run assms(2)] token show ?thesis unfolding grants_def by blast
qed

definition sample_platform :: auth_platform where
  "sample_platform = \<lparr>p_sha256 = (\<lambda>_. replicate 32 (CHR 0x00)), p_legacy = (\<lambda>_. None),
     p_localeCompare = (\<lambda>_ _. 0), p_bootstrap = JStr ''seed'', p_scan_pages = 1\<rparr>"

definition zero_hash :: string where
  "zero_hash = replicate 64 (CHR ''0'')"

lemma sample_hash [simp]: "hashToken (p_sha256 sample_platform) t = zero_hash"
proof -
  have "bytesToHex (replicate 32 (CHR 0x00)) = zero_hash" by code_simp
  then show ?thesis by (simp add: hashToken_def sample_platform_def)
qed

theorem verify_grant_sound_witness:
  "\<exists>reply now tokenId r. parseIndexedTokenReply reply = Ok (Some (tokenId, Some r))
    \<and> tr_hash r = zero_hash \<and> \<not> isExpired (p_legacy sample_platform) (Some r) now
    \<and> evaluateAccess (JStr ''system.reload'') JUndef (JStr (tr_kind r)) (opt_val (tr_ns r)) = Allow"
proof -
  let ?in = "JObj [(''token'', JStr ''t''), (''action'', JStr ''system.reload'')]"
  let ?rs = "[Text ''h'', Many [Number 1, Text ''id'', Text ''hash'', Text zero_hash, Text ''kind'', Text ''ops''], Number 5]"
  obtain tr v where run: "run_io (verify sample_platform ?in) ?rs = Some (tr, Ok v)" and ok: "jget v ''ok'' = JBool True"
  proof -
    have "(case run_io (verify sample_platform ?in) ?rs of Some (tr, Inr v) \<Rightarrow> jget v ''ok'' = JBool True | _ \<Rightarrow> False)"
      by code_simp
    then show ?thesis using that by (auto split: option.split_asm prod.split_asm sum.split_asm)
  qed
  show ?thesis
    using verify_grant_sound [OF run_io_outcome [OF run] ok] by (auto simp: string_or_undefined_def)
qed

text \<open>
  C9: an issued token verifies. If \<open>issue\<close> returns a token, its last request is one transaction
  that stores a record under the new identifier and the identifier under the digest of the token,
  each field once; and whenever the lookup later returns the stored fields, in any order, a
  verification of that token before its expiry grants every action the access decision allows the
  requested role and namespace, with exactly that principal. The digest has 32 bytes, the clock
  shows a year of four digits, and the bootstrap hash is cached.
\<close>

theorem issued_token_verifies:
  assumes "\<And>bs. length (p_sha256 p bs) = 32" "outcome (issue p input) tr (Ok v)"
    and "\<forall>t. (NowMs, Number t) \<in> set tr \<longrightarrow> year_range t"
  shows "\<exists>plaintext tokenId fs kind ns a.
    v = JObj [(''token'', JStr plaintext), (''tokenId'', JStr tokenId)]
    \<and> last tr = (Transaction [buildHsetCmd (tokenKey tokenId) fs,
        [''SET'', hashKey (hashToken (p_sha256 p) plaintext), tokenId]], a)
    \<and> tokenId \<noteq> BOOTSTRAP_TOKEN_ID \<and> distinct (map fst (stored_fields fs))
    \<and> validateIssueInput (jget input ''kind'') (jget input ''ns'') = Ok (kind, ns)
    \<and> (\<forall>ps boot action target now.
        distinct (map fst ps) \<and> set ps = set (stored_fields fs) \<and> boot \<noteq> []
        \<and> not_expired (jget input ''expiresAt'') now
        \<and> evaluateAccess action (string_or_undefined target) (JStr kind) (opt_val ns) = Allow \<longrightarrow>
        outcome (verify p (JObj [(''token'', JStr plaintext), (''action'', action), (''ns'', target)]))
          [(ModuleGet verifyBootstrapHash, Text boot),
           (lookup_request (hashToken (p_sha256 p) plaintext), Many (Number 1 # Text tokenId # field_replies ps)),
           (NowMs, Number now)]
          (Ok (JObj [(''ok'', JBool True), (''status'', JNum (num 200)),
             (''principal'', JObj ((''kind'', JStr kind) # (case ns of None \<Rightarrow> [] | Some n \<Rightarrow> [(''ns'', JStr n)]))),
             (''tokenId'', JStr tokenId)])))"
proof -
  from issue_Ok [OF assms(2)] obtain q now0 tokenId plaintext stamp a where
    v: "v = JObj [(''token'', JStr plaintext), (''tokenId'', JStr tokenId)]" and q: "request_ok q"
    and kind: "validateIssueInput (jget input ''kind'') (jget input ''ns'') = Ok (iq_kind q, iq_ns q)"
    and exp: "validateExpiresAt (jget input ''expiresAt'') now0 = Ok (iq_expiresAt q)"
    and ids: "length tokenId = 22" "plaintext \<noteq> []" and clock: "(NowMs, Number stamp) \<in> set tr"
    and tr: "last tr = (Transaction [buildHsetCmd (tokenKey tokenId) (issue_fields (hashToken (p_sha256 p) plaintext) (toISOString stamp) q),
        [''SET'', hashKey (hashToken (p_sha256 p) plaintext), tokenId]], a)" .
  define hash where "hash = hashToken (p_sha256 p) plaintext"
  define fs where "fs = issue_fields hash (toISOString stamp) q"
  have stamp: "year_range stamp" using clock assms(3) by blast
  have hex: "rx_test SHA256_HEX_RE hash" unfolding hash_def by (rule hashToken_hex [OF assms(1)])
  have stored: "distinct (map fst (stored_fields fs))"
    using issue_fields_stored(1) [OF q toISOString_nonempty [OF stamp]] by (simp add: fs_def plain_fields_def)
  have tid: "tokenId \<noteq> []" using ids(1) by auto
  note verifies = stored_record_verifies [OF q exp stamp hash_def hex tid ids(2), folded fs_def]
  have "tokenId \<noteq> BOOTSTRAP_TOKEN_ID" using ids(1) by (auto simp: BOOTSTRAP_TOKEN_ID_def)
  then show ?thesis
    using v kind tr [folded hash_def, folded fs_def] stored verifies
    by - (rule exI [of _ plaintext], rule exI [of _ tokenId], rule exI [of _ fs], rule exI [of _ "iq_kind q"],
        rule exI [of _ "iq_ns q"], rule exI [of _ a], simp flip: hash_def)
qed

theorem issued_token_verifies_witness:
  "\<exists>plaintext tokenId tr.
     outcome (verify sample_platform (JObj [(''token'', JStr plaintext), (''action'', JStr ''worker.list''), (''ns'', JStr ''acme'')])) tr
       (Ok (JObj [(''ok'', JBool True), (''status'', JNum (num 200)),
          (''principal'', JObj [(''kind'', JStr ''ns''), (''ns'', JStr ''acme'')]), (''tokenId'', JStr tokenId)]))"
proof -
  let ?in = "JObj [(''ns'', JStr ''acme''), (''issuerTokenId'', JStr ''bootstrap'')]"
  let ?rs = "[Text zero_hash, NoReply, Number 0, Text (replicate 16 (CHR 0x01)), Text (replicate 32 (CHR 0x02)), Number 0, Many []]"
  have sha: "length (p_sha256 sample_platform bs) = 32" for bs by (simp add: sample_platform_def)
  obtain tr v where run: "run_io (issue sample_platform ?in) ?rs = Some (tr, Ok v)"
    and clock: "list_all (\<lambda>(q, a). case a of Number t \<Rightarrow> year_range t | _ \<Rightarrow> True) tr"
  proof -
    have "(case run_io (issue sample_platform ?in) ?rs of
        Some (tr, Inr v) \<Rightarrow> list_all (\<lambda>(q, a). case a of Number t \<Rightarrow> year_range t | _ \<Rightarrow> True) tr | _ \<Rightarrow> False)"
      by code_simp
    then show ?thesis using that by (auto split: option.split_asm prod.split_asm sum.split_asm)
  qed
  from clock have clock': "\<forall>t. (NowMs, Number t) \<in> set tr \<longrightarrow> year_range t" by (auto simp: list_all_iff)
  have kind: "validateIssueInput (jget ?in ''kind'') (jget ?in ''ns'') = Ok (''ns'', Some ''acme'')" by code_simp
  have allow: "evaluateAccess (JStr ''worker.list'') (string_or_undefined (JStr ''acme'')) (JStr ''ns'') (opt_val (Some ''acme'')) = Allow"
    by code_simp
  have never: "not_expired (jget ?in ''expiresAt'') 7" by (simp add: not_expired_def)
  from issued_token_verifies [OF sha run_io_outcome [OF run] clock'] obtain plaintext tokenId fs where
    "distinct (map fst (stored_fields fs))"
    "\<forall>ps boot action target now.
        distinct (map fst ps) \<and> set ps = set (stored_fields fs) \<and> boot \<noteq> []
        \<and> not_expired (jget ?in ''expiresAt'') now
        \<and> evaluateAccess action (string_or_undefined target) (JStr ''ns'') (opt_val (Some ''acme'')) = Allow \<longrightarrow>
        outcome (verify sample_platform (JObj [(''token'', JStr plaintext), (''action'', action), (''ns'', target)]))
          [(ModuleGet verifyBootstrapHash, Text boot),
           (lookup_request (hashToken (p_sha256 sample_platform) plaintext), Many (Number 1 # Text tokenId # field_replies ps)),
           (NowMs, Number now)]
          (Ok (JObj [(''ok'', JBool True), (''status'', JNum (num 200)),
             (''principal'', JObj ((''kind'', JStr ''ns'') # (case Some ''acme'' of None \<Rightarrow> [] | Some n \<Rightarrow> [(''ns'', JStr n)]))),
             (''tokenId'', JStr tokenId)]))"
    unfolding kind by (auto simp only: sum.inject prod.inject)
  from this(2) [rule_format, of "stored_fields fs" zero_hash 7 "JStr ''worker.list''" "JStr ''acme''"] this(1) never allow
  show ?thesis by (auto simp: zero_hash_def)
qed

end
