(* ===== verification/Gateway.thy ===== *)
theory Gateway
  imports Worker_Contract
begin

text \<open>
  Request routing: \<^verbatim>\<open>shared/worker-id.js\<close>, \<^verbatim>\<open>shared/route-projection.js\<close>, \<^verbatim>\<open>gateway/lib.js\<close> and
  \<^verbatim>\<open>gateway/dispatch.js\<close>, with the projection set arithmetic of \<^verbatim>\<open>control/routing/route-plan.js\<close>.
  The two lookups of the gateway runtime, \<open>resolveNamespaceRoutes\<close> and
  \<open>resolveHostPatterns\<close>, are arguments of \<open>resolveGatewayDispatch\<close>. Headers are
  association lists with lower-case names. Shown: identities and projections are read
  back as written, the winning pattern is the most specific match, and a dispatch is only ever
  forwarded to a public namespace.
\<close>

section \<open>Worker identities\<close>

definition formatWorkerId :: "string \<Rightarrow> string \<Rightarrow> string \<Rightarrow> string" where
  "formatWorkerId namespace worker version = namespace @ '':'' @ worker @ '':'' @ version"

definition parseWorkerId :: "string option \<Rightarrow> string list option" where
  "parseWorkerId workerId =
     (case workerId of
        None \<Rightarrow> None
      | Some i \<Rightarrow>
          if i = [] then None
          else let parts = split_char CHR '':'' i in
            if length parts \<noteq> 3 \<or> list_ex (\<lambda>part. part = []) parts then None else Some parts)"

definition parseValidatedWorkerId ::
  "string option \<Rightarrow> (jsval \<Rightarrow> bool) \<Rightarrow> (string \<times> string \<times> string) option" where
  "parseValidatedWorkerId workerId nsValidator =
     (case parseWorkerId workerId of
        Some [namespace, worker, version] \<Rightarrow>
          if \<not> nsValidator (JStr namespace) then None
          else if \<not> rx_test WORKER_NAME_RE worker then None
          else if parseVersion (JStr version) = None then None
          else Some (namespace, worker, version)
      | _ \<Rightarrow> None)"

definition parseDispatchWorkerId :: "string option \<Rightarrow> (string \<times> string \<times> string) option" where
  "parseDispatchWorkerId workerId = parseValidatedWorkerId workerId isValidRouteNs"

definition parseRuntimeLoadWorkerId :: "string option \<Rightarrow> (string \<times> string \<times> string) option" where
  "parseRuntimeLoadWorkerId workerId = parseValidatedWorkerId workerId isValidRuntimeLoadNs"

section \<open>Route projections\<close>

record projection =
  p_ns :: string
  p_worker :: string
  p_version :: string
  p_kind :: string
  p_value :: string

definition PATTERN_PROJECTION_VERSION :: string where "PATTERN_PROJECTION_VERSION = ''v2''"
definition SEP :: char where "SEP = CHR 0x09"

definition requireProjectionComponent :: "string \<Rightarrow> string result" where
  "requireProjectionComponent v = (if v = [] \<or> SEP \<in> set v then Throw JsTypeError else Ok v)"

definition encodePatternProjection :: "projection \<Rightarrow> string result" where
  "encodePatternProjection p =
     bind_result (requireProjectionComponent (p_ns p)) (\<lambda>ns.
     bind_result (requireProjectionComponent (p_worker p)) (\<lambda>worker.
     bind_result (requireProjectionComponent (p_version p)) (\<lambda>version.
     bind_result (requireProjectionComponent (p_kind p)) (\<lambda>kind.
     bind_result (requireProjectionComponent (p_value p)) (\<lambda>val.
       if kind \<noteq> ''exact'' \<and> kind \<noteq> ''prefix'' then Throw JsTypeError
       else Ok (join SEP [PATTERN_PROJECTION_VERSION, ns, worker, version, kind, val]))))))"

definition decodePatternProjection :: "jsval \<Rightarrow> projection option" where
  "decodePatternProjection raw =
     (case raw of
        JStr r \<Rightarrow>
          (case split_char SEP r of
             [tag, ns, worker, version, kind, val] \<Rightarrow>
               if tag \<noteq> PATTERN_PROJECTION_VERSION then None
               else if ns = [] \<or> worker = [] \<or> version = [] \<or> val = []
                       \<or> (kind \<noteq> ''exact'' \<and> kind \<noteq> ''prefix'') then None
               else Some \<lparr>p_ns = ns, p_worker = worker, p_version = version, p_kind = kind, p_value = val\<rparr>
           | _ \<Rightarrow> None)
      | _ \<Rightarrow> None)"

section \<open>Hosts and headers\<close>



definition normalizeRequestHost :: "string \<Rightarrow> string" where
  "normalizeRequestHost hostname = rev (dropWhile (\<lambda>c. c = CHR ''.'') (rev hostname))"

definition isWebSocketUpgrade :: "(string \<times> string) list \<Rightarrow> bool" where
  "isWebSocketUpgrade headers =
     (to_lower (case map_of headers ''upgrade'' of None \<Rightarrow> [] | Some v \<Rightarrow> v) = ''websocket'')"

definition isPatternInvalidationKey :: "jsval \<Rightarrow> bool" where
  "isPatternInvalidationKey host \<longleftrightarrow>
     is_string host \<and> length (str_of host) > 0 \<and> str_of host = to_lower (str_of host)
     \<and> normalizeRequestHost (str_of host) = str_of host
     \<and> CHR '':'' \<notin> set (str_of host) \<and> CHR ''/'' \<notin> set (str_of host)
     \<and> \<not> list_ex js_space (str_of host)"

datatype host_class = Subdomain string | PatternHost string

text \<open>
  The expression is \<open>^(nsPattern)\.platformDomain$\<close> with the domain quoted. The namespace
  pattern has no dot, so the capture is what precedes the first one.
\<close>

definition hostRegex :: "string \<Rightarrow> rx \<Rightarrow> rx" where
  "hostRegex platformDomain nsPattern = RSeq nsPattern (RSeq (RCh CHR ''.'') (RLit platformDomain))"

definition classifyHost :: "string \<Rightarrow> string \<Rightarrow> rx \<Rightarrow> host_class" where
  "classifyHost hostname platformDomain nsPattern =
     (let normalized = normalizeRequestHost hostname in
      if rx_test (hostRegex platformDomain nsPattern) normalized
      then Subdomain (takeWhile (\<lambda>c. c \<noteq> CHR ''.'') normalized)
      else PatternHost normalized)"

section \<open>Patterns\<close>

record pattern_entry =
  e_slot :: string
  e_kind :: string
  e_value :: string
  e_ns :: string
  e_worker :: string
  e_version :: string

definition check_entry :: "(jsval \<Rightarrow> bool) \<Rightarrow> string \<times> jsval \<Rightarrow> (string \<times> string) + pattern_entry" where
  "check_entry isValidRouteNamespace = (\<lambda>(slot, parsed).
     if \<not> (is_object parsed \<and> is_string (jget parsed ''ns'') \<and> is_string (jget parsed ''worker'')
           \<and> is_string (jget parsed ''version'')
           \<and> (jget parsed ''kind'' = JStr ''exact'' \<or> jget parsed ''kind'' = JStr ''prefix'')
           \<and> is_string (jget parsed ''value''))
     then Inl (slot, ''bad_shape'')
     else if \<not> isValidRouteNamespace (jget parsed ''ns'') then Inl (slot, ''bad_namespace'')
     else Inr \<lparr>e_slot = slot, e_kind = str_of (jget parsed ''kind''), e_value = str_of (jget parsed ''value''),
               e_ns = str_of (jget parsed ''ns''), e_worker = str_of (jget parsed ''worker''),
               e_version = str_of (jget parsed ''version'')\<rparr>)"

text \<open>
  The comparator of \<open>toSorted\<close>: longer values first, exact before prefix. The sort is
  stable, as \<^const>\<open>sort_key\<close> is; the rank orders an entry by the comparator's two criteria.
\<close>

definition pattern_rank :: "pattern_entry \<Rightarrow> int" where
  "pattern_rank e = - 2 * int (length (e_value e)) + (if e_kind e = ''exact'' then 0 else 1)"

definition sortPatterns ::
  "(string \<times> jsval) list \<Rightarrow> (jsval \<Rightarrow> bool) \<Rightarrow> pattern_entry list \<times> (string \<times> string) list" where
  "sortPatterns entries isValidRouteNamespace =
     (let checked = map (check_entry isValidRouteNamespace) entries;
          sorted = [e. Inr e \<leftarrow> checked];
          errors = [e. Inl e \<leftarrow> checked]
      in (sort_key pattern_rank sorted, errors))"

definition matchPatternEntry :: "pattern_entry \<Rightarrow> string \<Rightarrow> string \<Rightarrow> bool" where
  "matchPatternEntry entry pathname search =
     (if e_kind entry = ''exact'' then pathname = e_value entry \<and> search = []
      else starts_with pathname (e_value entry))"

fun matchPatternWithStats ::
  "pattern_entry list \<Rightarrow> string \<Rightarrow> string \<Rightarrow> nat \<Rightarrow> pattern_entry option \<times> nat" where
  "matchPatternWithStats [] pathname search comparisons = (None, comparisons)"
| "matchPatternWithStats (entry # entries) pathname search comparisons =
     (if matchPatternEntry entry pathname search then (Some entry, comparisons + 1)
      else matchPatternWithStats entries pathname search (comparisons + 1))"

section \<open>Dispatch\<close>

datatype gateway_dispatch =
    NotFound string "string option" "string option" "string option"
  | ForwardControl string
  | ForwardRuntime string string string string string string string
      \<comment> \<open>route, binding, forward path, prefix, namespace, worker, version\<close>

definition subdomainPathParts :: "string \<Rightarrow> (string \<times> string \<times> string) option" where
  "subdomainPathParts pathname =
     (let rest = dropWhile (\<lambda>c. c = CHR ''/'') pathname;
          worker = takeWhile (\<lambda>c. c \<noteq> CHR ''/'') rest;
          suffix = dropWhile (\<lambda>c. c \<noteq> CHR ''/'') rest
      in if length rest = length pathname \<or> worker = [] then None
         else Some (worker, ''/'' @ worker, if suffix = [] then ''/'' else suffix))"

text \<open>
  \<open>lookupRoutes ns\<close> is \<^const>\<open>None\<close> when the namespace is not known, and otherwise its map
  from worker to version; \<open>lookupPatterns host\<close> is \<^const>\<open>None\<close> when the host is not known,
  and otherwise its sorted patterns.
\<close>

definition resolveGatewayDispatch ::
  "(string \<Rightarrow> (string \<Rightarrow> string option) option) \<Rightarrow> (string \<Rightarrow> pattern_entry list option)
    \<Rightarrow> string \<Rightarrow> string \<Rightarrow> string \<Rightarrow> string \<Rightarrow> string \<Rightarrow> gateway_dispatch" where
  "resolveGatewayDispatch lookupRoutes lookupPatterns normalizedHost normalizedAdminHost platformDomain pathname search =
     (if normalizedAdminHost \<noteq> [] \<and> normalizedHost = normalizedAdminHost then ForwardControl pathname
      else case classifyHost normalizedHost platformDomain SUBDOMAIN_NS_PATTERN of
        Subdomain namespace \<Rightarrow>
          (let route = ''worker_fetch_subdomain'' in
           if isReservedNs (JStr namespace) \<or> namespace \<in> set RESERVED_TENANT_NS
           then NotFound route (Some namespace) None None
           else case lookupRoutes namespace of
             None \<Rightarrow> NotFound route (Some namespace) None None
           | Some nsRoutes \<Rightarrow>
               (case subdomainPathParts pathname of
                  None \<Rightarrow> NotFound route (Some namespace) None None
                | Some (worker, prefix, forwardPath) \<Rightarrow>
                    if \<not> rx_test WORKER_NAME_RE worker then NotFound route (Some namespace) (Some worker) None
                    else (case nsRoutes worker of
                            None \<Rightarrow> NotFound route (Some namespace) (Some worker) None
                          | Some version \<Rightarrow>
                              if version = [] then NotFound route (Some namespace) (Some worker) None
                              else if parseVersion (JStr version) = None
                              then NotFound route (Some namespace) (Some worker) (Some version)
                              else ForwardRuntime route
                                     (if namespace = ''__system__'' then ''RUNTIME_SYSTEM'' else ''RUNTIME_USER'')
                                     forwardPath prefix namespace worker version)))
      | PatternHost patternHost \<Rightarrow>
          (let route = ''worker_fetch_pattern'' in
           case lookupPatterns patternHost of
             None \<Rightarrow> NotFound route None None None
           | Some patterns \<Rightarrow>
               (case fst (matchPatternWithStats patterns pathname search 0) of
                  None \<Rightarrow> NotFound route None None None
                | Some hit \<Rightarrow>
                    if \<not> rx_test WORKER_NAME_RE (e_worker hit)
                       \<or> parseVersion (JStr (e_version hit)) = None
                    then NotFound route (Some (e_ns hit)) (Some (e_worker hit)) (Some (e_version hit))
                    else ForwardRuntime route
                           (if e_ns hit = ''__system__'' then ''RUNTIME_SYSTEM'' else ''RUNTIME_USER'')
                           pathname (e_slot hit) (e_ns hit) (e_worker hit) (e_version hit))))"

section \<open>Route plans\<close>

record route_pattern =
  r_kind :: string
  r_value :: string
  r_host :: string
  r_slot :: string

definition routeKey :: "route_pattern \<Rightarrow> string" where
  "routeKey r = r_host r @ ''|'' @ r_slot r"

definition computeRouteKeySet :: "route_pattern list \<Rightarrow> string list" where
  "computeRouteKeySet routes = remdups (map routeKey routes)"

definition computeAffectedHosts :: "route_pattern list \<Rightarrow> route_pattern list \<Rightarrow> string list" where
  "computeAffectedHosts oldRoutes newRoutes = remdups (map r_host oldRoutes @ map r_host newRoutes)"

text \<open>A slot of a host: the raw projection, or the mark \<open>owned-by-self\<close>.\<close>

definition slot_owned :: "string \<Rightarrow> jsval \<Rightarrow> bool" where
  "slot_owned ns raw \<longleftrightarrow>
     raw = JStr ''owned-by-self''
     \<or> (case decodePatternProjection raw of None \<Rightarrow> False | Some p \<Rightarrow> p_ns p = ns)"

definition remaining_slots ::
  "route_pattern list \<Rightarrow> route_pattern list \<Rightarrow> string list \<Rightarrow> (string \<times> jsval) list \<Rightarrow> string \<Rightarrow> (string \<times> jsval) list" where
  "remaining_slots oldRoutes newRoutes newRouteKeys slots h =
     (let removed = filter (\<lambda>r. r_host r = h \<and> routeKey r \<notin> set newRouteKeys) oldRoutes;
          added = filter (\<lambda>r. r_host r = h) newRoutes;
          remaining = foldl (\<lambda>m r. omap_delete (r_slot r) m) slots removed
      in foldl (\<lambda>m r. omap_set (r_slot r) (JStr ''owned-by-self'') m) remaining added)"

definition computeNsHostDeltas ::
  "string \<Rightarrow> string list \<Rightarrow> route_pattern list \<Rightarrow> route_pattern list \<Rightarrow> string list
    \<Rightarrow> (string \<Rightarrow> (string \<times> jsval) list) \<Rightarrow> string list \<times> string list" where
  "computeNsHostDeltas ns affectedHosts oldRoutes newRoutes newRouteKeys hostState =
     (let nsOwns = (\<lambda>h. list_ex (\<lambda>(_, raw). slot_owned ns raw)
                      (remaining_slots oldRoutes newRoutes newRouteKeys (hostState h) h))
      in (filter nsOwns affectedHosts, filter (\<lambda>h. \<not> nsOwns h) affectedHosts))"

definition stringHash :: "(string \<times> jsval) list \<Rightarrow> (string \<times> jsval) list" where
  "stringHash h = filter (\<lambda>(_, v). is_string v) h"

section \<open>Identities and projections are read back\<close>

lemma list3_cases: "length xs = 3 \<longleftrightarrow> (\<exists>a b c. xs = [a, b, c])"
  by (auto simp: numeral_3_eq_3 length_Suc_conv)

lemma parseWorkerId_iff:
  "parseWorkerId (Some i) = Some parts \<longleftrightarrow>
     (\<exists>a b c. parts = [a, b, c] \<and> i = formatWorkerId a b c \<and> a \<noteq> [] \<and> b \<noteq> [] \<and> c \<noteq> []
        \<and> CHR '':'' \<notin> set a \<and> CHR '':'' \<notin> set b \<and> CHR '':'' \<notin> set c)"
proof
  assume p: "parseWorkerId (Some i) = Some parts"
  then have s: "split_char CHR '':'' i = parts" "length parts = 3" "\<not> list_ex (\<lambda>part. part = []) parts"
    by (auto simp: parseWorkerId_def Let_def split: if_splits)
  from s(2) obtain a b c where abc: "parts = [a, b, c]" unfolding list3_cases by (elim exE)
  have "i = formatWorkerId a b c"
    using join_split [of "CHR '':''" i] unfolding s(1) abc by (simp add: formatWorkerId_def)
  moreover have "CHR '':'' \<notin> set x" if "x \<in> set parts" for x
    using split_char_parts [of x "CHR '':''" i] that unfolding s(1) by blast
  ultimately show "\<exists>a b c. parts = [a, b, c] \<and> i = formatWorkerId a b c \<and> a \<noteq> [] \<and> b \<noteq> [] \<and> c \<noteq> []
        \<and> CHR '':'' \<notin> set a \<and> CHR '':'' \<notin> set b \<and> CHR '':'' \<notin> set c"
    using abc s(3) by auto
next
  assume "\<exists>a b c. parts = [a, b, c] \<and> i = formatWorkerId a b c \<and> a \<noteq> [] \<and> b \<noteq> [] \<and> c \<noteq> []
        \<and> CHR '':'' \<notin> set a \<and> CHR '':'' \<notin> set b \<and> CHR '':'' \<notin> set c"
  then show "parseWorkerId (Some i) = Some parts"
    by (auto simp: parseWorkerId_def formatWorkerId_def split_char_append_sep split_char_no_sep)
qed

lemma version_no_colon: "parseVersion (JStr v) = Some n \<Longrightarrow> CHR '':'' \<notin> set v \<and> v \<noteq> []"
  using show_nat_digits [of "nat n"] by (auto simp: parseVersion_iff show_int_def is_digit_def)

lemma validated_worker_id_iff:
  assumes "\<And>s. nsValidator (JStr s) \<Longrightarrow> clean s"
  shows "parseValidatedWorkerId (Some i) nsValidator = Some (ns, w, v) \<longleftrightarrow>
      i = formatWorkerId ns w v \<and> nsValidator (JStr ns) \<and> rx_test WORKER_NAME_RE w \<and> parseVersion (JStr v) \<noteq> None"
proof
  assume "parseValidatedWorkerId (Some i) nsValidator = Some (ns, w, v)"
  then show "i = formatWorkerId ns w v \<and> nsValidator (JStr ns) \<and> rx_test WORKER_NAME_RE w \<and> parseVersion (JStr v) \<noteq> None"
    by (auto simp: parseValidatedWorkerId_def parseWorkerId_iff split: option.splits list.splits if_splits)
next
  assume a: "i = formatWorkerId ns w v \<and> nsValidator (JStr ns) \<and> rx_test WORKER_NAME_RE w \<and> parseVersion (JStr v) \<noteq> None"
  then have "clean ns" "clean w" using assms worker_name_clean by blast+
  moreover have "CHR '':'' \<notin> set v \<and> v \<noteq> []" using a version_no_colon by auto
  ultimately have "parseWorkerId (Some i) = Some [ns, w, v]"
    using a by (auto simp: parseWorkerId_iff clean_def delimiters_def)
  with a show "parseValidatedWorkerId (Some i) nsValidator = Some (ns, w, v)"
    by (auto simp: parseValidatedWorkerId_def)
qed

lemma decode_encode_projection:
  "encodePatternProjection p = Ok r \<Longrightarrow> decodePatternProjection (JStr r) = Some p"
proof -
  assume e: "encodePatternProjection p = Ok r"
  then have c: "p_ns p \<noteq> []" "SEP \<notin> set (p_ns p)" "p_worker p \<noteq> []" "SEP \<notin> set (p_worker p)"
    "p_version p \<noteq> []" "SEP \<notin> set (p_version p)" "SEP \<notin> set (p_kind p)"
    "p_value p \<noteq> []" "SEP \<notin> set (p_value p)" "p_kind p = ''exact'' \<or> p_kind p = ''prefix''"
    and r: "r = join SEP [PATTERN_PROJECTION_VERSION, p_ns p, p_worker p, p_version p, p_kind p, p_value p]"
    by (auto simp: encodePatternProjection_def bind_result_eq_Inr requireProjectionComponent_def split: if_splits)
  have "split_char SEP r = [PATTERN_PROJECTION_VERSION, p_ns p, p_worker p, p_version p, p_kind p, p_value p]"
    unfolding r using c by (intro split_join) (auto simp: PATTERN_PROJECTION_VERSION_def SEP_def)
  with c show ?thesis by (auto simp: decodePatternProjection_def)
qed

lemma encode_decode_projection:
  "decodePatternProjection (JStr r) = Some p \<Longrightarrow> encodePatternProjection p = Ok r"
proof -
  assume d: "decodePatternProjection (JStr r) = Some p"
  then obtain ns w v k x where s: "split_char SEP r = [PATTERN_PROJECTION_VERSION, ns, w, v, k, x]"
    and c: "ns \<noteq> []" "w \<noteq> []" "v \<noteq> []" "x \<noteq> []" "k = ''exact'' \<or> k = ''prefix''"
    and p: "p = \<lparr>p_ns = ns, p_worker = w, p_version = v, p_kind = k, p_value = x\<rparr>"
    by (auto simp: decodePatternProjection_def split: list.splits if_splits)
  have "SEP \<notin> set y" if "y \<in> set [ns, w, v, k, x]" for y
    using split_char_parts [of y SEP r] s that by auto
  with c p join_split [of SEP r] show ?thesis
    unfolding s by (auto simp: encodePatternProjection_def requireProjectionComponent_def)
qed

section \<open>The winning pattern is the most specific one\<close>

lemma match_first:
  "fst (matchPatternWithStats es pathname search n) = List.find (\<lambda>e. matchPatternEntry e pathname search) es"
  by (induction es pathname search n rule: matchPatternWithStats.induct) auto

lemma find_sorted:
  assumes "sorted (map f es)" "List.find P es = Some e"
  shows "e \<in> set es \<and> P e \<and> (\<forall>e' \<in> set es. P e' \<longrightarrow> f e \<le> f e')"
  using assms by (induction es) (auto split: if_splits)

lemma set_sortPatterns:
  "e \<in> set (fst (sortPatterns entries valid)) \<longleftrightarrow> (\<exists>x \<in> set entries. check_entry valid x = Inr e)"
  by (force simp: sortPatterns_def Let_def split: sum.splits)

lemma pattern_rank_less:
  "pattern_rank e' < pattern_rank e \<longleftrightarrow>
     length (e_value e) < length (e_value e')
     \<or> length (e_value e) = length (e_value e') \<and> e_kind e' = ''exact'' \<and> e_kind e \<noteq> ''exact''"
  by (auto simp: pattern_rank_def)

lemma check_entry_Inr: "check_entry valid (slot, v) = Inr e \<Longrightarrow> valid (JStr (e_ns e)) \<and> e_slot e = slot"
  by (auto simp: check_entry_def is_string_iff split: if_splits)

section \<open>Only public namespaces are dispatched to\<close>

lemma rx_test_literals: "rx_test (foldr (\<lambda>t r. RAlt (RLit t) r) ts RZero) s \<longleftrightarrow> s \<in> set ts"
  by (induction ts) (auto simp: rx_test_alt rx_test_lit rx_test_iff [of RZero])

lemma subdomain_pattern_iff: "rx_test SUBDOMAIN_NS_PATTERN s \<longleftrightarrow> rx_test NS_PATTERN s \<or> s \<in> set RESERVED_NS"
  unfolding SUBDOMAIN_NS_PATTERN_def RESERVED_NS_PATTERN_def rx_test_alt rx_test_literals ..

lemma takeWhile_sep: "c \<notin> set u \<Longrightarrow> takeWhile (\<lambda>x. x \<noteq> c) (u @ c # v) = u"
  by (induction u) auto

lemma classify_subdomain:
  "classifyHost host domain SUBDOMAIN_NS_PATTERN = Subdomain ns \<longleftrightarrow>
     rx_test SUBDOMAIN_NS_PATTERN ns \<and> normalizeRequestHost host = ns @ ''.'' @ domain"
proof -
  have iff: "rx_test (hostRegex domain SUBDOMAIN_NS_PATTERN) w \<longleftrightarrow>
      (\<exists>u. rx_test SUBDOMAIN_NS_PATTERN u \<and> w = u @ CHR ''.'' # domain)" for w
  proof -
    have "rx_test (RSeq (RCh CHR ''.'') (RLit domain)) v \<longleftrightarrow> v = CHR ''.'' # domain" for v
      by (cases v) (auto simp: rx_test_seq_ch rx_test_lit)
    then show ?thesis by (auto simp: hostRegex_def rx_test_seq [of SUBDOMAIN_NS_PATTERN])
  qed
  have dot: "CHR ''.'' \<notin> set u" if "rx_test SUBDOMAIN_NS_PATTERN u" for u
    using that ns_pattern_clean reserved_ns_clean by (auto simp: subdomain_pattern_iff clean_def delimiters_def)
  have tw: "takeWhile (\<lambda>c. c \<noteq> CHR ''.'') (u @ CHR ''.'' # domain) = u" if "rx_test SUBDOMAIN_NS_PATTERN u" for u
    using dot [OF that] by (rule takeWhile_sep)
  show ?thesis
    by (auto simp: classifyHost_def Let_def iff tw)
qed

lemma subdomain_ns_valid:
  assumes "rx_test SUBDOMAIN_NS_PATTERN ns" "\<not> isReservedNs (JStr ns)" "ns \<notin> set RESERVED_TENANT_NS"
  shows "isValidTenantNs (JStr ns)"
  using assms by (auto simp: isValidTenantNs_def NS_RE_def isReservedNs_def subdomain_pattern_iff ns_pattern_shape)

lemma dispatch_forward:
  assumes "resolveGatewayDispatch lookupRoutes lookupPatterns host admin domain path search =
      ForwardRuntime route binding fwd prefix ns w v"
    and "\<And>h es e. lookupPatterns h = Some es \<Longrightarrow> e \<in> set es \<Longrightarrow> isValidRouteNs (JStr (e_ns e))"
  shows "isValidRouteNs (JStr ns) \<and> rx_test WORKER_NAME_RE w \<and> parseVersion (JStr v) \<noteq> None
    \<and> binding = (if ns = ''__system__'' then ''RUNTIME_SYSTEM'' else ''RUNTIME_USER'')
    \<and> (route = ''worker_fetch_subdomain'' \<longrightarrow> isValidTenantNs (JStr ns)
        \<and> (\<exists>routes. lookupRoutes ns = Some routes \<and> routes w = Some v))"
proof (cases "classifyHost host domain SUBDOMAIN_NS_PATTERN")
  case (Subdomain n)
  then have valid: "\<not> isReservedNs (JStr n) \<Longrightarrow> n \<notin> set RESERVED_TENANT_NS \<Longrightarrow> isValidTenantNs (JStr n)"
    using subdomain_ns_valid [of n] unfolding classify_subdomain by blast
  from assms(1) obtain routes where "ns = n" "\<not> isReservedNs (JStr n)" "n \<notin> set RESERVED_TENANT_NS"
      "lookupRoutes n = Some routes" "rx_test WORKER_NAME_RE w" "routes w = Some v" "parseVersion (JStr v) \<noteq> None"
      "binding = (if n = ''__system__'' then ''RUNTIME_SYSTEM'' else ''RUNTIME_USER'')"
    unfolding resolveGatewayDispatch_def Subdomain host_class.case Let_def
    by (simp split: if_split_asm option.split_asm prod.split_asm)
  with valid show ?thesis by (simp add: isValidRouteNs_def)
next
  case (PatternHost h)
  from assms(1) obtain es hit where es: "lookupPatterns h = Some es"
    and hit: "fst (matchPatternWithStats es path search 0) = Some hit"
    and r: "rx_test WORKER_NAME_RE (e_worker hit)" "parseVersion (JStr (e_version hit)) \<noteq> None"
      "route = ''worker_fetch_pattern''" "ns = e_ns hit" "w = e_worker hit" "v = e_version hit"
      "binding = (if e_ns hit = ''__system__'' then ''RUNTIME_SYSTEM'' else ''RUNTIME_USER'')"
    unfolding resolveGatewayDispatch_def PatternHost host_class.case Let_def
    by (simp split: if_split_asm option.split_asm)
  have "hit \<in> set es" using hit unfolding match_first by (auto simp: find_Some_iff)
  with assms(2) es r show ?thesis by simp
qed

lemma parse_format_dispatch:
  assumes "isValidRouteNs (JStr ns)" "rx_test WORKER_NAME_RE w" "parseVersion (JStr v) \<noteq> None"
  shows "parseDispatchWorkerId (Some (formatWorkerId ns w v)) = Some (ns, w, v)"
  unfolding parseDispatchWorkerId_def using assms by (simp add: validated_worker_id_iff route_ns_clean)

section \<open>Properties\<close>

text \<open>
  C22: a worker identity is read back as written. The runtime accepts an identity for dispatch
  exactly when it is the rendering of a public namespace, a worker name and a version tag, and it
  gives those three back; the load path does the same for its larger set of namespaces.
\<close>

theorem worker_id_round_trip:
  "(parseDispatchWorkerId (Some i) = Some (ns, w, v) \<longleftrightarrow>
      i = formatWorkerId ns w v \<and> isValidRouteNs (JStr ns) \<and> rx_test WORKER_NAME_RE w \<and> parseVersion (JStr v) \<noteq> None)
   \<and> (parseRuntimeLoadWorkerId (Some i) = Some (ns, w, v) \<longleftrightarrow>
      i = formatWorkerId ns w v \<and> isValidRuntimeLoadNs (JStr ns) \<and> rx_test WORKER_NAME_RE w \<and> parseVersion (JStr v) \<noteq> None)"
  unfolding parseDispatchWorkerId_def parseRuntimeLoadWorkerId_def
  by (intro conjI validated_worker_id_iff route_ns_clean runtime_load_ns_clean)

text \<open>
  C23: the pattern projection codec is a bijection between the projections the writer accepts and
  the strings the reader accepts.
\<close>

theorem projection_codec: "decodePatternProjection (JStr r) = Some p \<longleftrightarrow> encodePatternProjection p = Ok r"
  using decode_encode_projection encode_decode_projection by blast

text \<open>
  C24: the gateway picks the most specific pattern. If a pattern wins, it is one of the well-formed
  entries of the host, it matches, and every other matching entry has a shorter value, or an equally
  long one without being exact where the winner is not. If none wins, no well-formed entry matches.
\<close>

theorem most_specific_pattern_wins:
  "(case fst (matchPatternWithStats (fst (sortPatterns entries valid)) pathname search 0) of
      None \<Rightarrow> \<not> (\<exists>x \<in> set entries. \<exists>e. check_entry valid x = Inr e \<and> matchPatternEntry e pathname search)
    | Some e \<Rightarrow>
        (\<exists>x \<in> set entries. check_entry valid x = Inr e) \<and> matchPatternEntry e pathname search
        \<and> \<not> (\<exists>x \<in> set entries. \<exists>e'. check_entry valid x = Inr e' \<and> matchPatternEntry e' pathname search
              \<and> (length (e_value e) < length (e_value e')
                 \<or> length (e_value e) = length (e_value e') \<and> e_kind e' = ''exact'' \<and> e_kind e \<noteq> ''exact'')))"
proof -
  let ?s = "fst (sortPatterns entries valid)" and ?P = "\<lambda>e. matchPatternEntry e pathname search"
  have sorted: "sorted (map pattern_rank ?s)" by (simp add: sortPatterns_def Let_def)
  show ?thesis
  proof (cases "List.find ?P ?s")
    case None
    then have "\<not> (\<exists>x \<in> set entries. \<exists>e. check_entry valid x = Inr e \<and> ?P e)"
      using set_sortPatterns [of _ entries valid] by (auto simp: find_None_iff)
    then show ?thesis unfolding match_first None option.case .
  next
    case (Some e)
    have "pattern_rank e \<le> pattern_rank e'" if "x \<in> set entries" "check_entry valid x = Inr e'" "?P e'" for x e'
      using find_sorted [OF sorted Some] set_sortPatterns [of e' entries valid] that by blast
    then have "\<not> (\<exists>x \<in> set entries. \<exists>e'. check_entry valid x = Inr e' \<and> ?P e'
        \<and> (length (e_value e) < length (e_value e')
           \<or> length (e_value e) = length (e_value e') \<and> e_kind e' = ''exact'' \<and> e_kind e \<noteq> ''exact''))"
      unfolding pattern_rank_less [symmetric] by (meson not_le)
    moreover have "(\<exists>x \<in> set entries. check_entry valid x = Inr e) \<and> ?P e"
      using find_sorted [OF sorted Some] set_sortPatterns [of e entries valid] by blast
    ultimately show ?thesis unfolding match_first Some option.case by blast
  qed
qed

text \<open>
  C25: what the gateway forwards, the runtime accepts. If a request is forwarded to a runtime, and
  the patterns of a host are what \<^const>\<open>sortPatterns\<close> kept of its stored entries, then the target is
  a public namespace, the identity header parses back to the very same target, the system runtime
  serves the system namespace only, and a subdomain request reaches a tenant at the version its
  route table names.
\<close>

theorem forwarded_identity_accepted:
  assumes "resolveGatewayDispatch lookupRoutes (\<lambda>h. map_option (\<lambda>es. fst (sortPatterns es isValidRouteNs)) (stored h))
      host admin domain path search = ForwardRuntime route binding fwd prefix ns w v"
  shows "parseDispatchWorkerId (Some (formatWorkerId ns w v)) = Some (ns, w, v)
    \<and> isValidRouteNs (JStr ns) \<and> (binding = ''RUNTIME_SYSTEM'' \<longleftrightarrow> ns = ''__system__'')
    \<and> (route = ''worker_fetch_subdomain'' \<longrightarrow> isValidTenantNs (JStr ns)
        \<and> (\<exists>routes. lookupRoutes ns = Some routes \<and> routes w = Some v))"
proof -
  have "isValidRouteNs (JStr (e_ns e))"
    if "map_option (\<lambda>es. fst (sortPatterns es isValidRouteNs)) (stored h) = Some es" "e \<in> set es" for h es e
    using that set_sortPatterns check_entry_Inr by (fastforce split: prod.splits)
  from dispatch_forward [OF assms this] show ?thesis
    using parse_format_dispatch [of ns w v] by auto
qed

theorem forwarded_identity_accepted_witness:
  "parseDispatchWorkerId (Some (formatWorkerId ''acme'' ''web'' ''v7'')) = Some (''acme'', ''web'', ''v7'')
    \<and> isValidRouteNs (JStr ''acme'') \<and> (''RUNTIME_USER'' = ''RUNTIME_SYSTEM'' \<longleftrightarrow> ''acme'' = ''__system__'')
    \<and> isValidTenantNs (JStr ''acme'')
    \<and> (\<exists>routes. [''acme'' \<mapsto> [''web'' \<mapsto> ''v7'']] ''acme'' = Some routes \<and> routes ''web'' = Some ''v7'')"
proof -
  have "resolveGatewayDispatch [''acme'' \<mapsto> [''web'' \<mapsto> ''v7'']]
      (\<lambda>h. map_option (\<lambda>es. fst (sortPatterns es isValidRouteNs)) ((\<lambda>_. None) h))
      ''acme.wdl.dev'' ''admin.wdl.dev'' ''wdl.dev'' ''/web/a'' [] =
      ForwardRuntime ''worker_fetch_subdomain'' ''RUNTIME_USER'' ''/a'' ''/web'' ''acme'' ''web'' ''v7''"
    by code_simp
  from forwarded_identity_accepted [OF this] show ?thesis by simp
qed


end
