(* ===== verification/Sql_Splitter.thy ===== *)
theory Sql_Splitter
  imports Wdl_Prelude
begin

text \<open>
  The SQL statement splitter shared by D1 clients and migrations
  (\<open>shared/sql-splitter.js\<close>). \<open>tracker\<close> is the object of \<open>createStatementTracker\<close>,
  \<open>observeWord\<close> its word handler, and \<open>split_step\<close> one iteration of the character loop of
  \<open>splitSqlStatements\<close>: it sees the current character and the text behind it and either
  advances over \<open>n\<close> further characters or cuts a statement at a semicolon. The slice
  \<open>sql.slice(start, i)\<close> of the source is the argument \<open>cur\<close> of the loop.
\<close>

section \<open>Model\<close>

definition isSqlWordStart :: "char \<Rightarrow> bool" where
  "isSqlWordStart ch \<longleftrightarrow>
     (CHR ''A'' \<le> ch \<and> ch \<le> CHR ''Z'') \<or> (CHR ''a'' \<le> ch \<and> ch \<le> CHR ''z'') \<or> ch = CHR ''_''"

definition isSqlWordPart :: "char \<Rightarrow> bool" where
  "isSqlWordPart ch \<longleftrightarrow>
     (CHR ''A'' \<le> ch \<and> ch \<le> CHR ''Z'') \<or> (CHR ''a'' \<le> ch \<and> ch \<le> CHR ''z'') \<or>
     (CHR ''0'' \<le> ch \<and> ch \<le> CHR ''9'') \<or> ch = CHR ''_''"

record tracker =
  triggerPrefix :: "string list"
  triggerPrefixRejected :: bool
  isTrigger :: bool
  triggerBodyStarted :: bool
  triggerNestedDepth :: nat
  triggerEndMayClose :: bool
  triggerEndSeen :: bool

definition createStatementTracker :: tracker where
  "createStatementTracker = \<lparr>triggerPrefix = [], triggerPrefixRejected = False, isTrigger = False,
     triggerBodyStarted = False, triggerNestedDepth = 0, triggerEndMayClose = False,
     triggerEndSeen = False\<rparr>"

definition observe_prefix :: "tracker \<Rightarrow> string \<Rightarrow> tracker" where
  "observe_prefix t lower =
     (if isTrigger t \<or> triggerPrefixRejected t then t
      else if length (triggerPrefix t) = 0 then
        (if lower = ''create'' then t\<lparr>triggerPrefix := triggerPrefix t @ [lower]\<rparr>
         else t\<lparr>triggerPrefixRejected := True\<rparr>)
      else if length (triggerPrefix t) = 1 then
        (if lower = ''trigger'' then t\<lparr>isTrigger := True\<rparr>
         else if lower = ''temp'' \<or> lower = ''temporary'' then t\<lparr>triggerPrefix := triggerPrefix t @ [lower]\<rparr>
         else t\<lparr>triggerPrefixRejected := True\<rparr>)
      else if length (triggerPrefix t) = 2 then
        (if lower = ''trigger'' then t\<lparr>isTrigger := True\<rparr>
         else t\<lparr>triggerPrefixRejected := True\<rparr>)
      else t)"

definition observe_body :: "tracker \<Rightarrow> string \<Rightarrow> tracker" where
  "observe_body t lower =
     (if \<not> isTrigger t then t
      else if \<not> triggerBodyStarted t then
        (if lower = ''begin'' then t\<lparr>triggerBodyStarted := True, triggerEndMayClose := True\<rparr> else t)
      else if lower = ''case'' \<or> lower = ''begin'' then
        t\<lparr>triggerNestedDepth := triggerNestedDepth t + 1, triggerEndMayClose := False, triggerEndSeen := False\<rparr>
      else if lower = ''end'' then
        (if triggerNestedDepth t > 0 then t\<lparr>triggerNestedDepth := triggerNestedDepth t - 1, triggerEndMayClose := False\<rparr>
         else t\<lparr>triggerEndSeen := triggerEndMayClose t, triggerEndMayClose := False\<rparr>)
      else t\<lparr>triggerEndMayClose := False, triggerEndSeen := False\<rparr>)"

definition observeWord :: "tracker \<Rightarrow> string \<Rightarrow> tracker" where
  "observeWord t word = observe_body (observe_prefix t (to_lower word)) (to_lower word)"

datatype sql_state =
    Normal | LineComment | BlockComment | SingleQuote | DoubleQuote | Backtick | Bracket

datatype split_action = Advance sql_state tracker nat | Cut

definition quote_char :: "sql_state \<Rightarrow> char" where
  "quote_char st = (case st of SingleQuote \<Rightarrow> CHR 0x27 | DoubleQuote \<Rightarrow> CHR 0x22 | _ \<Rightarrow> CHR 0x60)"

text \<open>
  \<open>next\<close> is \<open>sql[i + 1]\<close>, \<open>None\<close> past the end; \<open>nonempty\<close> says that the slice before the
  current character is not blank.
\<close>

definition quoted_step :: "sql_state \<Rightarrow> tracker \<Rightarrow> char \<Rightarrow> char option \<Rightarrow> split_action" where
  "quoted_step st t ch nxt =
     (if ch = quote_char st \<and> nxt = Some (quote_char st) then Advance st t 1
      else if ch = quote_char st then Advance Normal t 0
      else Advance st t 0)"

definition normal_step :: "tracker \<Rightarrow> bool \<Rightarrow> char \<Rightarrow> string \<Rightarrow> split_action" where
  "normal_step t nonempty ch cs =
     (let nxt = (case cs of [] \<Rightarrow> None | c # _ \<Rightarrow> Some c) in
      if ch = CHR ''-'' \<and> nxt = Some (CHR ''-'') then Advance LineComment t 1
      else if ch = CHR ''/'' \<and> nxt = Some (CHR ''*'') then Advance BlockComment t 1
      else if ch = CHR 0x27 then Advance SingleQuote t 0
      else if ch = CHR 0x22 then Advance DoubleQuote t 0
      else if ch = CHR 0x60 then Advance Backtick t 0
      else if ch = CHR ''['' then Advance Bracket t 0
      else if isSqlWordStart ch then
        (let word = takeWhile isSqlWordPart cs in
         Advance Normal (observeWord t (ch # word)) (length word))
      else if ch = CHR '';'' then
        (if nonempty \<and> isTrigger t \<and> triggerBodyStarted t \<and> \<not> triggerEndSeen t
         then Advance Normal (t\<lparr>triggerEndMayClose := True\<rparr>) 0
         else Cut)
      else Advance Normal t 0)"

definition split_step :: "sql_state \<Rightarrow> tracker \<Rightarrow> bool \<Rightarrow> char \<Rightarrow> string \<Rightarrow> split_action" where
  "split_step st t nonempty ch cs =
     (let nxt = (case cs of [] \<Rightarrow> None | c # _ \<Rightarrow> Some c) in
      case st of
        LineComment \<Rightarrow> if ch = CHR 0x0A \<or> ch = CHR 0x0D then Advance Normal t 0 else Advance st t 0
      | BlockComment \<Rightarrow> if ch = CHR ''*'' \<and> nxt = Some (CHR ''/'') then Advance Normal t 1 else Advance st t 0
      | Bracket \<Rightarrow> if ch = CHR '']'' then Advance Normal t 0 else Advance st t 0
      | Normal \<Rightarrow> normal_step t nonempty ch cs
      | _ \<Rightarrow> quoted_step st t ch nxt)"

datatype statement = Statement (st_sql: string) (st_params: "jsval list")

definition push_statement :: "string \<Rightarrow> statement list" where
  "push_statement slice = (if trim slice \<noteq> [] then [Statement (trim slice) []] else [])"

function split_loop :: "sql_state \<Rightarrow> tracker \<Rightarrow> string \<Rightarrow> string \<Rightarrow> statement list" where
  "split_loop st t cur [] = push_statement cur"
| "split_loop st t cur (ch # cs) =
     (case split_step st t (trim cur \<noteq> []) ch cs of
        Advance st' t' n \<Rightarrow> split_loop st' t' (cur @ ch # take n cs) (drop n cs)
      | Cut \<Rightarrow> push_statement cur @ split_loop Normal createStatementTracker [] cs)"
  by pat_completeness auto
termination by (relation "measure (\<lambda>(_, _, _, rest). length rest)") auto

definition splitSqlStatements :: "string \<Rightarrow> statement list" where
  "splitSqlStatements sql = split_loop Normal createStatementTracker [] sql"

section \<open>Trimming\<close>

definition blank :: "string \<Rightarrow> bool" where
  "blank s \<longleftrightarrow> (\<forall>c \<in> set s. js_space c)"

lemma trim_blank: "trim s = [] \<longleftrightarrow> blank s"
proof (cases "dropWhile js_space s")
  case Nil
  then have "blank s" by (simp add: blank_def dropWhile_eq_Nil_conv)
  then show ?thesis unfolding trim_def Nil by simp
next
  case (Cons x ys)
  then have "\<not> js_space x" using hd_dropWhile [of js_space s] by simp
  moreover from Cons have "x \<in> set s" by (metis list.set_intros(1) set_dropWhileD)
  ultimately show ?thesis using Cons
    by (fastforce simp: trim_def blank_def)
qed

lemma trim_split: "\<exists>l r. s = l @ trim s @ r \<and> blank l \<and> blank r"
proof (intro exI conjI)
  let ?d = "dropWhile js_space s"
  have "?d = rev (dropWhile js_space (rev ?d)) @ rev (takeWhile js_space (rev ?d))"
    by (metis rev_append rev_rev_ident takeWhile_dropWhile_id)
  then show "s = takeWhile js_space s @ trim s @ rev (takeWhile js_space (rev ?d))"
    unfolding trim_def by (metis takeWhile_dropWhile_id)
qed (auto simp: blank_def dest: set_takeWhileD)

lemma trim_last: "trim s \<noteq> [] \<Longrightarrow> \<not> js_space (last (trim s))"
  unfolding trim_def by (simp add: last_rev hd_dropWhile)

lemma trim_hd:
  assumes "trim s \<noteq> []"
  shows "\<not> js_space (hd (trim s))"
proof -
  let ?d = "dropWhile js_space s"
  from assms have "\<not> blank s" by (simp add: trim_blank)
  then have d: "?d \<noteq> []" by (auto simp: blank_def dropWhile_eq_Nil_conv)
  then obtain x ys where xs: "?d = x # ys" and x: "\<not> js_space x"
    using hd_dropWhile [OF d] by (cases ?d) auto
  have "dropWhile js_space (zs @ [x]) = dropWhile js_space zs @ [x]" for zs
    using x by (induction zs) auto
  then show ?thesis using x xs by (simp add: trim_def)
qed

lemma dropWhile_id: "xs \<noteq> [] \<Longrightarrow> \<not> P (hd xs) \<Longrightarrow> dropWhile P xs = xs"
  by (cases xs) auto

lemma trim_id: "s \<noteq> [] \<Longrightarrow> \<not> js_space (hd s) \<Longrightarrow> \<not> js_space (last s) \<Longrightarrow> trim s = s"
  by (simp add: trim_def dropWhile_id hd_rev)

lemma trim_trim: "trim s \<noteq> [] \<Longrightarrow> trim (trim s) = trim s"
  by (rule trim_id) (simp_all add: trim_hd trim_last)

section \<open>Scanning one statement\<close>

text \<open>
  \<open>scan\<close> runs the loop over a text that is not cut and gives the final state. A text whose
  first character is a semicolon or white space is a \<open>boundary\<close>: no token of the loop reaches
  across it.
\<close>

function scan :: "sql_state \<Rightarrow> tracker \<Rightarrow> string \<Rightarrow> string \<Rightarrow> (sql_state \<times> tracker) option" where
  "scan st t cur [] = Some (st, t)"
| "scan st t cur (ch # cs) =
     (case split_step st t (trim cur \<noteq> []) ch cs of
        Advance st' t' n \<Rightarrow> scan st' t' (cur @ ch # take n cs) (drop n cs)
      | Cut \<Rightarrow> None)"
  by pat_completeness auto
termination by (relation "measure (\<lambda>(_, _, _, rest). length rest)") auto

definition boundary :: "string \<Rightarrow> bool" where
  "boundary sfx \<longleftrightarrow> (case sfx of [] \<Rightarrow> True | c # _ \<Rightarrow> c = CHR '';'' \<or> js_space c)"

lemma boundary_simps [simp]: "boundary []" "boundary (CHR '';'' # cs)"
  by (simp_all add: boundary_def)

lemma boundary_char:
  assumes "c = CHR '';'' \<or> js_space c"
  shows "\<not> isSqlWordPart c \<and> c \<notin> {CHR ''-'', CHR ''/'', CHR ''*'', CHR 0x27, CHR 0x22, CHR 0x60}"
  using assms unfolding js_space_def by (elim disjE insertE emptyE) (simp_all add: isSqlWordPart_def less_eq_char_def)

lemma word_boundary: "boundary sfx \<Longrightarrow> takeWhile isSqlWordPart (cs @ sfx) = takeWhile isSqlWordPart cs"
  using boundary_char by (induction cs) (auto simp: boundary_def split: list.splits)

lemma step_boundary:
  assumes "boundary sfx"
  shows "split_step st t b ch (cs @ sfx) = split_step st t b ch cs"
proof (cases cs)
  case Nil
  then show ?thesis
  proof (cases sfx)
    case (Cons c ys)
    with assms have "c = CHR '';'' \<or> js_space c" by (simp add: boundary_def)
    from boundary_char [OF this] show ?thesis using Nil Cons
      by (simp add: split_step_def normal_step_def quoted_step_def quote_char_def split: sql_state.split)
  qed simp
next
  case (Cons c ys)
  then have "(case cs @ sfx of [] \<Rightarrow> None | c # _ \<Rightarrow> Some c) = (case cs of [] \<Rightarrow> None | c # _ \<Rightarrow> Some c)"
    by simp
  then show ?thesis using word_boundary [OF assms, of cs]
    unfolding split_step_def normal_step_def by (simp only:)
qed

lemma step_length: "split_step st t b ch cs = Advance st' t' n \<Longrightarrow> n \<le> length cs"
  by (auto simp: split_step_def normal_step_def quoted_step_def Let_def length_takeWhile_le
      split: sql_state.splits if_splits list.splits)

lemma step_cut: "split_step st t b ch cs = Cut \<Longrightarrow> ch = CHR '';''"
  by (auto simp: split_step_def normal_step_def quoted_step_def Let_def
      split: sql_state.splits if_splits list.splits)

lemma step_space: "js_space ch \<Longrightarrow> split_step Normal t b ch cs = Advance Normal t 0"
  unfolding js_space_def
  by (elim insertE emptyE) (simp_all add: split_step_def normal_step_def isSqlWordStart_def less_eq_char_def)

lemma loop_scan:
  "scan st t cur x = Some (st', t') \<Longrightarrow> boundary sfx \<Longrightarrow>
   split_loop st t cur (x @ sfx) = split_loop st' t' (cur @ x) sfx"
proof (induction st t cur x rule: scan.induct)
  case (2 st t cur ch cs)
  then show ?case
    using step_boundary [OF "2.prems"(2), of st t _ ch cs] step_length [of st t _ ch cs]
    by (auto split: split_action.splits)
qed simp

lemma scan_append:
  "boundary y \<Longrightarrow> scan st t cur (x @ y) =
     (case scan st t cur x of None \<Rightarrow> None | Some (st', t') \<Rightarrow> scan st' t' (cur @ x) y)"
proof (induction st t cur x rule: scan.induct)
  case (2 st t cur ch cs)
  then show ?case
    using step_boundary [OF "2.prems", of st t _ ch cs] step_length [of st t _ ch cs]
    by (auto split: split_action.splits option.splits)
qed simp

lemma scan_cong: "blank cur \<longleftrightarrow> blank cur' \<Longrightarrow> scan st t cur x = scan st t cur' x"
proof (induction st t cur x arbitrary: cur' rule: scan.induct)
  case (2 st t cur ch cs)
  have "blank (cur @ z) \<longleftrightarrow> blank (cur' @ z)" for z
    using "2.prems" by (auto simp: blank_def)
  with 2 show ?case by (auto simp: trim_blank split: split_action.splits)
qed simp

lemma scan_blank: "blank l \<Longrightarrow> scan Normal t cur (l @ x) = scan Normal t (cur @ l) x"
  by (induction l arbitrary: cur) (auto simp: blank_def step_space)

text \<open>Every statement that the loop emits is the trimmed text of an uncut scan.\<close>

lemma loop_emit:
  assumes "s \<in> set (split_loop st t cur y)"
  shows "(\<exists>x sfx. y = x @ sfx \<and> boundary sfx \<and> scan st t cur x \<noteq> None \<and> s \<in> set (push_statement (cur @ x)))
    \<or> (\<exists>x. scan Normal createStatementTracker [] x \<noteq> None \<and> s \<in> set (push_statement x))"
    (is "?here st t cur y \<or> ?later")
  using assms
proof (induction st t cur y rule: split_loop.induct)
  case (1 st t cur)
  then have "?here st t cur []" by (intro exI [of _ "[]"]) simp
  then show ?case by blast
next
  case (2 st t cur ch cs)
  show ?case
  proof (cases "split_step st t (trim cur \<noteq> []) ch cs")
    case (Advance st' t' n)
    with 2 have "?here st' t' (cur @ ch # take n cs) (drop n cs) \<or> ?later" by simp
    then show ?thesis
    proof
      assume "?here st' t' (cur @ ch # take n cs) (drop n cs)"
      then obtain x sfx where x: "drop n cs = x @ sfx" "boundary sfx"
        "scan st' t' (cur @ ch # take n cs) x \<noteq> None" "s \<in> set (push_statement ((cur @ ch # take n cs) @ x))"
        by blast
      let ?cs = "take n cs @ x"
      have cs: "cs = ?cs @ sfx" using x(1) by (metis append_assoc append_take_drop_id)
      have "split_step st t (trim cur \<noteq> []) ch ?cs = Advance st' t' n"
        using Advance step_boundary [OF x(2), of st t "trim cur \<noteq> []" ch ?cs] cs by simp
      moreover have "n \<le> length cs" by (rule step_length [OF Advance])
      ultimately have "scan st t cur (ch # ?cs) \<noteq> None" using x(3) by simp
      moreover have "ch # cs = (ch # ?cs) @ sfx" using cs by simp
      ultimately have "?here st t cur (ch # cs)" using x(2,4)
        by (intro exI [of _ "ch # ?cs"] exI [of _ sfx]) simp
      then show ?thesis by blast
    qed blast
  next
    case Cut
    then have "ch = CHR '';''" by (rule step_cut)
    then have "?here st t cur (ch # cs)" if "s \<in> set (push_statement cur)"
      using that by (intro exI [of _ "[]"] exI [of _ "ch # cs"]) simp
    moreover have ?later if "s \<in> set (split_loop Normal createStatementTracker [] cs)"
      using "2.IH"(2) [OF Cut that] by auto
    ultimately show ?thesis using "2.prems" Cut by auto
  qed
qed

lemma scan_trim:
  assumes "scan Normal createStatementTracker [] x \<noteq> None"
  shows "scan Normal createStatementTracker [] (trim x) \<noteq> None"
proof -
  obtain l r where x: "x = l @ trim x @ r" and l: "blank l" and r: "blank r"
    using trim_split [of x] by blast
  have "boundary r" using r by (auto simp: boundary_def blank_def split: list.split)
  moreover have "scan Normal createStatementTracker [] (trim x @ r) = scan Normal createStatementTracker [] x"
    using scan_blank [OF l, of createStatementTracker "[]" "trim x @ r"]
      scan_cong [of l "[]" Normal createStatementTracker "trim x @ r"] l x by (simp add: blank_def)
  ultimately show ?thesis
    using assms scan_append [of r Normal createStatementTracker "[]" "trim x"] by (auto split: option.splits)
qed

lemma split_scanned:
  assumes "scan Normal createStatementTracker [] x \<noteq> None"
  shows "splitSqlStatements x = push_statement x"
  using assms loop_scan [of Normal createStatementTracker "[]" x _ _ "[]"]
  by (auto simp: splitSqlStatements_def)

lemma emitted_scan:
  assumes "s \<in> set (splitSqlStatements sql)"
  obtains x where "scan Normal createStatementTracker [] x \<noteq> None" "trim x \<noteq> []" "s = Statement (trim x) []"
  using loop_emit [OF assms [unfolded splitSqlStatements_def]]
  by (auto simp: push_statement_def split: if_splits)

section \<open>Self-contained statements\<close>

text \<open>
  A text is self-contained when scanning it ends outside quotes and comments and with no open
  trigger body; \<open>quote_sql\<close> is the SQL string literal of a text, quotes doubled.
\<close>

definition self_contained :: "string \<Rightarrow> bool" where
  "self_contained x = (case scan Normal createStatementTracker [] x of
     None \<Rightarrow> False
   | Some (st, t) \<Rightarrow> st = Normal \<and> \<not> (isTrigger t \<and> triggerBodyStarted t \<and> \<not> triggerEndSeen t))"

definition quote_sql :: "string \<Rightarrow> string" where
  "quote_sql q = CHR 0x27 # concat (map (\<lambda>c. if c = CHR 0x27 then [c, c] else [c]) q) @ [CHR 0x27]"

lemma self_contained_iff:
  "self_contained x \<longleftrightarrow> (\<exists>t. scan Normal createStatementTracker [] x = Some (Normal, t)
     \<and> \<not> (isTrigger t \<and> triggerBodyStarted t \<and> \<not> triggerEndSeen t))"
  by (auto simp: self_contained_def split: option.splits)

lemma split_append_self_contained:
  assumes "self_contained x"
  shows "splitSqlStatements (x @ CHR '';'' # y) = push_statement x @ splitSqlStatements y"
proof -
  obtain t where t: "scan Normal createStatementTracker [] x = Some (Normal, t)"
    "\<not> (isTrigger t \<and> triggerBodyStarted t \<and> \<not> triggerEndSeen t)"
    using assms unfolding self_contained_iff by blast
  have "split_step Normal t (trim x \<noteq> []) (CHR '';'') y = Cut"
    using t(2) by (auto simp: split_step_def normal_step_def isSqlWordStart_def less_eq_char_def Let_def)
  then show ?thesis using loop_scan [OF t(1), of "CHR '';'' # y"]
    by (simp add: splitSqlStatements_def)
qed

lemma scan_literal_body:
  "scan SingleQuote t cur (concat (map (\<lambda>c. if c = CHR 0x27 then [c, c] else [c]) q) @ [CHR 0x27]) = Some (Normal, t)"
proof (induction q arbitrary: cur)
  case (Cons c q)
  then show ?case
    by (cases "c = CHR 0x27") (simp_all add: split_step_def quoted_step_def quote_char_def)
qed (simp add: split_step_def quoted_step_def quote_char_def)

lemma scan_literal: "scan Normal t cur (quote_sql q) = Some (Normal, t)"
  unfolding quote_sql_def
  by (simp add: split_step_def normal_step_def scan_literal_body)

section \<open>Properties\<close>

text \<open>
  C11: the splitter loses nothing. The source is the raw segments joined by the semicolons it cut
  at, and the statements are the non-blank segments, trimmed, in order.
\<close>

theorem split_lossless:
  "\<exists>segments. join (CHR '';'') segments = sql \<and>
     splitSqlStatements sql = concat (map push_statement segments)"
proof -
  have "\<exists>segs. segs \<noteq> [] \<and> join (CHR '';'') segs = cur @ y \<and>
      split_loop st t cur y = concat (map push_statement segs)" for st t cur y
  proof (induction st t cur y rule: split_loop.induct)
    case (1 st t cur)
    then show ?case by (intro exI [of _ "[cur]"]) simp
  next
    case (2 st t cur ch cs)
    show ?case
    proof (cases "split_step st t (trim cur \<noteq> []) ch cs")
      case (Advance st' t' n)
      with "2.IH"(1) [OF Advance] show ?thesis by simp
    next
      case Cut
      then have ch: "ch = CHR '';''" by (rule step_cut)
      from "2.IH"(2) [OF Cut] obtain segs where "segs \<noteq> []" "join (CHR '';'') segs = cs"
        "split_loop Normal createStatementTracker [] cs = concat (map push_statement segs)" by auto
      then show ?thesis using Cut ch
        by (intro exI [of _ "cur # segs"]) (cases segs; simp)
    qed
  qed
  from this [of "[]" sql Normal createStatementTracker] show ?thesis
    by (auto simp: splitSqlStatements_def)
qed

text \<open>
  C27: splitting is stable. A statement that the splitter emitted is, split again, that one
  statement: it never hands on a text in which it would itself find a further cut.
\<close>

theorem split_stable:
  assumes "s \<in> set (splitSqlStatements sql)"
  shows "splitSqlStatements (st_sql s) = [s]"
proof -
  from assms obtain x where x: "scan Normal createStatementTracker [] x \<noteq> None" "trim x \<noteq> []"
    "s = Statement (trim x) []" by (rule emitted_scan)
  then show ?thesis using split_scanned [OF scan_trim [OF x(1)]]
    by (simp add: push_statement_def trim_trim)
qed

theorem split_stable_witness:
  "splitSqlStatements ''create trigger g after insert on t begin select 1; end'' =
     [Statement ''create trigger g after insert on t begin select 1; end'' []]"
proof -
  have "Statement ''create trigger g after insert on t begin select 1; end'' []
      \<in> set (splitSqlStatements ''create trigger g after insert on t begin select 1; end; select 2'')"
    by code_simp
  from split_stable [OF this] show ?thesis by simp
qed

text \<open>
  C28: no string literal can break a script apart. When every prefix is self-contained text and
  the literals hold arbitrary characters, semicolons, quotes and comment marks included, the
  script of the statements \<open>prefix 'literal';\<close> splits back into exactly those statements.
\<close>

theorem literals_do_not_split:
  assumes "\<forall>(pre, q) \<in> set stmts. self_contained pre \<and> trim pre = pre \<and> pre \<noteq> []"
  shows "splitSqlStatements (concat (map (\<lambda>(pre, q). pre @ '' '' @ quote_sql q @ '';'') stmts)) =
    map (\<lambda>(pre, q). Statement (pre @ '' '' @ quote_sql q) []) stmts"
  using assms
proof (induction stmts)
  case Nil
  then show ?case by code_simp
next
  case (Cons p stmts)
  obtain pre q where p: "p = (pre, q)" by (cases p)
  let ?x = "pre @ '' '' @ quote_sql q"
  from Cons.prems p have pre: "self_contained pre" "trim pre = pre" "pre \<noteq> []" by auto
  have sp: "js_space (CHR '' '')" by (simp add: js_space_def)
  then have "boundary ('' '' @ quote_sql q)" by (simp add: boundary_def)
  from scan_append [OF this, of Normal createStatementTracker "[]" pre] pre(1)
  have "self_contained ?x" by (auto simp: self_contained_iff step_space [OF sp] scan_literal)
  moreover have "trim ?x = ?x"
    using pre(2,3) trim_hd [of pre] by (intro trim_id) (auto simp: quote_sql_def js_space_def)
  ultimately have "splitSqlStatements (?x @ CHR '';'' # y) = Statement ?x [] # splitSqlStatements y" for y
    using split_append_self_contained [of ?x y] by (simp add: push_statement_def)
  with Cons p show ?case by simp
qed

theorem literals_do_not_split_witness:
  "splitSqlStatements (''insert into t values '' @ quote_sql ''a;b'' @ '';'') =
     [Statement (''insert into t values '' @ quote_sql ''a;b'') []]"
proof -
  have "self_contained ''insert into t values'' \<and> trim ''insert into t values'' = ''insert into t values''"
    by code_simp
  then have "\<forall>(pre, q) \<in> set [(''insert into t values'', ''a;b'')]. self_contained pre \<and> trim pre = pre \<and> pre \<noteq> []"
    by simp
  from literals_do_not_split [OF this] show ?thesis by simp
qed

end
