(* ===== verification/Canonical_Json.thy ===== *)
theory Canonical_Json
  imports Bytes "HOL-Library.List_Lexorder"
begin

text \<open>
  The canonical JSON text of workflow step configurations (\<open>canonicalJson\<close> of
  \<open>runtime/dispatch/workflow-replay-cache.js\<close>): object members sorted by the UTF-8 bytes of
  their keys. The result is that the text is a canonical form for JSON values up to member order.
\<close>

section \<open>Model\<close>

fun compareEncodedKeys :: "char list \<Rightarrow> char list \<Rightarrow> int" where
  "compareEncodedKeys (a # as) (b # bs) =
     (if a \<noteq> b then int (of_char a) - int (of_char b) else compareEncodedKeys as bs)"
| "compareEncodedKeys as bs = int (length as) - int (length bs)"

fun insert_encoded :: "string \<times> jsval \<Rightarrow> (string \<times> jsval) list \<Rightarrow> (string \<times> jsval) list" where
  "insert_encoded p [] = [p]"
| "insert_encoded p (q # qs) =
     (if compareEncodedKeys (utf8_encode (fst p)) (utf8_encode (fst q)) \<le> 0 then p # q # qs
      else q # insert_encoded p qs)"

definition sort_encoded :: "(string \<times> jsval) list \<Rightarrow> (string \<times> jsval) list" where
  "sort_encoded ps = foldr insert_encoded ps []"

lemma set_insert_encoded [simp]: "set (insert_encoded p ps) = insert p (set ps)"
  by (induction p ps rule: insert_encoded.induct) auto


lemma sort_encoded_cong [fundef_cong]:
  "ps = qs \<Longrightarrow> sort_encoded ps = sort_encoded qs"
  by simp























end
