(* ===== verification/Replay_Cache.thy ===== *)
theory Replay_Cache
  imports Bytes "HOL-Library.While_Combinator"
begin

text \<open>
  The in-memory replay cache of workflow runs (\<open>runtime/dispatch/workflow-replay-cache.js\<close>):
  the working-set reservation, read leases, and the caches of the instances with
  their byte accounts. Caches are shared objects: a controller keeps its reference while the
  table may evict the cache, so the state holds a store \<open>obj\<close> of cache objects, the table
  \<open>workflowReplayCaches\<close> from keys to references in insertion order, and the list of detached
  references. The size of a step, kept by the source in a \<open>WeakMap\<close>, is stored with the step.
  A live read lease is an entry of \<open>leases\<close>; a released one has left it. Metric counters are
  the log \<open>outcomes\<close>. The two \<open>while\<close> loops are \<open>while_option\<close>, and the last section proves
  that they end.
\<close>

section \<open>Model of the cache\<close>

definition WORKFLOW_REPLAY_CACHE_MAX_INSTANCES :: nat where
  "WORKFLOW_REPLAY_CACHE_MAX_INSTANCES = 256"
definition WORKFLOW_REPLAY_CACHE_MAX_BYTES :: int where
  "WORKFLOW_REPLAY_CACHE_MAX_BYTES = 16 * 1024 * 1024"
definition WORKFLOW_REPLAY_WORKING_SET_MAX_BYTES :: int where
  "WORKFLOW_REPLAY_WORKING_SET_MAX_BYTES = 64 * 1024 * 1024"
definition WORKFLOW_REPLAY_CACHE_MAX_STEPS_PER_INSTANCE :: nat where
  "WORKFLOW_REPLAY_CACHE_MAX_STEPS_PER_INSTANCE = 256"

text \<open>The error class carries no status; it is told apart by its name.\<close>

definition WorkflowReplayCapacityError :: js_error where
  "WorkflowReplayCapacityError = CodedError 0 ''WorkflowReplayCapacityError''"

text \<open>A field that the record does not have is \<open>undefined\<close>.\<close>

record replay_step =
  rs_name :: jsval
  rs_nameCount :: jsval
  rs_dependencies :: jsval
  rs_kind :: jsval
  rs_config :: jsval
  rs_status :: jsval
  rs_outputJson :: jsval
  rs_error :: jsval

record replay_input = replay_step +
  ri_output :: jsval

record replay_run =
  run_ns :: string
  run_workflowKey :: string
  run_instanceId :: string
  run_generation :: int
  run_createdAtMs :: int
  run_token :: string

record replay_cache =
  rc_key :: string
  lastRunToken :: string
  rc_steps :: "(int, replay_step \<times> int) omap"
  nextOrdinal :: int
  rc_complete :: bool
  rc_bytes :: int
  activeControllers :: nat
  rc_released :: bool

record replay =
  obj :: "nat \<Rightarrow> replay_cache"
  fresh_ref :: nat
  workflowReplayCaches :: "(string, nat) omap"
  detachedReplayCaches :: "nat list"
  replayReadLeases :: "(nat, int) omap"
  fresh_lease :: nat
  cacheSteps :: int
  cacheBytes :: int
  activeBytes :: int
  detachedBytes :: int
  readBytes :: int
  highWaterBytes :: int
  outcomes :: "string list"

definition vacant_cache :: replay_cache where
  "vacant_cache = \<lparr>rc_key = [], lastRunToken = [], rc_steps = [], nextOrdinal = 0, rc_complete = False,
     rc_bytes = 0, activeControllers = 0, rc_released = True\<rparr>"

definition initial_replay :: replay where
  "initial_replay = \<lparr>obj = (\<lambda>_. vacant_cache), fresh_ref = 0, workflowReplayCaches = [],
     detachedReplayCaches = [], replayReadLeases = [], fresh_lease = 0, cacheSteps = 0, cacheBytes = 0,
     activeBytes = 0, detachedBytes = 0, readBytes = 0, highWaterBytes = 0, outcomes = []\<rparr>"

definition update_obj :: "nat \<Rightarrow> (replay_cache \<Rightarrow> replay_cache) \<Rightarrow> replay \<Rightarrow> replay" where
  "update_obj i f s = s\<lparr>obj := (obj s)(i := f (obj s i))\<rparr>"

definition replayWorkingSetBytes :: "replay \<Rightarrow> int" where
  "replayWorkingSetBytes s = cacheBytes s + detachedBytes s + readBytes s"

definition recordReplayHighWater :: "replay \<Rightarrow> replay" where
  "recordReplayHighWater s = s\<lparr>highWaterBytes := max (highWaterBytes s) (replayWorkingSetBytes s)\<rparr>"

definition recordWorkflowReplayCacheOutcome :: "string \<Rightarrow> replay \<Rightarrow> replay" where
  "recordWorkflowReplayCacheOutcome outcome s = s\<lparr>outcomes := outcomes s @ [outcome]\<rparr>"

definition prepareWorkflowReplayCacheMetrics :: "replay \<Rightarrow> (string \<times> int) list" where
  "prepareWorkflowReplayCacheMetrics s =
     [(''workflow_replay_cache_instances'', int (length (workflowReplayCaches s))),
      (''workflow_replay_cache_steps'', cacheSteps s),
      (''workflow_replay_cache_bytes'', cacheBytes s),
      (''workflow_replay_active_bytes'', activeBytes s),
      (''workflow_replay_detached_bytes'', detachedBytes s),
      (''workflow_replay_read_in_flight_bytes'', readBytes s),
      (''workflow_replay_working_set_bytes'', replayWorkingSetBytes s),
      (''workflow_replay_working_set_high_water_bytes'', highWaterBytes s)]"

definition in_table :: "replay \<Rightarrow> nat \<Rightarrow> bool" where
  "in_table s i \<longleftrightarrow> map_of (workflowReplayCaches s) (rc_key (obj s i)) = Some i"

definition clearWorkflowReplayCache :: "nat \<Rightarrow> replay \<Rightarrow> replay" where
  "clearWorkflowReplayCache i s =
     (let s1 = (if i \<in> set (detachedReplayCaches s)
                then s\<lparr>detachedReplayCaches := removeAll i (detachedReplayCaches s),
                       detachedBytes := detachedBytes s - rc_bytes (obj s i)\<rparr>
                else s)
      in update_obj i (\<lambda>c. c\<lparr>rc_released := True, rc_steps := [], nextOrdinal := 0,
                              rc_complete := False, rc_bytes := 0\<rparr>) s1)"

definition evictWorkflowReplayCache :: "string \<Rightarrow> replay \<Rightarrow> replay" where
  "evictWorkflowReplayCache key s =
     (case map_of (workflowReplayCaches s) key of
        None \<Rightarrow> s
      | Some i \<Rightarrow>
          let c = obj s i;
              s1 = s\<lparr>cacheSteps := cacheSteps s - int (length (rc_steps c)),
                     cacheBytes := cacheBytes s - rc_bytes c,
                     workflowReplayCaches := omap_delete key (workflowReplayCaches s)\<rparr>
          in if activeControllers c = 0 then clearWorkflowReplayCache i s1
             else s1\<lparr>detachedReplayCaches :=
                        (if i \<in> set (detachedReplayCaches s1) then detachedReplayCaches s1
                         else detachedReplayCaches s1 @ [i]),
                     detachedBytes := detachedBytes s1 + rc_bytes c\<rparr>)"

definition evictOldestWorkflowReplayCache :: "replay \<Rightarrow> replay" where
  "evictOldestWorkflowReplayCache s =
     (case workflowReplayCaches s of [] \<Rightarrow> s | (oldest, _) # _ \<Rightarrow> evictWorkflowReplayCache oldest s)"

fun reserve_loop :: "int \<Rightarrow> nat option \<Rightarrow> (string \<times> nat) list \<Rightarrow> replay \<Rightarrow> replay \<times> unit result" where
  "reserve_loop bytes keep [] s =
     (recordWorkflowReplayCacheOutcome ''saturated'' s, Throw WorkflowReplayCapacityError)"
| "reserve_loop bytes keep ((key, i) # rest) s =
     (if keep = Some i \<or> activeControllers (obj s i) > 0 then reserve_loop bytes keep rest s
      else let s1 = evictWorkflowReplayCache key s in
        if replayWorkingSetBytes s1 + bytes \<le> WORKFLOW_REPLAY_WORKING_SET_MAX_BYTES then (s1, Ok ())
        else reserve_loop bytes keep rest s1)"

definition reserveWorkingSet :: "int \<Rightarrow> nat option \<Rightarrow> replay \<Rightarrow> replay \<times> unit result" where
  "reserveWorkingSet bytes keep s =
     (if replayWorkingSetBytes s + bytes \<le> WORKFLOW_REPLAY_WORKING_SET_MAX_BYTES then (s, Ok ())
      else reserve_loop bytes keep (workflowReplayCaches s) s)"

definition createWorkflowReplayReadLease :: "replay \<Rightarrow> replay \<times> nat" where
  "createWorkflowReplayReadLease s =
     (s\<lparr>replayReadLeases := omap_set (fresh_lease s) 0 (replayReadLeases s), fresh_lease := fresh_lease s + 1\<rparr>,
      fresh_lease s)"

definition lease_reserve :: "nat \<Rightarrow> int \<Rightarrow> replay \<Rightarrow> replay \<times> unit result" where
  "lease_reserve l bytes s =
     (case map_of (replayReadLeases s) l of
        None \<Rightarrow> (s, Throw WorkflowReplayCapacityError)
      | Some reservedBytes \<Rightarrow>
          (case reserveWorkingSet (max 0 (bytes - reservedBytes)) None s of
             (s1, Inl e) \<Rightarrow> (s1, Throw e)
           | (s1, Inr _) \<Rightarrow>
               (recordReplayHighWater (s1\<lparr>readBytes := readBytes s1 + (bytes - reservedBytes),
                  replayReadLeases := omap_set l bytes (replayReadLeases s1)\<rparr>), Ok ())))"

definition lease_release :: "nat \<Rightarrow> replay \<Rightarrow> replay" where
  "lease_release l s =
     (case map_of (replayReadLeases s) l of
        None \<Rightarrow> s
      | Some reservedBytes \<Rightarrow>
          s\<lparr>readBytes := readBytes s - reservedBytes, replayReadLeases := omap_delete l (replayReadLeases s)\<rparr>)"

definition workflowReplayCacheKey :: "replay_run \<Rightarrow> string" where
  "workflowReplayCacheKey run =
     run_ns run @ CHR 0x09 # run_workflowKey run @ CHR 0x09 # run_instanceId run @
     CHR 0x09 # show_int (run_generation run) @ CHR 0x09 # show_int (run_createdAtMs run)"

definition null_coalesce :: "jsval \<Rightarrow> jsval" where
  "null_coalesce v = (if nullish v then JNull else v)"

definition serializedReplayStepBytes :: "replay_step \<Rightarrow> int" where
  "serializedReplayStepBytes step =
     (let configBytes = (if is_string (rs_config step) then utf8ByteLength (str_of (rs_config step)) else 0);
          outputBytes = (if is_string (rs_outputJson step) then utf8ByteLength (str_of (rs_outputJson step)) else 0);
          metadataJson = stringify (JArr [null_coalesce (rs_name step), null_coalesce (rs_nameCount step),
            null_coalesce (rs_dependencies step), null_coalesce (rs_kind step),
            null_coalesce (rs_status step), null_coalesce (rs_error step)])
      in int (configBytes + outputBytes + utf8ByteLength metadataJson))"

definition projectReplayStepError :: "jsval \<Rightarrow> jsval \<Rightarrow> jsval" where
  "projectReplayStepError status err =
     (if status \<noteq> JStr ''failed'' \<or> \<not> is_object err then JUndef
      else let nm = jget err ''name''; message = jget err ''message'' in
        if is_string nm \<and> is_string message then JObj [(''name'', nm), (''message'', message)]
        else if is_string nm then JObj [(''name'', nm)]
        else if is_string message then JObj [(''message'', message)]
        else JUndef)"

text \<open>
  \<open>charge\<close> books a change of the bytes and of the step count of a cache: the block of counter
  updates that ends \<open>deleteReplayStep\<close> (with negative amounts) and
  \<open>rememberWorkflowReplayStep\<close>.
\<close>

definition charge :: "bool \<Rightarrow> nat \<Rightarrow> int \<Rightarrow> int \<Rightarrow> replay \<Rightarrow> replay" where
  "charge counted i bytes count s =
     (let s1 = update_obj i (\<lambda>c. c\<lparr>rc_bytes := rc_bytes c + bytes\<rparr>) s;
          s2 = (if activeControllers (obj s1 i) > 0 then s1\<lparr>activeBytes := activeBytes s1 + bytes\<rparr> else s1);
          s3 = (if i \<in> set (detachedReplayCaches s2) then s2\<lparr>detachedBytes := detachedBytes s2 + bytes\<rparr> else s2)
      in if counted then s3\<lparr>cacheSteps := cacheSteps s3 + count, cacheBytes := cacheBytes s3 + bytes\<rparr> else s3)"

definition deleteReplayStep :: "nat \<Rightarrow> int \<Rightarrow> replay \<Rightarrow> replay" where
  "deleteReplayStep i ordinal s =
     (case map_of (rc_steps (obj s i)) ordinal of
        None \<Rightarrow> s
      | Some (step, bytes) \<Rightarrow>
          charge (in_table s i) i (- bytes) (- 1)
            (update_obj i (\<lambda>c. c\<lparr>rc_steps := omap_delete ordinal (rc_steps c)\<rparr>) s))"

definition getWorkflowReplayCache :: "replay_run \<Rightarrow> replay \<Rightarrow> (replay \<times> nat) option" where
  "getWorkflowReplayCache run s =
     (let key = workflowReplayCacheKey run in
      case map_of (workflowReplayCaches s) key of
        Some i \<Rightarrow>
          let s1 = s\<lparr>workflowReplayCaches := omap_set key i (omap_delete key (workflowReplayCaches s))\<rparr> in
          Some (if lastRunToken (obj s i) \<noteq> run_token run
                then update_obj i (\<lambda>c. c\<lparr>lastRunToken := run_token run, rc_complete := False\<rparr>) s1
                else s1, i)
      | None \<Rightarrow>
          let i = fresh_ref s;
              s1 = s\<lparr>obj := (obj s)(i := \<lparr>rc_key = key, lastRunToken = run_token run, rc_steps = [],
                       nextOrdinal = 0, rc_complete = False, rc_bytes = 0, activeControllers = 0, rc_released = False\<rparr>),
                     fresh_ref := i + 1, workflowReplayCaches := omap_set key i (workflowReplayCaches s)\<rparr>
          in map_option (\<lambda>s2. (s2, i))
               (while_option (\<lambda>s. length (workflowReplayCaches s) > WORKFLOW_REPLAY_CACHE_MAX_INSTANCES)
                  evictOldestWorkflowReplayCache s1))"

definition acquireWorkflowReplayCache :: "replay_run \<Rightarrow> replay \<Rightarrow> (replay \<times> nat) option" where
  "acquireWorkflowReplayCache run s =
     map_option (\<lambda>(s1, i).
       let s2 = (if activeControllers (obj s1 i) = 0
                 then s1\<lparr>activeBytes := activeBytes s1 + rc_bytes (obj s1 i)\<rparr> else s1)
       in (update_obj i (\<lambda>c. c\<lparr>activeControllers := activeControllers c + 1\<rparr>) s2, i))
     (getWorkflowReplayCache run s)"

definition releaseWorkflowReplayCache :: "nat \<Rightarrow> replay \<Rightarrow> replay" where
  "releaseWorkflowReplayCache i s =
     (let s1 = (if activeControllers (obj s i) > 0
                then let s2 = update_obj i (\<lambda>c. c\<lparr>activeControllers := activeControllers c - 1\<rparr>) s in
                  if activeControllers (obj s2 i) = 0
                  then s2\<lparr>activeBytes := activeBytes s2 - rc_bytes (obj s2 i)\<rparr> else s2
                else s)
      in if activeControllers (obj s1 i) > 0 \<or> in_table s1 i then s1
         else clearWorkflowReplayCache i s1)"

definition stored_step :: "replay_input \<Rightarrow> replay_step" where
  "stored_step step =
     (let output = (if rs_status step = JStr ''completed'' \<and> \<not> is_string (rs_outputJson step)
                    then JStr (stringify (null_coalesce (ri_output step))) else rs_outputJson step)
      in \<lparr>rs_name = rs_name step, rs_nameCount = rs_nameCount step, rs_dependencies = rs_dependencies step,
          rs_kind = rs_kind step, rs_config = rs_config step, rs_status = rs_status step,
          rs_outputJson = output, rs_error = projectReplayStepError (rs_status step) (rs_error step)\<rparr>)"

definition step_bytes :: "(int, replay_step \<times> int) omap \<Rightarrow> int \<Rightarrow> int" where
  "step_bytes steps ordinal = (case map_of steps ordinal of None \<Rightarrow> 0 | Some (_, bytes) \<Rightarrow> bytes)"

definition oldest_step :: "(int, replay_step \<times> int) omap \<Rightarrow> int \<Rightarrow> int option" where
  "oldest_step steps ordinal =
     (if map_of steps ordinal = None \<and> length steps \<ge> WORKFLOW_REPLAY_CACHE_MAX_STEPS_PER_INSTANCE
      then (case steps of [] \<Rightarrow> None | (o1, _) # _ \<Rightarrow> Some o1) else None)"

definition store_step :: "bool \<Rightarrow> nat \<Rightarrow> int \<Rightarrow> replay_step \<Rightarrow> int \<Rightarrow> int option \<Rightarrow> replay \<Rightarrow> replay" where
  "store_step counted i ordinal step bytes oldest s =
     (let s1 = deleteReplayStep i ordinal s;
          s2 = (case oldest of None \<Rightarrow> s1 | Some o1 \<Rightarrow> deleteReplayStep i o1 s1);
          s3 = update_obj i (\<lambda>c. c\<lparr>rc_steps := omap_set ordinal (step, bytes) (rc_steps c)\<rparr>) s2
      in recordReplayHighWater (charge counted i bytes 1 s3))"

definition rememberWorkflowReplayStep ::
    "nat \<Rightarrow> int \<Rightarrow> replay_input \<Rightarrow> replay \<Rightarrow> (replay \<times> unit result) option" where
  "rememberWorkflowReplayStep i ordinal step s =
     (if rc_released (obj s i) then Some (s, Ok ())
      else let counted = in_table s i; stored = stored_step step; bytes = serializedReplayStepBytes stored in
        if bytes > WORKFLOW_REPLAY_CACHE_MAX_BYTES then Some (deleteReplayStep i ordinal s, Ok ())
        else let steps = rc_steps (obj s i); oldest = oldest_step steps ordinal;
                 replacedBytes = step_bytes steps ordinal + (case oldest of None \<Rightarrow> 0 | Some o1 \<Rightarrow> step_bytes steps o1)
          in case reserveWorkingSet (max 0 (bytes - replacedBytes)) (Some i) s of
               (s1, Inl e) \<Rightarrow> Some (s1, Throw e)
             | (s1, Inr _) \<Rightarrow>
                 let s2 = store_step counted i ordinal stored bytes oldest s1 in
                 if counted
                 then map_option (\<lambda>s3. (s3, Ok ()))
                        (while_option (\<lambda>s. cacheBytes s > WORKFLOW_REPLAY_CACHE_MAX_BYTES)
                           evictOldestWorkflowReplayCache s2)
                 else Some (s2, Ok ()))"

definition readWorkflowReplayStepOutput :: "replay_step \<Rightarrow> jsval result" where
  "readWorkflowReplayStepOutput step =
     (case rs_outputJson step of
        JStr text \<Rightarrow> (case json_parse text of None \<Rightarrow> Throw JsSyntaxError | Some v \<Rightarrow> Ok v)
      | _ \<Rightarrow> Ok JNull)"

definition resetWorkflowReplayCacheForTest :: "replay \<Rightarrow> replay" where
  "resetWorkflowReplayCacheForTest s =
     (let refs = map snd (workflowReplayCaches s) @ detachedReplayCaches s in
      s\<lparr>obj := (\<lambda>i. if i \<in> set refs
                     then (obj s i)\<lparr>rc_steps := [], rc_bytes := 0, activeControllers := 0, rc_released := True\<rparr>
                     else obj s i),
        replayReadLeases := [], workflowReplayCaches := [], detachedReplayCaches := [], cacheSteps := 0,
        cacheBytes := 0, activeBytes := 0, detachedBytes := 0, readBytes := 0, highWaterBytes := 0\<rparr>)"

section \<open>Invariant\<close>

definition table_refs :: "replay \<Rightarrow> nat set" where
  "table_refs s = snd ` set (workflowReplayCaches s)"

definition held_refs :: "replay \<Rightarrow> nat set" where
  "held_refs s = table_refs s \<union> set (detachedReplayCaches s)"

definition steps_bytes :: "(int, replay_step \<times> int) omap \<Rightarrow> int" where
  "steps_bytes steps = (\<Sum>(_, _, b) \<leftarrow> steps. b)"

definition cache_ok :: "replay_cache \<Rightarrow> bool" where
  "cache_ok c \<longleftrightarrow> omap_wf (rc_steps c) \<and> length (rc_steps c) \<le> WORKFLOW_REPLAY_CACHE_MAX_STEPS_PER_INSTANCE
     \<and> rc_bytes c = steps_bytes (rc_steps c) \<and> (\<forall>(_, _, b) \<in> set (rc_steps c). 0 \<le> b)
     \<and> (rc_released c \<longrightarrow> rc_steps c = [] \<and> activeControllers c = 0)"

definition shape :: "replay \<Rightarrow> bool" where
  "shape s \<longleftrightarrow> omap_wf (workflowReplayCaches s)
     \<and> (\<forall>(k, i) \<in> set (workflowReplayCaches s). rc_key (obj s i) = k)
     \<and> distinct (detachedReplayCaches s) \<and> table_refs s \<inter> set (detachedReplayCaches s) = {}
     \<and> (\<forall>i. rc_released (obj s i) \<longleftrightarrow> i \<notin> held_refs s)
     \<and> (\<forall>i \<in> held_refs s. i < fresh_ref s)
     \<and> (\<forall>i \<in> set (detachedReplayCaches s). activeControllers (obj s i) > 0)
     \<and> (\<forall>i. cache_ok (obj s i))
     \<and> omap_wf (replayReadLeases s) \<and> (\<forall>(l, b) \<in> set (replayReadLeases s). l < fresh_lease s \<and> 0 \<le> b)"

definition active_part :: "replay \<Rightarrow> nat \<Rightarrow> int" where
  "active_part s i = (if activeControllers (obj s i) > 0 then rc_bytes (obj s i) else 0)"

definition accounts :: "replay \<Rightarrow> bool" where
  "accounts s \<longleftrightarrow> cacheBytes s = (\<Sum>i \<in> table_refs s. rc_bytes (obj s i))
     \<and> cacheSteps s = (\<Sum>i \<in> table_refs s. int (length (rc_steps (obj s i))))
     \<and> detachedBytes s = (\<Sum>i \<in> set (detachedReplayCaches s). rc_bytes (obj s i))
     \<and> activeBytes s = (\<Sum>i \<in> held_refs s. active_part s i)
     \<and> readBytes s = (\<Sum>(_, b) \<leftarrow> replayReadLeases s. b)"

definition bounded :: "replay \<Rightarrow> bool" where
  "bounded s \<longleftrightarrow> replayWorkingSetBytes s \<le> highWaterBytes s
     \<and> highWaterBytes s \<le> WORKFLOW_REPLAY_WORKING_SET_MAX_BYTES"

definition core :: "replay \<Rightarrow> bool" where
  "core s \<longleftrightarrow> shape s \<and> accounts s \<and> bounded s"

definition replay_inv :: "replay \<Rightarrow> bool" where
  "replay_inv s \<longleftrightarrow> core s \<and> length (workflowReplayCaches s) \<le> WORKFLOW_REPLAY_CACHE_MAX_INSTANCES
     \<and> cacheBytes s \<le> WORKFLOW_REPLAY_CACHE_MAX_BYTES"

lemma sum_swap_one:
  fixes f g :: "nat \<Rightarrow> int"
  assumes "finite A" "i \<in> A" "\<And>j. j \<noteq> i \<Longrightarrow> g j = f j"
  shows "sum g A = sum f A - f i + g i"
proof -
  have "sum g (A - {i}) = sum f (A - {i})" using assms(3) by (intro sum.cong) auto
  then show ?thesis using assms(1,2) by (simp add: sum.remove [of A i])
qed

lemma sum_same:
  fixes f g :: "nat \<Rightarrow> int"
  assumes "i \<notin> A" "\<And>j. j \<noteq> i \<Longrightarrow> g j = f j"
  shows "sum g A = sum f A"
  using assms(1) by (intro sum.cong refl assms(2)) auto

lemma finite_refs [simp]: "finite (table_refs s)" "finite (held_refs s)"
  by (simp_all add: table_refs_def held_refs_def)

lemma shapeD:
  assumes "shape s"
  shows shape_wf: "distinct (map fst (workflowReplayCaches s))"
    and shape_keys: "\<forall>(k, i) \<in> set (workflowReplayCaches s). rc_key (obj s i) = k"
    and shape_detached: "distinct (detachedReplayCaches s)" "table_refs s \<inter> set (detachedReplayCaches s) = {}"
    and shape_released: "\<forall>i. rc_released (obj s i) \<longleftrightarrow> i \<notin> held_refs s"
    and shape_fresh: "\<forall>i \<in> held_refs s. i < fresh_ref s"
    and shape_active: "\<forall>i \<in> set (detachedReplayCaches s). activeControllers (obj s i) > 0"
    and shape_caches: "\<forall>i. cache_ok (obj s i)"
    and shape_leases: "distinct (map fst (replayReadLeases s))" "\<forall>(l, b) \<in> set (replayReadLeases s). l < fresh_lease s \<and> 0 \<le> b"
  using assms unfolding shape_def omap_wf_def by simp_all

lemma shape_key: "shape s \<Longrightarrow> (k, i) \<in> set (workflowReplayCaches s) \<Longrightarrow> rc_key (obj s i) = k"
  using bspec [OF shape_keys] by fastforce

lemma in_table_iff:
  assumes "shape s"
  shows "in_table s i \<longleftrightarrow> i \<in> table_refs s"
proof
  assume "in_table s i"
  then show "i \<in> table_refs s" unfolding in_table_def table_refs_def
    by (metis image_eqI map_of_SomeD snd_conv)
next
  assume "i \<in> table_refs s"
  then obtain k where k: "(k, i) \<in> set (workflowReplayCaches s)" by (auto simp: table_refs_def)
  then show "in_table s i"
    unfolding in_table_def shape_key [OF assms k] by (intro map_of_is_SomeI shape_wf [OF assms])
qed

lemma table_ref_unique:
  assumes "shape s" "(k, i) \<in> set (workflowReplayCaches s)" "(k', i) \<in> set (workflowReplayCaches s)"
  shows "k = k'"
  using shape_key [OF assms(1,2)] shape_key [OF assms(1,3)] by simp

lemma table_refs_delete:
  assumes "shape s" "map_of (workflowReplayCaches s) k = Some i"
  shows "snd ` set (omap_delete k (workflowReplayCaches s)) = table_refs s - {i}"
proof (rule set_eqI)
  fix j
  let ?t = "set (workflowReplayCaches s)"
  have ki: "(k, i) \<in> ?t" using assms(2) by (rule map_of_SomeD)
  have d: "distinct (map fst (workflowReplayCaches s))" using assms(1) by (rule shape_wf)
  have iff: "k' \<noteq> k \<longleftrightarrow> j \<noteq> i" if "(k', j) \<in> ?t" for k'
  proof
    show "j \<noteq> i" if "k' \<noteq> k" using that \<open>(k', j) \<in> ?t\<close> ki table_ref_unique [OF assms(1)] by auto
    show "k' \<noteq> k" if "j \<noteq> i" using that \<open>(k', j) \<in> ?t\<close> ki eq_key_imp_eq_value [OF d] by auto
  qed
  have "j \<in> snd ` set (omap_delete k (workflowReplayCaches s)) \<longleftrightarrow> (\<exists>k'. (k', j) \<in> ?t \<and> k' \<noteq> k)"
    by (force simp: omap_delete_def)
  also have "\<dots> \<longleftrightarrow> (\<exists>k'. (k', j) \<in> ?t) \<and> j \<noteq> i" using iff by blast
  also have "\<dots> \<longleftrightarrow> j \<in> table_refs s - {i}" by (force simp: table_refs_def)
  finally show "j \<in> snd ` set (omap_delete k (workflowReplayCaches s)) \<longleftrightarrow> j \<in> table_refs s - {i}" .
qed

lemma map_of_table_ref:
  "map_of (workflowReplayCaches s) k = Some i \<Longrightarrow> i \<in> table_refs s"
  unfolding table_refs_def by (metis image_eqI map_of_SomeD snd_conv)

lemmas refs_defs = held_refs_def table_refs_def

lemma cache_ok_bytes: "cache_ok c \<Longrightarrow> 0 \<le> rc_bytes c"
  by (force simp: cache_ok_def steps_bytes_def intro!: sum_list_nonneg)

definition cleared :: "replay_cache \<Rightarrow> replay_cache" where
  "cleared c = c\<lparr>rc_released := True, rc_steps := [], nextOrdinal := 0, rc_complete := False, rc_bytes := 0\<rparr>"

lemma cleared_simps [simp]:
  "rc_released (cleared c)" "rc_steps (cleared c) = []" "rc_bytes (cleared c) = 0"
  "activeControllers (cleared c) = activeControllers c" "rc_key (cleared c) = rc_key c"
  by (simp_all add: cleared_def)

lemma cleared_ok: "activeControllers c = 0 \<Longrightarrow> cache_ok (cleared c)"
  by (simp add: cache_ok_def steps_bytes_def)

lemma clear_held:
  "i \<in> set (detachedReplayCaches s) \<Longrightarrow> clearWorkflowReplayCache i s =
     s\<lparr>detachedReplayCaches := removeAll i (detachedReplayCaches s),
       detachedBytes := detachedBytes s - rc_bytes (obj s i), obj := (obj s)(i := cleared (obj s i))\<rparr>"
  by (simp add: clearWorkflowReplayCache_def update_obj_def cleared_def Let_def)

lemma clear_free:
  "i \<notin> set (detachedReplayCaches s) \<Longrightarrow> clearWorkflowReplayCache i s = s\<lparr>obj := (obj s)(i := cleared (obj s i))\<rparr>"
  by (simp add: clearWorkflowReplayCache_def update_obj_def cleared_def Let_def)

definition evicted_idle :: "string \<Rightarrow> nat \<Rightarrow> replay \<Rightarrow> replay" where
  "evicted_idle key i s = s\<lparr>cacheSteps := cacheSteps s - int (length (rc_steps (obj s i))),
     cacheBytes := cacheBytes s - rc_bytes (obj s i),
     workflowReplayCaches := omap_delete key (workflowReplayCaches s), obj := (obj s)(i := cleared (obj s i))\<rparr>"

definition evicted_busy :: "string \<Rightarrow> nat \<Rightarrow> replay \<Rightarrow> replay" where
  "evicted_busy key i s = s\<lparr>cacheSteps := cacheSteps s - int (length (rc_steps (obj s i))),
     cacheBytes := cacheBytes s - rc_bytes (obj s i),
     workflowReplayCaches := omap_delete key (workflowReplayCaches s),
     detachedReplayCaches := detachedReplayCaches s @ [i],
     detachedBytes := detachedBytes s + rc_bytes (obj s i)\<rparr>"

lemma table_not_detached: "shape s \<Longrightarrow> i \<in> table_refs s \<Longrightarrow> i \<notin> set (detachedReplayCaches s)"
  using shape_detached(2) by fast

lemma evict_cases:
  assumes "shape s"
  shows "evictWorkflowReplayCache key s =
    (case map_of (workflowReplayCaches s) key of None \<Rightarrow> s
     | Some i \<Rightarrow> if activeControllers (obj s i) = 0 then evicted_idle key i s else evicted_busy key i s)"
proof (cases "map_of (workflowReplayCaches s) key")
  case (Some i)
  then have "i \<notin> set (detachedReplayCaches s)"
    using assms by (intro table_not_detached map_of_table_ref)
  then show ?thesis using Some
    by (simp add: evictWorkflowReplayCache_def Let_def clear_free evicted_idle_def evicted_busy_def)
qed (simp add: evictWorkflowReplayCache_def)

lemma shape_evicted_idle:
  assumes s: "shape s" and i: "map_of (workflowReplayCaches s) key = Some i" and idle: "activeControllers (obj s i) = 0"
  shows "shape (evicted_idle key i s)"
proof -
  let ?s = "evicted_idle key i s"
  have refs: "table_refs ?s = table_refs s - {i}"
    using table_refs_delete [OF s i] by (simp add: evicted_idle_def table_refs_def)
  have det: "detachedReplayCaches ?s = detachedReplayCaches s" by (simp add: evicted_idle_def)
  have held: "held_refs ?s = held_refs s - {i}"
    using refs det table_not_detached [OF s map_of_table_ref [OF i]] by (auto simp: held_refs_def)
  have obj: "obj ?s = (obj s)(i := cleared (obj s i))" by (simp add: evicted_idle_def)
  have sub: "set (workflowReplayCaches ?s) \<subseteq> set (workflowReplayCaches s)"
    by (auto simp: evicted_idle_def omap_delete_def)
  show ?thesis unfolding shape_def
  proof (intro conjI)
    show "omap_wf (workflowReplayCaches ?s)"
      using shape_wf [OF s] by (simp add: evicted_idle_def omap_wf_delete omap_wf_def [symmetric])
    show "\<forall>(k, j) \<in> set (workflowReplayCaches ?s). rc_key (obj ?s j) = k"
      using shape_keys [OF s] sub by (auto simp: obj)
    show "distinct (detachedReplayCaches ?s)" using shape_detached [OF s] det by simp
    show "table_refs ?s \<inter> set (detachedReplayCaches ?s) = {}" using shape_detached [OF s] refs det by auto
    show "\<forall>j. rc_released (obj ?s j) \<longleftrightarrow> j \<notin> held_refs ?s" using shape_released [OF s] by (simp add: obj held)
    show "\<forall>j \<in> held_refs ?s. j < fresh_ref ?s" unfolding held using shape_fresh [OF s] by (simp add: evicted_idle_def)
    show "\<forall>j \<in> set (detachedReplayCaches ?s). activeControllers (obj ?s j) > 0"
      using shape_active [OF s] by (simp add: det obj)
    show "\<forall>j. cache_ok (obj ?s j)" using shape_caches [OF s] cleared_ok [OF idle] by (simp add: obj)
    show "omap_wf (replayReadLeases ?s)" "\<forall>(l, b) \<in> set (replayReadLeases ?s). l < fresh_lease ?s \<and> 0 \<le> b"
      using shape_leases [OF s] by (simp_all add: evicted_idle_def omap_wf_def)
  qed
qed

lemma shape_evicted_busy:
  assumes s: "shape s" and i: "map_of (workflowReplayCaches s) key = Some i" and busy: "activeControllers (obj s i) > 0"
  shows "shape (evicted_busy key i s)"
proof -
  let ?s = "evicted_busy key i s"
  have it: "i \<in> table_refs s" using i by (rule map_of_table_ref)
  have refs: "table_refs ?s = table_refs s - {i}"
    using table_refs_delete [OF s i] by (simp add: evicted_busy_def table_refs_def)
  have det: "detachedReplayCaches ?s = detachedReplayCaches s @ [i]" by (simp add: evicted_busy_def)
  have held: "held_refs ?s = held_refs s" using refs det it by (auto simp: held_refs_def)
  have obj: "obj ?s = obj s" by (simp add: evicted_busy_def)
  have sub: "set (workflowReplayCaches ?s) \<subseteq> set (workflowReplayCaches s)"
    by (auto simp: evicted_busy_def omap_delete_def)
  show ?thesis unfolding shape_def
  proof (intro conjI)
    show "omap_wf (workflowReplayCaches ?s)"
      using shape_wf [OF s] by (simp add: evicted_busy_def omap_wf_delete omap_wf_def [symmetric])
    show "\<forall>(k, j) \<in> set (workflowReplayCaches ?s). rc_key (obj ?s j) = k"
      using shape_keys [OF s] sub by (auto simp: obj)
    show "distinct (detachedReplayCaches ?s)"
      using shape_detached [OF s] det table_not_detached [OF s it] by simp
    show "table_refs ?s \<inter> set (detachedReplayCaches ?s) = {}" using shape_detached [OF s] refs det by auto
    show "\<forall>j. rc_released (obj ?s j) \<longleftrightarrow> j \<notin> held_refs ?s" using shape_released [OF s] by (simp add: obj held)
    show "\<forall>j \<in> held_refs ?s. j < fresh_ref ?s" unfolding held using shape_fresh [OF s] by (simp add: evicted_busy_def)
    show "\<forall>j \<in> set (detachedReplayCaches ?s). activeControllers (obj ?s j) > 0"
      using shape_active [OF s] busy by (simp add: det obj)
    show "\<forall>j. cache_ok (obj ?s j)" using shape_caches [OF s] by (simp add: obj)
    show "omap_wf (replayReadLeases ?s)" "\<forall>(l, b) \<in> set (replayReadLeases ?s). l < fresh_lease ?s \<and> 0 \<le> b"
      using shape_leases [OF s] by (simp_all add: evicted_busy_def omap_wf_def)
  qed
qed

lemma accountsD:
  assumes "accounts s"
  shows "cacheBytes s = (\<Sum>i \<in> table_refs s. rc_bytes (obj s i))"
    "cacheSteps s = (\<Sum>i \<in> table_refs s. int (length (rc_steps (obj s i))))"
    "detachedBytes s = (\<Sum>i \<in> set (detachedReplayCaches s). rc_bytes (obj s i))"
    "activeBytes s = (\<Sum>i \<in> held_refs s. active_part s i)"
    "readBytes s = (\<Sum>(_, b) \<leftarrow> replayReadLeases s. b)"
  using assms unfolding accounts_def by blast+

lemma sum_drop:
  fixes f g :: "nat \<Rightarrow> int"
  assumes "finite A" "i \<in> A" "\<And>j. j \<noteq> i \<Longrightarrow> g j = f j"
  shows "sum g (A - {i}) = sum f A - f i"
proof -
  have "sum g (A - {i}) = sum f (A - {i})" using assms(3) by (intro sum.cong) auto
  then show ?thesis using assms(1,2) by (simp add: sum_diff1)
qed

lemma accounts_evicted_idle:
  assumes s: "shape s" "accounts s" and i: "map_of (workflowReplayCaches s) key = Some i" and idle: "activeControllers (obj s i) = 0"
  shows "accounts (evicted_idle key i s)"
proof -
  let ?s = "evicted_idle key i s"
  have it: "i \<in> table_refs s" using i by (rule map_of_table_ref)
  have refs: "table_refs ?s = table_refs s - {i}"
    using table_refs_delete [OF s(1) i] by (simp add: evicted_idle_def table_refs_def)
  have det: "detachedReplayCaches ?s = detachedReplayCaches s" by (simp add: evicted_idle_def)
  have nd: "i \<notin> set (detachedReplayCaches s)" by (rule table_not_detached [OF s(1) it])
  then have held: "held_refs ?s = held_refs s - {i}" using refs det by (auto simp: held_refs_def)
  have obj: "j \<noteq> i \<Longrightarrow> obj ?s j = obj s j" for j by (simp add: evicted_idle_def)
  show ?thesis unfolding accounts_def
  proof (intro conjI)
    show "cacheBytes ?s = (\<Sum>j \<in> table_refs ?s. rc_bytes (obj ?s j))"
      unfolding refs using it accountsD(1) [OF s(2)] obj
      by (subst sum_drop [where f = "\<lambda>j. rc_bytes (obj s j)"]) (simp_all add: evicted_idle_def)
    show "cacheSteps ?s = (\<Sum>j \<in> table_refs ?s. int (length (rc_steps (obj ?s j))))"
      unfolding refs using it accountsD(2) [OF s(2)] obj
      by (subst sum_drop [where f = "\<lambda>j. int (length (rc_steps (obj s j)))"]) (simp_all add: evicted_idle_def)
    show "detachedBytes ?s = (\<Sum>j \<in> set (detachedReplayCaches ?s). rc_bytes (obj ?s j))"
      unfolding det using nd accountsD(3) [OF s(2)] obj
      by (subst sum_same [where i = i and f = "\<lambda>j. rc_bytes (obj s j)"]) (simp_all add: evicted_idle_def)
    have "active_part s i = 0" using idle by (simp add: active_part_def)
    then show "activeBytes ?s = (\<Sum>j \<in> held_refs ?s. active_part ?s j)"
      unfolding held using it accountsD(4) [OF s(2)] obj
      by (subst sum_drop [where f = "active_part s"]) (simp_all add: evicted_idle_def held_refs_def active_part_def)
    show "readBytes ?s = (\<Sum>(_, b) \<leftarrow> replayReadLeases ?s. b)"
      using accountsD(5) [OF s(2)] by (simp add: evicted_idle_def)
  qed
qed

lemma accounts_evicted_busy:
  assumes s: "shape s" "accounts s" and i: "map_of (workflowReplayCaches s) key = Some i"
  shows "accounts (evicted_busy key i s)"
proof -
  let ?s = "evicted_busy key i s"
  have it: "i \<in> table_refs s" using i by (rule map_of_table_ref)
  have refs: "table_refs ?s = table_refs s - {i}"
    using table_refs_delete [OF s(1) i] by (simp add: evicted_busy_def table_refs_def)
  have det: "detachedReplayCaches ?s = detachedReplayCaches s @ [i]" by (simp add: evicted_busy_def)
  have nd: "i \<notin> set (detachedReplayCaches s)" by (rule table_not_detached [OF s(1) it])
  have held: "held_refs ?s = held_refs s" using refs det it by (auto simp: held_refs_def)
  have obj: "obj ?s = obj s" by (simp add: evicted_busy_def)
  have act: "active_part ?s = active_part s" unfolding active_part_def obj by simp
  show ?thesis unfolding accounts_def obj held act refs det
    using it nd accountsD [OF s(2)] by (simp add: evicted_busy_def sum_diff1)
qed

lemma working_evicted:
  "replayWorkingSetBytes (evicted_idle key i s) = replayWorkingSetBytes s - rc_bytes (obj s i)"
  "replayWorkingSetBytes (evicted_busy key i s) = replayWorkingSetBytes s"
  by (simp_all add: replayWorkingSetBytes_def evicted_idle_def evicted_busy_def)

lemma high_evicted [simp]:
  "highWaterBytes (evicted_idle key i s) = highWaterBytes s" "highWaterBytes (evicted_busy key i s) = highWaterBytes s"
  by (simp_all add: evicted_idle_def evicted_busy_def)

lemma coreD: "core s \<Longrightarrow> shape s" "core s \<Longrightarrow> accounts s" "core s \<Longrightarrow> bounded s"
  by (simp_all add: core_def)

lemma core_evict:
  assumes "core s"
  shows "core (evictWorkflowReplayCache key s)"
proof (cases "map_of (workflowReplayCaches s) key")
  case None
  then show ?thesis using assms by (simp add: evict_cases coreD)
next
  case (Some i)
  have "0 \<le> rc_bytes (obj s i)" using shape_caches [OF coreD(1) [OF assms]] cache_ok_bytes by blast
  then have "bounded (evicted_idle key i s)" "bounded (evicted_busy key i s)"
    using coreD(3) [OF assms] by (simp_all add: bounded_def working_evicted)
  then show ?thesis using Some coreD [OF assms]
    by (simp add: evict_cases core_def shape_evicted_idle shape_evicted_busy accounts_evicted_idle accounts_evicted_busy)
qed

section \<open>Reservations\<close>

text \<open>What a reservation leaves alone: a cache that is kept or in use, the leases, the limits.\<close>

definition unaffected :: "nat \<Rightarrow> replay \<Rightarrow> replay \<Rightarrow> bool" where
  "unaffected j s s' \<longleftrightarrow> obj s' j = obj s j \<and> (j \<in> table_refs s' \<longleftrightarrow> j \<in> table_refs s)
     \<and> detachedReplayCaches s' = detachedReplayCaches s"

definition shrunk :: "replay \<Rightarrow> replay \<Rightarrow> bool" where
  "shrunk s s' \<longleftrightarrow> replayReadLeases s' = replayReadLeases s \<and> readBytes s' = readBytes s
     \<and> fresh_lease s' = fresh_lease s \<and> length (workflowReplayCaches s') \<le> length (workflowReplayCaches s)
     \<and> cacheBytes s' \<le> cacheBytes s \<and> replayWorkingSetBytes s' \<le> replayWorkingSetBytes s"

lemma unaffected_refl [simp]: "unaffected j s s" by (simp add: unaffected_def)
lemma shrunk_refl [simp]: "shrunk s s" by (simp add: shrunk_def)

lemma unaffected_trans: "unaffected j s s' \<Longrightarrow> unaffected j s' s'' \<Longrightarrow> unaffected j s s''"
  by (simp add: unaffected_def)

lemma shrunk_trans: "shrunk s s' \<Longrightarrow> shrunk s' s'' \<Longrightarrow> shrunk s s''"
  by (simp add: shrunk_def)

lemma core_outcome: "core (recordWorkflowReplayCacheOutcome x s) \<longleftrightarrow> core s"
  by (simp add: recordWorkflowReplayCacheOutcome_def core_def shape_def accounts_def bounded_def
      refs_defs active_part_def replayWorkingSetBytes_def cong: if_cong)

lemma outcome_same [simp]:
  "unaffected j s (recordWorkflowReplayCacheOutcome x s)" "shrunk s (recordWorkflowReplayCacheOutcome x s)"
  by (simp_all add: recordWorkflowReplayCacheOutcome_def unaffected_def shrunk_def table_refs_def replayWorkingSetBytes_def)

lemma evict_idle_frame:
  assumes s: "core s" and i: "map_of (workflowReplayCaches s) key = Some i" and idle: "activeControllers (obj s i) = 0"
  shows "shrunk s (evictWorkflowReplayCache key s)" "j \<noteq> i \<Longrightarrow> unaffected j s (evictWorkflowReplayCache key s)"
    "workflowReplayCaches (evictWorkflowReplayCache key s) = omap_delete key (workflowReplayCaches s)"
proof -
  have ev: "evictWorkflowReplayCache key s = evicted_idle key i s"
    using i idle coreD(1) [OF s] by (simp add: evict_cases)
  have "0 \<le> rc_bytes (obj s i)" using shape_caches [OF coreD(1) [OF s]] cache_ok_bytes by blast
  then show "shrunk s (evictWorkflowReplayCache key s)" unfolding ev shrunk_def
    by (simp add: working_evicted) (simp add: evicted_idle_def length_omap_delete)
  show "unaffected j s (evictWorkflowReplayCache key s)" if "j \<noteq> i"
    using that table_refs_delete [OF coreD(1) [OF s] i] unfolding ev unaffected_def
    by (simp add: evicted_idle_def table_refs_def)
  show "workflowReplayCaches (evictWorkflowReplayCache key s) = omap_delete key (workflowReplayCaches s)"
    unfolding ev by (simp add: evicted_idle_def)
qed

text \<open>
  The loop of \<open>reserveWorkingSet\<close>: the invariant is kept, kept and active caches are
  untouched, success makes room, and on failure only kept and active caches are left.
\<close>

lemma reserve_loop_spec:
  assumes "core s" "distinct (map fst es)" "\<forall>(k, i) \<in> set es. map_of (workflowReplayCaches s) k = Some i"
    "\<forall>(k, i) \<in> set (workflowReplayCaches s) - set es. keep = Some i \<or> activeControllers (obj s i) > 0"
    "reserve_loop b keep es s = (s', r)"
  shows "core s' \<and> shrunk s s' \<and> (\<forall>j. keep = Some j \<or> activeControllers (obj s j) > 0 \<longrightarrow> unaffected j s s')
    \<and> (r = Ok () \<longrightarrow> replayWorkingSetBytes s' + b \<le> WORKFLOW_REPLAY_WORKING_SET_MAX_BYTES)
    \<and> (r \<noteq> Ok () \<longrightarrow> (\<forall>(k, i) \<in> set (workflowReplayCaches s'). keep = Some i \<or> activeControllers (obj s' i) > 0))"
  using assms
proof (induction es arbitrary: s)
  case Nil
  then show ?case by (auto simp: core_outcome) (auto simp: recordWorkflowReplayCacheOutcome_def)
next
  case (Cons e es)
  obtain k i where e: "e = (k, i)" by (cases e)
  show ?case
  proof (cases "keep = Some i \<or> activeControllers (obj s i) > 0")
    case True
    with Cons.prems(5) e have run: "reserve_loop b keep es s = (s', r)" by auto
    show ?thesis
      using Cons.prems(2-4) True e by (intro Cons.IH [OF Cons.prems(1) _ _ _ run]) auto
  next
    case False
    let ?s = "evictWorkflowReplayCache k s"
    have i: "map_of (workflowReplayCaches s) k = Some i" using Cons.prems(3) e by simp
    have idle: "activeControllers (obj s i) = 0" using False by simp
    note frame = evict_idle_frame [OF Cons.prems(1) i idle]
    have core: "core ?s" using Cons.prems(1) by (rule core_evict)
    have keepers: "unaffected j s ?s" if "keep = Some j \<or> activeControllers (obj s j) > 0" for j
      using frame(2) [of j] that False by blast
    show ?thesis
    proof (cases "replayWorkingSetBytes ?s + b \<le> WORKFLOW_REPLAY_WORKING_SET_MAX_BYTES")
      case True
      with Cons.prems(5) e False have "s' = ?s" "r = Ok ()" by (auto simp: Let_def)
      then show ?thesis using core frame(1) keepers True by simp
    next
      case more: False
      have run: "reserve_loop b keep es ?s = (s', r)" using Cons.prems(5) e False more by (auto simp: Let_def)
      have sub: "set (workflowReplayCaches ?s) \<subseteq> set (workflowReplayCaches s) - {(k, i)}"
        unfolding frame(3) by (auto simp: omap_delete_def)
      have left: "keep = Some i' \<or> activeControllers (obj ?s i') > 0"
        if "(k', i') \<in> set (workflowReplayCaches ?s) - set es" for k' i'
      proof -
        have "keep = Some i' \<or> activeControllers (obj s i') > 0" using that sub Cons.prems(4) e by auto
        then show ?thesis using keepers [of i'] by (auto simp: unaffected_def)
      qed
      have "core s' \<and> shrunk ?s s' \<and> (\<forall>j. keep = Some j \<or> activeControllers (obj ?s j) > 0 \<longrightarrow> unaffected j ?s s')
        \<and> (r = Ok () \<longrightarrow> replayWorkingSetBytes s' + b \<le> WORKFLOW_REPLAY_WORKING_SET_MAX_BYTES)
        \<and> (r \<noteq> Ok () \<longrightarrow> (\<forall>(k, i) \<in> set (workflowReplayCaches s'). keep = Some i \<or> activeControllers (obj s' i) > 0))"
      proof (intro Cons.IH [OF core _ _ _ run])
        show "distinct (map fst es)" using Cons.prems(2) by simp
        show "\<forall>(k, i) \<in> set es. map_of (workflowReplayCaches ?s) k = Some i"
          using Cons.prems(2,3) e unfolding frame(3) by (auto simp: rev_image_eqI)
        show "\<forall>(k, i) \<in> set (workflowReplayCaches ?s) - set es. keep = Some i \<or> activeControllers (obj ?s i) > 0"
          using left by (intro ballI) (simp only: split_paired_all prod.case)
      qed
      moreover have "keep = Some j \<or> activeControllers (obj ?s j) > 0"
        if "keep = Some j \<or> activeControllers (obj s j) > 0" for j
        using that keepers [OF that] by (auto simp: unaffected_def)
      ultimately show ?thesis using frame(1) keepers
        by (metis (no_types, lifting) shrunk_trans unaffected_trans)
    qed
  qed
qed

lemma reserve_spec:
  assumes "core s" "reserveWorkingSet b keep s = (s', r)"
  shows "core s' \<and> shrunk s s' \<and> (\<forall>j. keep = Some j \<or> activeControllers (obj s j) > 0 \<longrightarrow> unaffected j s s')
    \<and> (r = Ok () \<longrightarrow> replayWorkingSetBytes s' + b \<le> WORKFLOW_REPLAY_WORKING_SET_MAX_BYTES)
    \<and> (r \<noteq> Ok () \<longrightarrow> (\<forall>(k, i) \<in> set (workflowReplayCaches s'). keep = Some i \<or> activeControllers (obj s' i) > 0))"
proof (cases "replayWorkingSetBytes s + b \<le> WORKFLOW_REPLAY_WORKING_SET_MAX_BYTES")
  case True
  with assms show ?thesis by (simp add: reserveWorkingSet_def)
next
  case False
  then have run: "reserve_loop b keep (workflowReplayCaches s) s = (s', r)"
    using assms(2) by (simp add: reserveWorkingSet_def)
  have d: "distinct (map fst (workflowReplayCaches s))" using assms(1) by (intro shape_wf coreD)
  show ?thesis
    using map_of_is_SomeI [OF d] by (intro reserve_loop_spec [OF assms(1) d _ _ run]) auto
qed

lemma core_evictOldest: "core s \<Longrightarrow> core (evictOldestWorkflowReplayCache s)"
  by (auto simp: evictOldestWorkflowReplayCache_def core_evict split: list.split)

lemma evictOldest_table:
  assumes "core s"
  shows "workflowReplayCaches (evictOldestWorkflowReplayCache s) = tl (workflowReplayCaches s)"
proof (cases "workflowReplayCaches s")
  case (Cons e es)
  obtain k i where e: "e = (k, i)" by (cases e)
  have "k \<notin> fst ` set es" using shape_wf [OF coreD(1) [OF assms]] Cons e by simp
  then have "omap_delete k (workflowReplayCaches s) = es"
    using Cons e by (auto simp: omap_delete_def filter_id_conv rev_image_eqI)
  then show ?thesis using Cons e coreD(1) [OF assms]
    by (simp add: evictOldestWorkflowReplayCache_def evict_cases evicted_idle_def evicted_busy_def)
qed (simp add: evictOldestWorkflowReplayCache_def)

lemma no_table_no_bytes: "core s \<Longrightarrow> workflowReplayCaches s = [] \<Longrightarrow> cacheBytes s = 0"
  using accountsD(1) [OF coreD(2)] by (simp add: table_refs_def)

text \<open>
  Evicting the oldest cache while a condition holds ends, provided the condition fails on an
  empty table; it keeps the invariant and every active cache object.
\<close>

lemma evict_while:
  assumes "core s" "\<And>s. core s \<Longrightarrow> P s \<Longrightarrow> workflowReplayCaches s \<noteq> []"
  shows "\<exists>s'. while_option P evictOldestWorkflowReplayCache s = Some s' \<and> core s' \<and> \<not> P s'
    \<and> (\<exists>n. workflowReplayCaches s' = drop n (workflowReplayCaches s))
    \<and> (\<forall>j. activeControllers (obj s j) > 0 \<longrightarrow> obj s' j = obj s j)"
proof -
  let ?I = "\<lambda>s'. core s' \<and> (\<exists>n. workflowReplayCaches s' = drop n (workflowReplayCaches s))
    \<and> (\<forall>j. activeControllers (obj s j) > 0 \<longrightarrow> obj s' j = obj s j)"
  have step: "?I (evictOldestWorkflowReplayCache t)" if "?I t" for t
  proof (intro conjI)
    from that obtain n where "workflowReplayCaches t = drop n (workflowReplayCaches s)" by blast
    then show "\<exists>n. workflowReplayCaches (evictOldestWorkflowReplayCache t) = drop n (workflowReplayCaches s)"
      using that by (intro exI [of _ "Suc n"]) (simp add: evictOldest_table drop_Suc tl_drop)
    show "\<forall>j. activeControllers (obj s j) > 0 \<longrightarrow> obj (evictOldestWorkflowReplayCache t) j = obj s j"
      using that coreD(1) [of t]
      by (auto simp: evictOldestWorkflowReplayCache_def evict_cases evicted_idle_def evicted_busy_def
          split: list.split option.split)
  qed (use that core_evictOldest in blast)
  have less: "length (workflowReplayCaches (evictOldestWorkflowReplayCache t)) < length (workflowReplayCaches t)"
    if "?I t" "P t" for t
    using that assms(2) [of t] by (cases "workflowReplayCaches t") (simp_all add: evictOldest_table)
  have init: "?I s" using assms(1) by (auto intro: exI [of _ 0])
  obtain s' where s': "while_option P evictOldestWorkflowReplayCache s = Some s'"
    using measure_while_option_Some [where P = ?I and b = P and c = evictOldestWorkflowReplayCache
        and f = "\<lambda>s. length (workflowReplayCaches s)" and s = s] step less init by blast
  have "?I s'" by (rule while_option_rule [where P = ?I, OF _ s' init]) (rule step)
  with s' while_option_stop [OF s'] show ?thesis by blast
qed

section \<open>Storing steps\<close>

definition with_steps :: "nat \<Rightarrow> (int, replay_step \<times> int) omap \<Rightarrow> int \<Rightarrow> int \<Rightarrow> replay \<Rightarrow> replay" where
  "with_steps i steps d n s = charge (in_table s i) i d n (update_obj i (\<lambda>c. c\<lparr>rc_steps := steps\<rparr>) s)"

lemma with_steps_fields:
  assumes "shape s"
  shows "obj (with_steps i steps d n s) = (obj s)(i := (obj s i)\<lparr>rc_steps := steps, rc_bytes := rc_bytes (obj s i) + d\<rparr>)"
    "activeBytes (with_steps i steps d n s) = activeBytes s + (if activeControllers (obj s i) > 0 then d else 0)"
    "detachedBytes (with_steps i steps d n s) = detachedBytes s + (if i \<in> set (detachedReplayCaches s) then d else 0)"
    "cacheSteps (with_steps i steps d n s) = cacheSteps s + (if i \<in> table_refs s then n else 0)"
    "cacheBytes (with_steps i steps d n s) = cacheBytes s + (if i \<in> table_refs s then d else 0)"
    "workflowReplayCaches (with_steps i steps d n s) = workflowReplayCaches s"
    "detachedReplayCaches (with_steps i steps d n s) = detachedReplayCaches s"
    "replayReadLeases (with_steps i steps d n s) = replayReadLeases s"
    "fresh_ref (with_steps i steps d n s) = fresh_ref s" "fresh_lease (with_steps i steps d n s) = fresh_lease s"
    "readBytes (with_steps i steps d n s) = readBytes s" "highWaterBytes (with_steps i steps d n s) = highWaterBytes s"
  unfolding with_steps_def charge_def in_table_iff [OF assms] update_obj_def Let_def by simp_all

lemma with_steps_refs:
  assumes "shape s"
  shows "table_refs (with_steps i steps d n s) = table_refs s" "held_refs (with_steps i steps d n s) = held_refs s"
  using with_steps_fields [OF assms] by (simp_all add: refs_defs)

lemma shape_with_steps:
  assumes "shape s" "i \<in> held_refs s" "omap_wf steps" "length steps \<le> WORKFLOW_REPLAY_CACHE_MAX_STEPS_PER_INSTANCE"
    "steps_bytes steps = rc_bytes (obj s i) + d" "\<forall>(_, _, b) \<in> set steps. 0 \<le> b"
  shows "shape (with_steps i steps d n s)"
proof -
  have "\<not> rc_released (obj s i)" using shape_released [OF assms(1)] assms(2) by simp
  then have "cache_ok ((obj s i)\<lparr>rc_steps := steps, rc_bytes := rc_bytes (obj s i) + d\<rparr>)"
    using assms by (simp add: cache_ok_def)
  then show ?thesis using assms(1) unfolding shape_def with_steps_refs [OF assms(1)]
    by (simp add: with_steps_fields [OF assms(1)] split: if_split) fastforce
qed

lemma accounts_with_steps:
  assumes s: "shape s" "accounts s" and i: "i \<in> held_refs s"
    and n: "int (length steps) = int (length (rc_steps (obj s i))) + n"
  shows "accounts (with_steps i steps d n s)"
proof -
  let ?s = "with_steps i steps d n s"
  note F = with_steps_fields [OF s(1)] with_steps_refs [OF s(1)]
  have obj: "obj ?s j = obj s j" if "j \<noteq> i" for j using that by (simp add: F)
  show ?thesis unfolding accounts_def
  proof (intro conjI)
    show "cacheBytes ?s = (\<Sum>j \<in> table_refs ?s. rc_bytes (obj ?s j))"
      using accountsD(1) [OF s(2)]
        sum_swap_one [of "table_refs s" i "\<lambda>j. rc_bytes (obj ?s j)" "\<lambda>j. rc_bytes (obj s j)"]
        sum_same [of i "table_refs s" "\<lambda>j. rc_bytes (obj ?s j)" "\<lambda>j. rc_bytes (obj s j)"] obj
      by (simp add: F)
    show "cacheSteps ?s = (\<Sum>j \<in> table_refs ?s. int (length (rc_steps (obj ?s j))))"
      using accountsD(2) [OF s(2)] n
        sum_swap_one [of "table_refs s" i "\<lambda>j. int (length (rc_steps (obj ?s j)))" "\<lambda>j. int (length (rc_steps (obj s j)))"]
        sum_same [of i "table_refs s" "\<lambda>j. int (length (rc_steps (obj ?s j)))" "\<lambda>j. int (length (rc_steps (obj s j)))"] obj
      by (simp add: F)
    show "detachedBytes ?s = (\<Sum>j \<in> set (detachedReplayCaches ?s). rc_bytes (obj ?s j))"
      using accountsD(3) [OF s(2)]
        sum_swap_one [of "set (detachedReplayCaches s)" i "\<lambda>j. rc_bytes (obj ?s j)" "\<lambda>j. rc_bytes (obj s j)"]
        sum_same [of i "set (detachedReplayCaches s)" "\<lambda>j. rc_bytes (obj ?s j)" "\<lambda>j. rc_bytes (obj s j)"] obj
      by (simp add: F)
    show "activeBytes ?s = (\<Sum>j \<in> held_refs ?s. active_part ?s j)"
      using accountsD(4) [OF s(2)] i
        sum_swap_one [of "held_refs s" i "active_part ?s" "active_part s"]
      by (simp add: F active_part_def)
    show "readBytes ?s = (\<Sum>(_, b) \<leftarrow> replayReadLeases ?s. b)" using accountsD(5) [OF s(2)] by (simp add: F)
  qed
qed

lemma working_with_steps:
  assumes "shape s" "i \<in> held_refs s"
  shows "replayWorkingSetBytes (with_steps i steps d n s) = replayWorkingSetBytes s + d"
  using assms table_not_detached [OF assms(1), of i] with_steps_fields [OF assms(1), of i steps d n]
  by (auto simp: replayWorkingSetBytes_def held_refs_def)

text \<open>Only the steps and the bytes of the cache \<open>i\<close> and the counters have changed.\<close>

definition touched :: "nat \<Rightarrow> replay \<Rightarrow> replay \<Rightarrow> bool" where
  "touched i s s' \<longleftrightarrow> shape s' \<and> accounts s' \<and> (\<forall>j. j \<noteq> i \<longrightarrow> obj s' j = obj s j)
     \<and> activeControllers (obj s' i) = activeControllers (obj s i)
     \<and> workflowReplayCaches s' = workflowReplayCaches s \<and> detachedReplayCaches s' = detachedReplayCaches s
     \<and> highWaterBytes s' = highWaterBytes s \<and> (in_table s' i \<longleftrightarrow> in_table s i) \<and> held_refs s' = held_refs s"

lemma touched_trans: "touched i s s' \<Longrightarrow> touched i s' s'' \<Longrightarrow> touched i s s''"
  by (simp add: touched_def)

lemma touched_with_steps:
  assumes "shape s" "accounts s" "i \<in> held_refs s" "omap_wf steps"
    "length steps \<le> WORKFLOW_REPLAY_CACHE_MAX_STEPS_PER_INSTANCE"
    "steps_bytes steps = rc_bytes (obj s i) + d" "\<forall>(_, _, b) \<in> set steps. 0 \<le> b"
    "int (length steps) = int (length (rc_steps (obj s i))) + n"
  shows "touched i s (with_steps i steps d n s)"
proof -
  have sh: "shape (with_steps i steps d n s)" by (rule shape_with_steps) (fact assms)+
  show ?thesis unfolding touched_def
    using sh accounts_with_steps [OF assms(1,2,3,8)] in_table_iff [OF assms(1)] in_table_iff [OF sh]
    by (simp add: with_steps_fields [OF assms(1)] with_steps_refs [OF assms(1)])
qed

lemma steps_bytes_delete:
  assumes "omap_wf steps" "map_of steps k = Some (st, b)"
  shows "steps_bytes (omap_delete k steps) = steps_bytes steps - b"
    "length (omap_delete k steps) = length steps - 1" "steps \<noteq> []"
  using assms
proof (induction steps)
  case (Cons e steps)
  obtain k' st' b' where e: "e = (k', st', b')" by (cases e)
  {
    case 1
    show ?case
    proof (cases "k' = k")
      case True
      then have "map_of steps k = None" using 1(1) e by (simp add: omap_wf_def map_of_eq_None_iff)
      then show ?thesis using 1(2) e True omap_delete_fresh [of steps k] by (simp add: omap_delete_def steps_bytes_def)
    next
      case False
      then show ?thesis using Cons.IH(1) 1 e by (simp add: omap_wf_def omap_delete_def steps_bytes_def)
    qed
  next
    case 2
    show ?case
    proof (cases "k' = k")
      case True
      then have "map_of steps k = None" using 2(1) e by (simp add: omap_wf_def map_of_eq_None_iff)
      then show ?thesis using 2(2) e True omap_delete_fresh [of steps k] by (simp add: omap_delete_def)
    next
      case False
      then show ?thesis using Cons.IH(2,3) 2 e by (cases steps) (simp_all add: omap_wf_def omap_delete_def)
    qed
  next
    case 3
    show ?case by simp
  }
qed simp_all

lemma delete_spec:
  assumes s: "shape s" "accounts s" and i: "i \<in> held_refs s"
  shows "touched i s (deleteReplayStep i k s)"
    "rc_steps (obj (deleteReplayStep i k s) i) = omap_delete k (rc_steps (obj s i))"
    "replayWorkingSetBytes (deleteReplayStep i k s) = replayWorkingSetBytes s - step_bytes (rc_steps (obj s i)) k"
proof -
  let ?xs = "rc_steps (obj s i)" and ?s = "deleteReplayStep i k s"
  have ok: "cache_ok (obj s i)" using shape_caches [OF s(1)] by blast
  have "touched i s ?s \<and> rc_steps (obj ?s i) = omap_delete k ?xs
      \<and> replayWorkingSetBytes ?s = replayWorkingSetBytes s - step_bytes ?xs k"
  proof (cases "map_of ?xs k")
    case None
    then show ?thesis using s
      by (simp add: deleteReplayStep_def touched_def step_bytes_def omap_delete_fresh)
  next
    case (Some sb)
    obtain st b where sb: "sb = (st, b)" by (cases sb)
    with Some have k: "map_of ?xs k = Some (st, b)" by simp
    have wf: "omap_wf ?xs" using ok by (simp add: cache_ok_def)
    note del = steps_bytes_delete [OF wf k]
    have eq: "?s = with_steps i (omap_delete k ?xs) (- b) (- 1) s"
      using k by (simp add: deleteReplayStep_def with_steps_def update_obj_def)
    have "touched i s ?s" unfolding eq
    proof (rule touched_with_steps [OF s i])
      show "omap_wf (omap_delete k ?xs)" using wf by (rule omap_wf_delete)
      show "length (omap_delete k ?xs) \<le> WORKFLOW_REPLAY_CACHE_MAX_STEPS_PER_INSTANCE"
        using ok length_omap_delete [of k ?xs] by (simp add: cache_ok_def)
      show "steps_bytes (omap_delete k ?xs) = rc_bytes (obj s i) + - b" using ok del(1) by (simp add: cache_ok_def)
      show "\<forall>(_, _, b) \<in> set (omap_delete k ?xs). 0 \<le> b" using ok by (auto simp: cache_ok_def omap_delete_def)
      show "int (length (omap_delete k ?xs)) = int (length ?xs) + - 1" using del(2,3) by (cases ?xs) simp_all
    qed
    then show ?thesis unfolding eq using working_with_steps [OF s(1) i] with_steps_fields(1) [OF s(1)] k
      by (simp add: step_bytes_def)
  qed
  then show "touched i s ?s" "rc_steps (obj ?s i) = omap_delete k ?xs"
    "replayWorkingSetBytes ?s = replayWorkingSetBytes s - step_bytes ?xs k" by blast+
qed

definition replaced_bytes :: "(int, replay_step \<times> int) omap \<Rightarrow> int \<Rightarrow> int" where
  "replaced_bytes steps k =
     step_bytes steps k + (case oldest_step steps k of None \<Rightarrow> 0 | Some o1 \<Rightarrow> step_bytes steps o1)"

definition remaining_steps :: "(int, replay_step \<times> int) omap \<Rightarrow> int \<Rightarrow> (int, replay_step \<times> int) omap" where
  "remaining_steps steps k =
     (case oldest_step steps k of None \<Rightarrow> omap_delete k steps | Some o1 \<Rightarrow> omap_delete o1 (omap_delete k steps))"

lemma oldest_step_Some:
  assumes "oldest_step steps k = Some o1"
  shows "map_of steps k = None" "map_of steps o1 \<noteq> None" "omap_delete k steps = steps"
  using assms by (auto simp: oldest_step_def omap_delete_fresh split: if_splits list.splits)

lemma make_room_spec:
  fixes k :: int
  assumes s: "shape s" "accounts s" and i: "i \<in> held_refs s"
  defines "s1 \<equiv> deleteReplayStep i k s"
  defines "s2 \<equiv> (case oldest_step (rc_steps (obj s i)) k of None \<Rightarrow> s1 | Some o1 \<Rightarrow> deleteReplayStep i o1 s1)"
  shows "touched i s s2" "rc_steps (obj s2 i) = remaining_steps (rc_steps (obj s i)) k"
    "replayWorkingSetBytes s2 = replayWorkingSetBytes s - replaced_bytes (rc_steps (obj s i)) k"
proof -
  note d1 = delete_spec [OF s i, of k]
  have s1: "shape s1" "accounts s1" "i \<in> held_refs s1" using d1(1) i by (simp_all add: touched_def s1_def)
  note d2 = delete_spec [OF s1]
  show "touched i s s2"
    using d1(1) d2(1) touched_trans unfolding s1_def s2_def by (auto split: option.split)
  show "rc_steps (obj s2 i) = remaining_steps (rc_steps (obj s i)) k"
    using d1(2) d2(2) unfolding s2_def remaining_steps_def by (simp add: s1_def split: option.split)
  show "replayWorkingSetBytes s2 = replayWorkingSetBytes s - replaced_bytes (rc_steps (obj s i)) k"
    using d1(2,3) d2(3) oldest_step_Some [of "rc_steps (obj s i)" k] unfolding s2_def replaced_bytes_def
    by (auto simp: s1_def split: option.split)
qed

lemma remaining_steps_fresh:
  assumes "omap_wf steps" "length steps \<le> WORKFLOW_REPLAY_CACHE_MAX_STEPS_PER_INSTANCE"
  shows "map_of (remaining_steps steps k) k = None"
    "length (remaining_steps steps k) < WORKFLOW_REPLAY_CACHE_MAX_STEPS_PER_INSTANCE"
proof -
  show "map_of (remaining_steps steps k) k = None" by (simp add: remaining_steps_def split: option.split)
  have del: "length (omap_delete j steps) = length steps - 1 \<and> steps \<noteq> []" if "map_of steps j \<noteq> None" for j
    using that steps_bytes_delete(2,3) [OF assms(1), of j] by auto
  show "length (remaining_steps steps k) < WORKFLOW_REPLAY_CACHE_MAX_STEPS_PER_INSTANCE"
  proof (cases "oldest_step steps k")
    case None
    show ?thesis
    proof (cases "map_of steps k = None")
      case True
      have "length steps < WORKFLOW_REPLAY_CACHE_MAX_STEPS_PER_INSTANCE"
        using None True by (auto simp: oldest_step_def WORKFLOW_REPLAY_CACHE_MAX_STEPS_PER_INSTANCE_def split: if_splits list.splits)
      then show ?thesis using None length_omap_delete [of k steps] by (simp add: remaining_steps_def)
    next
      case False
      then show ?thesis using None del [of k] assms(2) by (cases steps) (simp_all add: remaining_steps_def)
    qed
  next
    case (Some o1)
    then show ?thesis using oldest_step_Some [OF Some] del [of o1] assms(2)
      by (cases steps) (simp_all add: remaining_steps_def)
  qed
qed

lemma remaining_steps_ok:
  assumes "omap_wf steps" "\<forall>(_, _, b) \<in> set steps. 0 \<le> b"
  shows "omap_wf (remaining_steps steps k)" "\<forall>(_, _, b) \<in> set (remaining_steps steps k). 0 \<le> b"
  using assms(1) apply (simp add: remaining_steps_def omap_wf_delete split: option.split)
  using assms(2) by (auto simp: remaining_steps_def omap_delete_def split: option.split)

lemma shape_high [simp]: "shape (recordReplayHighWater s) \<longleftrightarrow> shape s" "accounts (recordReplayHighWater s) \<longleftrightarrow> accounts s"
  by (simp_all add: recordReplayHighWater_def shape_def accounts_def refs_defs active_part_def cong: if_cong)

lemma core_high:
  assumes "shape s" "accounts s" "highWaterBytes s \<le> WORKFLOW_REPLAY_WORKING_SET_MAX_BYTES"
    "replayWorkingSetBytes s \<le> WORKFLOW_REPLAY_WORKING_SET_MAX_BYTES"
  shows "core (recordReplayHighWater s)"
  using assms by (simp add: core_def bounded_def) (simp add: recordReplayHighWater_def replayWorkingSetBytes_def)

lemma store_spec:
  fixes k :: int and st :: replay_step
  assumes s: "core s" and i: "i \<in> held_refs s" and b: "0 \<le> b"
    and room: "replayWorkingSetBytes s + (b - replaced_bytes (rc_steps (obj s i)) k) \<le> WORKFLOW_REPLAY_WORKING_SET_MAX_BYTES"
  defines "s' \<equiv> store_step (in_table s i) i k st b (oldest_step (rc_steps (obj s i)) k) s"
  shows "core s'" "rc_steps (obj s' i) = remaining_steps (rc_steps (obj s i)) k @ [(k, st, b)]"
    "activeControllers (obj s' i) = activeControllers (obj s i)" "workflowReplayCaches s' = workflowReplayCaches s"
    "j \<noteq> i \<Longrightarrow> obj s' j = obj s j"
proof -
  let ?xs = "rc_steps (obj s i)"
  define s2 where "s2 = (case oldest_step ?xs k of None \<Rightarrow> deleteReplayStep i k s
    | Some o1 \<Rightarrow> deleteReplayStep i o1 (deleteReplayStep i k s))"
  note room2 = make_room_spec [OF coreD(1) [OF s] coreD(2) [OF s] i, of k, folded s2_def]
  have ok: "cache_ok (obj s i)" using shape_caches [OF coreD(1) [OF s]] by blast
  have s2: "shape s2" "accounts s2" "i \<in> held_refs s2" using room2(1) i by (simp_all add: touched_def)
  have ok2: "cache_ok (obj s2 i)" using shape_caches [OF s2(1)] by blast
  let ?ys = "remaining_steps ?xs k"
  have ys: "map_of ?ys k = None" "length ?ys < WORKFLOW_REPLAY_CACHE_MAX_STEPS_PER_INSTANCE"
    using remaining_steps_fresh [of ?xs k] ok by (simp_all add: cache_ok_def)
  have set: "omap_set k (st, b) ?ys = ?ys @ [(k, st, b)]" by (rule omap_set_fresh [OF ys(1)])
  let ?s3 = "with_steps i (?ys @ [(k, st, b)]) b 1 s2"
  have eq: "s' = recordReplayHighWater ?s3"
    using room2(1,2) set unfolding s'_def store_step_def with_steps_def s2_def [symmetric]
    by (simp add: update_obj_def touched_def Let_def flip: s2_def split: option.split)
  have "touched i s2 ?s3"
  proof (rule touched_with_steps [OF s2])
    show "omap_wf (?ys @ [(k, st, b)])"
      using remaining_steps_ok(1) [of ?xs k] ok omap_wf_set [of ?ys k "(st, b)"] set by (simp add: cache_ok_def)
    show "length (?ys @ [(k, st, b)]) \<le> WORKFLOW_REPLAY_CACHE_MAX_STEPS_PER_INSTANCE" using ys(2) by simp
    show "steps_bytes (?ys @ [(k, st, b)]) = rc_bytes (obj s2 i) + b"
      using ok2 room2(2) by (simp add: cache_ok_def steps_bytes_def)
    show "\<forall>(_, _, b) \<in> set (?ys @ [(k, st, b)]). 0 \<le> b"
      using remaining_steps_ok(2) [of ?xs k] ok b by (simp add: cache_ok_def)
    show "int (length (?ys @ [(k, st, b)])) = int (length (rc_steps (obj s2 i))) + 1" using room2(2) by simp
  qed
  with room2(1) have t: "touched i s ?s3" by (rule touched_trans)
  have "replayWorkingSetBytes ?s3 \<le> WORKFLOW_REPLAY_WORKING_SET_MAX_BYTES"
    using working_with_steps [OF s2(1,3)] room2(3) room by simp
  then show "core s'" unfolding eq using t coreD(3) [OF s]
    by (intro core_high) (simp_all add: touched_def bounded_def)
  show "rc_steps (obj s' i) = ?ys @ [(k, st, b)]"
    unfolding eq using with_steps_fields(1) [OF s2(1)] by (simp add: recordReplayHighWater_def)
  show "activeControllers (obj s' i) = activeControllers (obj s i)" "workflowReplayCaches s' = workflowReplayCaches s"
    "j \<noteq> i \<Longrightarrow> obj s' j = obj s j"
    unfolding eq using t by (simp_all add: recordReplayHighWater_def touched_def)
qed

section \<open>The operations keep the invariant\<close>

lemma held_iff_unreleased: "core s \<Longrightarrow> i \<in> held_refs s \<longleftrightarrow> \<not> rc_released (obj s i)"
  using shape_released [OF coreD(1)] by blast

lemma cacheBytes_cong:
  assumes "accounts s" "accounts s'" "table_refs s' = table_refs s" "i \<notin> table_refs s"
    "\<And>j. j \<noteq> i \<Longrightarrow> obj s' j = obj s j"
  shows "cacheBytes s' = cacheBytes s"
  using assms sum_same [of i "table_refs s" "\<lambda>j. rc_bytes (obj s' j)" "\<lambda>j. rc_bytes (obj s j)"]
  by (simp add: accountsD)

lemma replay_invD: "replay_inv s \<Longrightarrow> core s" by (simp add: replay_inv_def)

lemma serialized_nonneg: "0 \<le> serializedReplayStepBytes st"
  by (simp add: serializedReplayStepBytes_def Let_def)

lemma delete_inv:
  assumes "replay_inv s" "i \<in> held_refs s"
  shows "replay_inv (deleteReplayStep i k s)"
proof -
  let ?s = "deleteReplayStep i k s" and ?xs = "rc_steps (obj s i)"
  note c = replay_invD [OF assms(1)]
  note d = delete_spec [OF coreD(1) [OF c] coreD(2) [OF c] assms(2), of k]
  have ok: "cache_ok (obj s i)" using shape_caches [OF coreD(1) [OF c]] by blast
  have nn: "0 \<le> step_bytes ?xs k"
    using ok by (fastforce simp: step_bytes_def cache_ok_def dest!: map_of_SomeD split: option.split)
  have bytes: "cacheBytes ?s = cacheBytes s - (if i \<in> table_refs s then step_bytes ?xs k else 0)"
  proof (cases "map_of ?xs k")
    case None
    then show ?thesis by (simp add: deleteReplayStep_def step_bytes_def)
  next
    case (Some sb)
    obtain st b where "sb = (st, b)" by (cases sb)
    with Some have k: "map_of ?xs k = Some (st, b)" by simp
    have eq: "?s = with_steps i (omap_delete k ?xs) (- b) (- 1) s"
      using k by (simp add: deleteReplayStep_def with_steps_def update_obj_def)
    show ?thesis unfolding eq with_steps_fields(5) [OF coreD(1) [OF c]] using k by (simp add: step_bytes_def)
  qed
  have "core ?s" unfolding core_def bounded_def using d nn coreD(3) [OF c] by (simp add: touched_def bounded_def)
  with d(1) assms(1) nn bytes show ?thesis by (auto simp: replay_inv_def touched_def)
qed

lemma evict_to_limit:
  assumes "core s" "length (workflowReplayCaches s) \<le> WORKFLOW_REPLAY_CACHE_MAX_INSTANCES"
  shows "\<exists>s'. while_option (\<lambda>s. cacheBytes s > WORKFLOW_REPLAY_CACHE_MAX_BYTES) evictOldestWorkflowReplayCache s = Some s'
    \<and> replay_inv s' \<and> (\<forall>j. activeControllers (obj s j) > 0 \<longrightarrow> obj s' j = obj s j)"
proof -
  have "workflowReplayCaches t \<noteq> []" if "core t" "cacheBytes t > WORKFLOW_REPLAY_CACHE_MAX_BYTES" for t
    using no_table_no_bytes [OF that(1)] that(2) by (auto simp: WORKFLOW_REPLAY_CACHE_MAX_BYTES_def)
  from evict_while [where P = "\<lambda>s. cacheBytes s > WORKFLOW_REPLAY_CACHE_MAX_BYTES", OF assms(1) this]
  show ?thesis using assms(2) by (fastforce simp: replay_inv_def)
qed

lemma remember_spec:
  assumes inv: "replay_inv s"
  shows "\<exists>s' r. rememberWorkflowReplayStep i k step s = Some (s', r) \<and> replay_inv s'
    \<and> (r = Ok () \<and> \<not> rc_released (obj s i) \<and> activeControllers (obj s i) > 0
       \<and> serializedReplayStepBytes (stored_step step) \<le> WORKFLOW_REPLAY_CACHE_MAX_BYTES
       \<longrightarrow> rc_steps (obj s' i) = remaining_steps (rc_steps (obj s i)) k
             @ [(k, stored_step step, serializedReplayStepBytes (stored_step step))])"
proof (cases "rc_released (obj s i)")
  case True
  then show ?thesis using inv by (simp add: rememberWorkflowReplayStep_def)
next
  case False
  note c = replay_invD [OF inv]
  have i: "i \<in> held_refs s" using False held_iff_unreleased [OF c] by simp
  let ?st = "stored_step step" and ?b = "serializedReplayStepBytes (stored_step step)" and ?xs = "rc_steps (obj s i)"
  show ?thesis
  proof (cases "?b > WORKFLOW_REPLAY_CACHE_MAX_BYTES")
    case True
    then show ?thesis using False delete_inv [OF inv i] by (simp add: rememberWorkflowReplayStep_def Let_def)
  next
    case small: False
    obtain s1 r where r: "reserveWorkingSet (max 0 (?b - replaced_bytes ?xs k)) (Some i) s = (s1, r)" by fastforce
    note R = reserve_spec [OF c r]
    have un: "unaffected i s s1" using R by blast
    show ?thesis
    proof (cases r)
      case (Inl e)
      then show ?thesis using R r False small inv
        by (auto simp: rememberWorkflowReplayStep_def Let_def replaced_bytes_def replay_inv_def shrunk_def)
    next
      case (Inr u)
      then have rOk: "r = Ok ()" by simp
      have c1: "core s1" using R by blast
      have obj1: "obj s1 i = obj s i" and tab1: "in_table s1 i \<longleftrightarrow> in_table s i" and i1: "i \<in> held_refs s1"
        using un i in_table_iff [OF coreD(1) [OF c]] in_table_iff [OF coreD(1) [OF c1]]
        by (auto simp: unaffected_def held_refs_def)
      have room: "replayWorkingSetBytes s1 + (?b - replaced_bytes (rc_steps (obj s1 i)) k) \<le> WORKFLOW_REPLAY_WORKING_SET_MAX_BYTES"
        using conjunct1 [OF conjunct2 [OF conjunct2 [OF conjunct2 [OF R]]]] rOk unfolding obj1 by linarith
      define s2 where "s2 = store_step (in_table s1 i) i k ?st ?b (oldest_step (rc_steps (obj s1 i)) k) s1"
      note S = store_spec [OF c1 i1 serialized_nonneg room, where st = ?st, folded s2_def]
      have len: "length (workflowReplayCaches s2) \<le> WORKFLOW_REPLAY_CACHE_MAX_INSTANCES"
        using S(4) R inv by (simp add: shrunk_def replay_inv_def)
      have run: "rememberWorkflowReplayStep i k step s =
          (if in_table s i then map_option (\<lambda>s3. (s3, Ok ())) (while_option (\<lambda>s. cacheBytes s > WORKFLOW_REPLAY_CACHE_MAX_BYTES)
             evictOldestWorkflowReplayCache s2) else Some (s2, Ok ()))"
        using False small r rOk obj1 tab1
        by (simp add: rememberWorkflowReplayStep_def Let_def replaced_bytes_def s2_def)
      show ?thesis
      proof (cases "in_table s i")
        case True
        obtain s3 where "while_option (\<lambda>s. cacheBytes s > WORKFLOW_REPLAY_CACHE_MAX_BYTES) evictOldestWorkflowReplayCache s2 = Some s3"
          "replay_inv s3" "\<forall>j. activeControllers (obj s2 j) > 0 \<longrightarrow> obj s3 j = obj s2 j"
          using evict_to_limit [OF S(1) len] by blast
        then show ?thesis unfolding run using True S(2,3) obj1 by simp
      next
        case nt: False
        have "i \<notin> table_refs s1" using nt tab1 in_table_iff [OF coreD(1) [OF c1]] by simp
        then have "cacheBytes s2 = cacheBytes s1"
          using S(4,5) by (intro cacheBytes_cong coreD c1 S(1)) (auto simp: table_refs_def)
        then show ?thesis unfolding run using nt S len R inv obj1 by (simp add: replay_inv_def shrunk_def)
      qed
    qed
  qed
qed

text \<open>Changing the number of controllers of a held cache, and rebinding the table.\<close>

definition set_active :: "nat \<Rightarrow> nat \<Rightarrow> replay \<Rightarrow> replay" where
  "set_active i n s = s\<lparr>obj := (obj s)(i := (obj s i)\<lparr>activeControllers := n\<rparr>),
     activeBytes := activeBytes s + (if n > 0 then rc_bytes (obj s i) else 0) - active_part s i\<rparr>"

lemma set_active_refs [simp]: "table_refs (set_active i n s) = table_refs s" "held_refs (set_active i n s) = held_refs s"
  by (simp_all add: set_active_def refs_defs)

lemma core_set_active:
  assumes s: "core s" and i: "i \<in> held_refs s" "n > 0 \<or> i \<notin> set (detachedReplayCaches s)"
  shows "core (set_active i n s)"
proof -
  let ?s = "set_active i n s"
  note sh = coreD(1) [OF s] and ac = coreD(2) [OF s]
  have obj: "obj ?s = (obj s)(i := (obj s i)\<lparr>activeControllers := n\<rparr>)" by (simp add: set_active_def)
  have rest: "workflowReplayCaches ?s = workflowReplayCaches s" "detachedReplayCaches ?s = detachedReplayCaches s"
    "fresh_ref ?s = fresh_ref s" "replayReadLeases ?s = replayReadLeases s" "fresh_lease ?s = fresh_lease s"
    "highWaterBytes ?s = highWaterBytes s" "cacheBytes ?s = cacheBytes s" "detachedBytes ?s = detachedBytes s"
    "readBytes ?s = readBytes s" "cacheSteps ?s = cacheSteps s"
    "activeBytes ?s = activeBytes s + (if n > 0 then rc_bytes (obj s i) else 0) - active_part s i"
    by (simp_all add: set_active_def)
  have "\<not> rc_released (obj s i)" using held_iff_unreleased [OF s] i(1) by simp
  then have "cache_ok ((obj s i)\<lparr>activeControllers := n\<rparr>)"
    using shape_caches [OF sh] by (simp add: cache_ok_def)
  then have "shape ?s" using sh i(2) unfolding shape_def rest set_active_refs obj
    by (simp split: if_split) fastforce
  moreover have "(\<Sum>j \<in> A. rc_bytes (obj ?s j)) = (\<Sum>j \<in> A. rc_bytes (obj s j))"
    "(\<Sum>j \<in> A. int (length (rc_steps (obj ?s j)))) = (\<Sum>j \<in> A. int (length (rc_steps (obj s j))))" for A
    unfolding obj by (intro sum.cong; simp)+
  then have "accounts ?s" unfolding accounts_def set_active_refs rest
    using accountsD [OF ac] sum_swap_one [of "held_refs s" i "active_part ?s" "active_part s"] i(1)
    by (simp add: active_part_def obj)
  moreover have "bounded ?s" using coreD(3) [OF s] by (simp add: bounded_def replayWorkingSetBytes_def rest)
  ultimately show ?thesis by (simp add: core_def)
qed

lemma inv_set_active:
  assumes "replay_inv s" "i \<in> held_refs s" "n > 0 \<or> i \<notin> set (detachedReplayCaches s)"
  shows "replay_inv (set_active i n s)"
  using core_set_active [OF replay_invD [OF assms(1)] assms(2,3)] assms(1)
  by (simp add: replay_inv_def set_active_def)

definition same_view :: "replay_cache \<Rightarrow> replay_cache \<Rightarrow> bool" where
  "same_view c d \<longleftrightarrow> rc_key d = rc_key c \<and> rc_steps d = rc_steps c \<and> rc_bytes d = rc_bytes c
     \<and> activeControllers d = activeControllers c \<and> rc_released d = rc_released c"

lemma inv_same_view:
  assumes inv: "replay_inv s" and view: "\<And>j. same_view (obj s j) (f j)"
    and tab: "set tab = set (workflowReplayCaches s)" "distinct (map fst tab)"
  shows "replay_inv (s\<lparr>obj := f, workflowReplayCaches := tab\<rparr>)"
proof -
  let ?s = "s\<lparr>obj := f, workflowReplayCaches := tab\<rparr>"
  note c = replay_invD [OF inv]
  have refs: "table_refs ?s = table_refs s" "held_refs ?s = held_refs s" by (simp_all add: refs_defs tab(1))
  have v: "rc_key (f j) = rc_key (obj s j)" "rc_steps (f j) = rc_steps (obj s j)" "rc_bytes (f j) = rc_bytes (obj s j)"
    "activeControllers (f j) = activeControllers (obj s j)" "rc_released (f j) = rc_released (obj s j)" for j
    using view [of j] by (simp_all add: same_view_def)
  have act: "active_part ?s = active_part s" by (rule ext) (simp add: active_part_def v)
  have "shape ?s" using coreD(1) [OF c] tab(2) unfolding shape_def refs by (simp add: v tab(1) cache_ok_def omap_wf_def)
  moreover have "accounts ?s" using coreD(2) [OF c] unfolding accounts_def refs act by (simp add: v)
  moreover have "bounded ?s" using coreD(3) [OF c] by (simp add: bounded_def replayWorkingSetBytes_def)
  moreover have "length tab = length (workflowReplayCaches s)"
    using tab shape_wf [OF coreD(1) [OF c]] by (metis distinct_card distinct_map)
  ultimately show ?thesis using inv by (simp add: replay_inv_def core_def)
qed

definition new_cache :: "string \<Rightarrow> string \<Rightarrow> replay_cache" where
  "new_cache key token = \<lparr>rc_key = key, lastRunToken = token, rc_steps = [], nextOrdinal = 0,
     rc_complete = False, rc_bytes = 0, activeControllers = 0, rc_released = False\<rparr>"

definition with_new_cache :: "string \<Rightarrow> string \<Rightarrow> replay \<Rightarrow> replay" where
  "with_new_cache key token s = s\<lparr>obj := (obj s)(fresh_ref s := new_cache key token), fresh_ref := fresh_ref s + 1,
     workflowReplayCaches := workflowReplayCaches s @ [(key, fresh_ref s)]\<rparr>"

lemma core_new_cache:
  assumes s: "core s" and key: "map_of (workflowReplayCaches s) key = None"
  shows "core (with_new_cache key token s)"
proof -
  let ?s = "with_new_cache key token s" and ?i = "fresh_ref s"
  note sh = coreD(1) [OF s] and ac = coreD(2) [OF s]
  have refs: "table_refs ?s = insert ?i (table_refs s)" "held_refs ?s = insert ?i (held_refs s)"
    by (simp_all add: with_new_cache_def refs_defs)
  have new: "?i \<notin> table_refs s" "?i \<notin> set (detachedReplayCaches s)" "?i \<notin> held_refs s"
    using shape_fresh [OF sh] by (auto simp: held_refs_def)
  have obj: "obj ?s = (obj s)(?i := new_cache key token)" by (simp add: with_new_cache_def)
  have rest: "detachedReplayCaches ?s = detachedReplayCaches s" "fresh_ref ?s = Suc ?i"
    "replayReadLeases ?s = replayReadLeases s" "fresh_lease ?s = fresh_lease s"
    "highWaterBytes ?s = highWaterBytes s" "cacheBytes ?s = cacheBytes s" "detachedBytes ?s = detachedBytes s"
    "readBytes ?s = readBytes s" "cacheSteps ?s = cacheSteps s" "activeBytes ?s = activeBytes s"
    "workflowReplayCaches ?s = workflowReplayCaches s @ [(key, ?i)]"
    by (simp_all add: with_new_cache_def)
  have "shape ?s" unfolding shape_def rest refs
  proof (intro conjI)
    show "omap_wf (workflowReplayCaches s @ [(key, ?i)])"
      using shape_wf [OF sh] key by (auto simp: omap_wf_def map_of_eq_None_iff)
    show "\<forall>(k, j) \<in> set (workflowReplayCaches s @ [(key, ?i)]). rc_key (obj ?s j) = k"
      using shape_keys [OF sh] new(1) unfolding obj by (force simp: new_cache_def table_refs_def)
    show "insert ?i (table_refs s) \<inter> set (detachedReplayCaches s) = {}" using shape_detached(2) [OF sh] new(2) by simp
    show "\<forall>j. rc_released (obj ?s j) \<longleftrightarrow> j \<notin> insert ?i (held_refs s)"
      using shape_released [OF sh] unfolding obj by (simp add: new_cache_def)
    show "\<forall>j \<in> insert ?i (held_refs s). j < Suc ?i" using shape_fresh [OF sh] by fastforce
    show "\<forall>j \<in> set (detachedReplayCaches s). activeControllers (obj ?s j) > 0"
      using shape_active [OF sh] new(2) unfolding obj by auto
    show "\<forall>j. cache_ok (obj ?s j)"
      using shape_caches [OF sh] unfolding obj by (simp add: new_cache_def cache_ok_def steps_bytes_def)
  qed (use shape_detached(1) [OF sh] shape_leases [OF sh] in \<open>simp_all add: omap_wf_def\<close>)
  moreover have "accounts ?s"
  proof -
    have old: "obj ?s j = obj s j" if "j \<noteq> ?i" for j using that by (simp add: obj)
    then have "(\<Sum>j \<in> table_refs s. rc_bytes (obj ?s j)) = (\<Sum>j \<in> table_refs s. rc_bytes (obj s j))"
      "(\<Sum>j \<in> table_refs s. int (length (rc_steps (obj ?s j)))) = (\<Sum>j \<in> table_refs s. int (length (rc_steps (obj s j))))"
      "(\<Sum>j \<in> set (detachedReplayCaches s). rc_bytes (obj ?s j)) = (\<Sum>j \<in> set (detachedReplayCaches s). rc_bytes (obj s j))"
      "(\<Sum>j \<in> held_refs s. active_part ?s j) = (\<Sum>j \<in> held_refs s. active_part s j)"
      using new by (intro sum_same [of ?i]; simp add: active_part_def)+
    moreover have "rc_bytes (obj ?s ?i) = 0" "rc_steps (obj ?s ?i) = []" "active_part ?s ?i = 0"
      by (simp_all add: obj new_cache_def active_part_def)
    ultimately show ?thesis unfolding accounts_def rest refs using accountsD [OF ac] new by simp
  qed
  moreover have "bounded ?s" using coreD(3) [OF s] by (simp add: bounded_def replayWorkingSetBytes_def rest)
  ultimately show ?thesis by (simp add: core_def)
qed

lemma evictOldest_frame:
  assumes "core s"
  shows "cacheBytes (evictOldestWorkflowReplayCache s) \<le> cacheBytes s"
    "activeControllers (obj s j) > 0 \<Longrightarrow> obj (evictOldestWorkflowReplayCache s) j = obj s j"
proof -
  have "0 \<le> rc_bytes (obj s i)" for i using shape_caches [OF coreD(1) [OF assms]] cache_ok_bytes by blast
  then show "cacheBytes (evictOldestWorkflowReplayCache s) \<le> cacheBytes s"
    using coreD(1) [OF assms]
    by (simp add: evictOldestWorkflowReplayCache_def evict_cases evicted_idle_def evicted_busy_def
        split: list.split option.split)
  show "obj (evictOldestWorkflowReplayCache s) j = obj s j" if "activeControllers (obj s j) > 0"
    using that coreD(1) [OF assms]
    by (auto simp: evictOldestWorkflowReplayCache_def evict_cases evicted_idle_def evicted_busy_def
        split: list.split option.split)
qed

lemma get_spec:
  assumes inv: "replay_inv s"
  shows "\<exists>s' i. getWorkflowReplayCache run s = Some (s', i) \<and> replay_inv s' \<and> i \<in> table_refs s'
    \<and> (\<forall>j < fresh_ref s. activeControllers (obj s j) > 0 \<longrightarrow> rc_steps (obj s' j) = rc_steps (obj s j))"
proof (cases "map_of (workflowReplayCaches s) (workflowReplayCacheKey run)")
  case (Some i)
  let ?k = "workflowReplayCacheKey run" and ?t = "workflowReplayCaches s"
  define f where "f = (if lastRunToken (obj s i) \<noteq> run_token run
    then (obj s)(i := (obj s i)\<lparr>lastRunToken := run_token run, rc_complete := False\<rparr>) else obj s)"
  let ?tab = "omap_set ?k i (omap_delete ?k ?t)"
  have d: "distinct (map fst ?t)" using inv by (intro shape_wf coreD replay_invD)
  have tab: "?tab = omap_delete ?k ?t @ [(?k, i)]" by (intro omap_set_fresh) simp
  have set: "set ?tab = set ?t"
    using map_of_SomeD [OF Some] eq_key_imp_eq_value [OF d] unfolding tab by (auto simp: omap_delete_def)
  have "omap_wf ?tab" using d by (intro omap_wf_set omap_wf_delete) (simp add: omap_wf_def)
  then have "replay_inv (s\<lparr>obj := f, workflowReplayCaches := ?tab\<rparr>)"
    using set by (intro inv_same_view [OF inv]) (simp_all add: f_def same_view_def omap_wf_def)
  moreover have "getWorkflowReplayCache run s = Some (s\<lparr>obj := f, workflowReplayCaches := ?tab\<rparr>, i)"
    using Some by (simp add: getWorkflowReplayCache_def Let_def f_def update_obj_def)
  moreover have "i \<in> table_refs (s\<lparr>obj := f, workflowReplayCaches := ?tab\<rparr>)"
    unfolding table_refs_def using set map_of_SomeD [OF Some] by (force simp: image_iff)
  ultimately show ?thesis by (auto simp: f_def)
next
  case None
  let ?k = "workflowReplayCacheKey run" and ?i = "fresh_ref s"
  let ?s1 = "with_new_cache ?k (run_token run) s"
  let ?P = "\<lambda>s. length (workflowReplayCaches s) > WORKFLOW_REPLAY_CACHE_MAX_INSTANCES"
  note c = replay_invD [OF inv]
  have c1: "core ?s1" by (rule core_new_cache [OF c None])
  have len: "length (workflowReplayCaches ?s1) \<le> Suc WORKFLOW_REPLAY_CACHE_MAX_INSTANCES"
    using inv by (simp add: replay_inv_def with_new_cache_def)
  have run: "getWorkflowReplayCache run s = map_option (\<lambda>s2. (s2, ?i)) (while_option ?P evictOldestWorkflowReplayCache ?s1)"
    using None by (simp add: getWorkflowReplayCache_def Let_def with_new_cache_def new_cache_def omap_set_fresh)
  define s2 where "s2 = (if ?P ?s1 then evictOldestWorkflowReplayCache ?s1 else ?s1)"
  have tab1: "workflowReplayCaches ?s1 = workflowReplayCaches s @ [(?k, ?i)]" by (simp add: with_new_cache_def)
  have tab2: "workflowReplayCaches s2 = (if ?P ?s1 then tl (workflowReplayCaches ?s1) else workflowReplayCaches ?s1)"
    by (simp add: s2_def evictOldest_table [OF c1])
  have small: "\<not> ?P s2" using len by (cases "workflowReplayCaches ?s1") (auto simp: tab2)
  have "while_option ?P evictOldestWorkflowReplayCache s2 = Some s2"
    using small by (subst while_option_unfold) simp
  then have "while_option ?P evictOldestWorkflowReplayCache ?s1 = Some s2"
    using while_option_unfold [of ?P evictOldestWorkflowReplayCache ?s1] by (cases "?P ?s1") (simp_all add: s2_def)
  moreover have "(?k, ?i) \<in> set (workflowReplayCaches s2)"
    unfolding tab2 tab1 by (cases "workflowReplayCaches s") (auto simp: WORKFLOW_REPLAY_CACHE_MAX_INSTANCES_def)
  then have "?i \<in> table_refs s2" unfolding table_refs_def by force
  moreover have "cacheBytes s2 \<le> WORKFLOW_REPLAY_CACHE_MAX_BYTES"
    using evictOldest_frame(1) [OF c1] inv by (simp add: s2_def replay_inv_def with_new_cache_def)
  then have "replay_inv s2" using small c1 core_evictOldest [OF c1] by (simp add: replay_inv_def s2_def)
  moreover have "rc_steps (obj s2 j) = rc_steps (obj s j)" if "j < ?i" "activeControllers (obj s j) > 0" for j
  proof -
    have "obj ?s1 j = obj s j" using that(1) by (simp add: with_new_cache_def)
    then show ?thesis using evictOldest_frame(2) [OF c1, of j] that(2) by (simp add: s2_def)
  qed
  ultimately show ?thesis unfolding run by simp
qed

lemma table_held: "i \<in> table_refs s \<Longrightarrow> i \<in> held_refs s"
  by (simp add: held_refs_def)

lemma acquire_spec:
  assumes inv: "replay_inv s"
  shows "\<exists>s' i. acquireWorkflowReplayCache run s = Some (s', i) \<and> replay_inv s' \<and> i \<in> table_refs s'
    \<and> activeControllers (obj s' i) > 0"
proof -
  obtain s1 i where g: "getWorkflowReplayCache run s = Some (s1, i)" "replay_inv s1" "i \<in> table_refs s1"
    using get_spec [OF inv] by blast
  let ?s = "set_active i (activeControllers (obj s1 i) + 1) s1"
  have "acquireWorkflowReplayCache run s = Some (?s, i)"
    using g(1) by (simp add: acquireWorkflowReplayCache_def set_active_def active_part_def update_obj_def Let_def)
  moreover have "replay_inv ?s" by (intro inv_set_active g table_held) simp
  ultimately show ?thesis using g(3) by (simp add: set_active_def table_refs_def)
qed

lemma inv_release_detached:
  assumes inv: "replay_inv s" and i: "i \<in> set (detachedReplayCaches s)"
  shows "replay_inv (s\<lparr>activeBytes := activeBytes s - rc_bytes (obj s i),
    detachedReplayCaches := removeAll i (detachedReplayCaches s),
    detachedBytes := detachedBytes s - rc_bytes (obj s i),
    obj := (obj s)(i := cleared ((obj s i)\<lparr>activeControllers := 0\<rparr>))\<rparr>)" (is "replay_inv ?s")
proof -
  note c = replay_invD [OF inv] note sh = coreD(1) [OF c] and ac = coreD(2) [OF c]
  have nt: "i \<notin> table_refs s" using shape_detached(2) [OF sh] i by blast
  have refs: "table_refs ?s = table_refs s" "held_refs ?s = held_refs s - {i}"
    "set (detachedReplayCaches ?s) = set (detachedReplayCaches s) - {i}"
    using nt by (auto simp: refs_defs)
  have old: "obj ?s j = obj s j" if "j \<noteq> i" for j using that by simp
  have new: "obj ?s i = cleared ((obj s i)\<lparr>activeControllers := 0\<rparr>)" by simp
  have act: "active_part s i = rc_bytes (obj s i)" using shape_active [OF sh] i by (simp add: active_part_def)
  have nn: "0 \<le> rc_bytes (obj s i)" using shape_caches [OF sh] cache_ok_bytes by blast
  have keys: "\<forall>(k, j) \<in> set (workflowReplayCaches s). rc_key (obj ?s j) = k"
    using shape_keys [OF sh] nt by (auto simp: table_refs_def)
  have "shape ?s" unfolding shape_def refs using sh keys cleared_ok [of "(obj s i)\<lparr>activeControllers := 0\<rparr>"]
    by (auto simp: shape_def distinct_removeAll)
  moreover have "accounts ?s" unfolding accounts_def refs
  proof (intro conjI)
    show "cacheBytes ?s = (\<Sum>j \<in> table_refs s. rc_bytes (obj ?s j))"
      using accountsD(1) [OF ac] nt old by (subst sum_same [where i = i and f = "\<lambda>j. rc_bytes (obj s j)"]) simp_all
    show "cacheSteps ?s = (\<Sum>j \<in> table_refs s. int (length (rc_steps (obj ?s j))))"
      using accountsD(2) [OF ac] nt old by (subst sum_same [where i = i and f = "\<lambda>j. int (length (rc_steps (obj s j)))"]) simp_all
    show "detachedBytes ?s = (\<Sum>j \<in> set (detachedReplayCaches s) - {i}. rc_bytes (obj ?s j))"
      using accountsD(3) [OF ac] i old by (subst sum_drop [where f = "\<lambda>j. rc_bytes (obj s j)"]) simp_all
    show "activeBytes ?s = (\<Sum>j \<in> held_refs s - {i}. active_part ?s j)"
      using accountsD(4) [OF ac] i act by (subst sum_drop [where f = "active_part s"]) (simp_all add: active_part_def held_refs_def)
    show "readBytes ?s = (\<Sum>(_, b) \<leftarrow> replayReadLeases ?s. b)" using accountsD(5) [OF ac] by simp
  qed
  ultimately show ?thesis using inv nn by (simp add: replay_inv_def core_def bounded_def replayWorkingSetBytes_def)
qed

lemma release_inv:
  assumes inv: "replay_inv s"
  shows "replay_inv (releaseWorkflowReplayCache i s)"
proof (cases "activeControllers (obj s i) > 0")
  case False
  note c = replay_invD [OF inv] note sh = coreD(1) [OF c]
  have nd: "i \<notin> set (detachedReplayCaches s)" using shape_active [OF sh] False by auto
  show ?thesis
  proof (cases "in_table s i")
    case True
    then show ?thesis using False inv by (simp add: releaseWorkflowReplayCache_def Let_def)
  next
    case nt: False
    then have "i \<notin> held_refs s" using nd in_table_iff [OF sh] by (simp add: held_refs_def)
    then have rel: "rc_released (obj s i)" using held_iff_unreleased [OF c] by blast
    then have "rc_steps (obj s i) = []" "rc_bytes (obj s i) = 0"
      using shape_caches [OF sh] by (auto simp: cache_ok_def steps_bytes_def)
    then have "replay_inv (s\<lparr>obj := (obj s)(i := cleared (obj s i)), workflowReplayCaches := workflowReplayCaches s\<rparr>)"
      using rel shape_wf [OF sh] by (intro inv_same_view [OF inv]) (simp_all add: same_view_def)
    then show ?thesis using False nt nd by (simp add: releaseWorkflowReplayCache_def Let_def clear_free)
  qed
next
  case True
  note c = replay_invD [OF inv] note sh = coreD(1) [OF c]
  have held: "i \<in> held_refs s"
    using True held_iff_unreleased [OF c] shape_caches [OF sh] by (auto simp: cache_ok_def)
  let ?n = "activeControllers (obj s i) - 1"
  let ?s1 = "set_active i ?n s"
  have tab: "in_table ?s1 i \<longleftrightarrow> i \<in> table_refs s"
    using in_table_iff [OF sh] by (simp add: in_table_def set_active_def)
  have st: "(let s2 = update_obj i (\<lambda>c. c\<lparr>activeControllers := activeControllers c - 1\<rparr>) s in
      if activeControllers (obj s2 i) = 0 then s2\<lparr>activeBytes := activeBytes s2 - rc_bytes (obj s2 i)\<rparr> else s2) = ?s1"
    using True by (simp add: Let_def update_obj_def set_active_def active_part_def)
  have "activeControllers (obj ?s1 i) = ?n" by (simp add: set_active_def)
  with tab have eq: "releaseWorkflowReplayCache i s =
      (if ?n > 0 \<or> i \<in> table_refs s then ?s1 else clearWorkflowReplayCache i ?s1)"
    unfolding releaseWorkflowReplayCache_def st using True by (simp only: if_True Let_def)
  show ?thesis
  proof (cases "?n > 0 \<or> i \<in> table_refs s")
    case True
    then show ?thesis unfolding eq using inv_set_active [OF inv held] table_not_detached [OF sh, of i] by auto
  next
    case last: False
    then have det: "i \<in> set (detachedReplayCaches s)" using held by (simp add: held_refs_def)
    have "activeControllers (obj s i) = Suc 0" using last True by simp
    then show ?thesis unfolding eq using last det inv_release_detached [OF inv det]
      by (simp add: clear_held set_active_def active_part_def)
  qed
qed

lemma lease_sum_set:
  "omap_wf m \<Longrightarrow> (\<Sum>(_, b) \<leftarrow> omap_set l b m. b :: int) =
     (\<Sum>(_, b) \<leftarrow> m. b) - (case map_of m l of None \<Rightarrow> 0 | Some a \<Rightarrow> a) + b"
  by (induction l b m rule: omap_set.induct) (auto simp: omap_wf_def)

lemma lease_sum_delete:
  "omap_wf m \<Longrightarrow> (\<Sum>(_, b) \<leftarrow> omap_delete l m. b :: int) =
     (\<Sum>(_, b) \<leftarrow> m. b) - (case map_of m l of None \<Rightarrow> 0 | Some a \<Rightarrow> a)"
proof (induction m)
  case (Cons e m)
  obtain k a where e: "e = (k, a)" by (cases e)
  show ?case
  proof (cases "k = l")
    case True
    then have "map_of m l = None" using Cons.prems e by (simp add: omap_wf_def map_of_eq_None_iff)
    then show ?thesis using e True omap_delete_fresh [of m l] by (simp add: omap_delete_def)
  next
    case False
    then show ?thesis using Cons e by (simp add: omap_wf_def omap_delete_def)
  qed
qed (simp add: omap_delete_def)

lemma core_leases:
  assumes s: "core s" and m: "omap_wf m" "\<forall>(l, b) \<in> set m. l < n \<and> 0 \<le> b"
    and r: "r = (\<Sum>(_, b) \<leftarrow> m. b)"
    and room: "replayWorkingSetBytes s - readBytes s + r \<le> WORKFLOW_REPLAY_WORKING_SET_MAX_BYTES"
  shows "core (recordReplayHighWater (s\<lparr>readBytes := r, replayReadLeases := m, fresh_lease := n\<rparr>))"
    "r \<le> readBytes s \<Longrightarrow> core (s\<lparr>readBytes := r, replayReadLeases := m, fresh_lease := n\<rparr>)"
proof -
  let ?s = "s\<lparr>readBytes := r, replayReadLeases := m, fresh_lease := n\<rparr>"
  have refs: "table_refs ?s = table_refs s" "held_refs ?s = held_refs s" by (simp_all add: refs_defs)
  have act: "active_part ?s = active_part s" by (rule ext) (simp add: active_part_def)
  have sh: "shape ?s" using coreD(1) [OF s] m unfolding shape_def refs by simp
  have ac: "accounts ?s" using coreD(2) [OF s] r unfolding accounts_def refs act by simp
  show "core (recordReplayHighWater ?s)"
    using sh ac coreD(3) [OF s] room by (intro core_high) (simp_all add: bounded_def replayWorkingSetBytes_def)
  show "core ?s" if "r \<le> readBytes s"
    using sh ac coreD(3) [OF s] that by (simp add: core_def bounded_def replayWorkingSetBytes_def)
qed

lemma lease_bound: "core s \<Longrightarrow> map_of (replayReadLeases s) l = Some a \<Longrightarrow> l < fresh_lease s"
  using shape_leases(2) [OF coreD(1)] map_of_SomeD by fastforce

lemma lease_wf: "core s \<Longrightarrow> omap_wf (replayReadLeases s)"
  using shape_leases(1) [OF coreD(1)] by (simp add: omap_wf_def)

lemma set_omap_set: "set (omap_set k v m) \<subseteq> insert (k, v) (set m)"
  by (induction k v m rule: omap_set.induct) auto

lemma create_lease_inv:
  assumes inv: "replay_inv s"
  shows "replay_inv (fst (createWorkflowReplayReadLease s))"
proof -
  note c = replay_invD [OF inv]
  have none: "map_of (replayReadLeases s) (fresh_lease s) = None"
    using lease_bound [OF c, of "fresh_lease s"] by (cases "map_of (replayReadLeases s) (fresh_lease s)") auto
  let ?m = "omap_set (fresh_lease s) 0 (replayReadLeases s)"
  have "core (s\<lparr>readBytes := readBytes s, replayReadLeases := ?m, fresh_lease := fresh_lease s + 1\<rparr>)"
  proof (rule core_leases(2) [OF c])
    show "omap_wf ?m" using lease_wf [OF c] by (rule omap_wf_set)
    show "\<forall>(l, b) \<in> set ?m. l < fresh_lease s + 1 \<and> 0 \<le> b"
      using shape_leases(2) [OF coreD(1) [OF c]] by (fastforce dest!: subsetD [OF set_omap_set])
    show "readBytes s = (\<Sum>(_, b) \<leftarrow> ?m. b)"
      using accountsD(5) [OF coreD(2) [OF c]] none by (simp add: lease_sum_set [OF lease_wf [OF c]])
    show "replayWorkingSetBytes s - readBytes s + readBytes s \<le> WORKFLOW_REPLAY_WORKING_SET_MAX_BYTES"
      using coreD(3) [OF c] by (simp add: bounded_def)
  qed simp
  then show ?thesis using inv by (simp add: createWorkflowReplayReadLease_def replay_inv_def)
qed

lemma release_lease_inv:
  assumes inv: "replay_inv s"
  shows "replay_inv (lease_release l s)"
proof (cases "map_of (replayReadLeases s) l")
  case None
  then show ?thesis using inv by (simp add: lease_release_def)
next
  case (Some a)
  note c = replay_invD [OF inv]
  let ?m = "omap_delete l (replayReadLeases s)"
  have a: "0 \<le> a" using shape_leases(2) [OF coreD(1) [OF c]] map_of_SomeD [OF Some] by auto
  have "core (s\<lparr>readBytes := readBytes s - a, replayReadLeases := ?m, fresh_lease := fresh_lease s\<rparr>)"
  proof (rule core_leases(2) [OF c])
    show "omap_wf ?m" using lease_wf [OF c] by (rule omap_wf_delete)
    show "\<forall>(l, b) \<in> set ?m. l < fresh_lease s \<and> 0 \<le> b"
      using shape_leases(2) [OF coreD(1) [OF c]] by (auto simp: omap_delete_def)
    show "readBytes s - a = (\<Sum>(_, b) \<leftarrow> ?m. b)"
      using accountsD(5) [OF coreD(2) [OF c]] Some by (simp add: lease_sum_delete [OF lease_wf [OF c]])
    show "replayWorkingSetBytes s - readBytes s + (readBytes s - a) \<le> WORKFLOW_REPLAY_WORKING_SET_MAX_BYTES"
      using coreD(3) [OF c] a by (simp add: bounded_def)
  qed (use a in simp)
  then show ?thesis using inv Some by (simp add: lease_release_def replay_inv_def)
qed

lemma reserve_lease_inv:
  assumes inv: "replay_inv s" and b: "0 \<le> b"
  shows "replay_inv (fst (lease_reserve l b s))"
proof (cases "map_of (replayReadLeases s) l")
  case None
  then show ?thesis using inv by (simp add: lease_reserve_def)
next
  case (Some a)
  note c = replay_invD [OF inv]
  obtain s1 r where r: "reserveWorkingSet (max 0 (b - a)) None s = (s1, r)" by fastforce
  have c1: "core s1" and sh: "shrunk s s1"
    and room: "r = Ok () \<Longrightarrow> replayWorkingSetBytes s1 + max 0 (b - a) \<le> WORKFLOW_REPLAY_WORKING_SET_MAX_BYTES"
    using reserve_spec [OF c r] by blast+
  show ?thesis
  proof (cases r)
    case (Inl e)
    then show ?thesis using r Some c1 sh inv by (simp add: lease_reserve_def replay_inv_def shrunk_def)
  next
    case (Inr u)
    have some1: "map_of (replayReadLeases s1) l = Some a" using Some sh by (simp add: shrunk_def)
    let ?m = "omap_set l b (replayReadLeases s1)" and ?r = "readBytes s1 + (b - a)"
    have "core (recordReplayHighWater (s1\<lparr>readBytes := ?r, replayReadLeases := ?m, fresh_lease := fresh_lease s1\<rparr>))"
    proof (rule core_leases(1) [OF c1])
      show "omap_wf ?m" using lease_wf [OF c1] by (rule omap_wf_set)
      show "\<forall>(l, b) \<in> set ?m. l < fresh_lease s1 \<and> 0 \<le> b"
        using shape_leases(2) [OF coreD(1) [OF c1]] b lease_bound [OF c1 some1] by (fastforce dest!: subsetD [OF set_omap_set])
      show "?r = (\<Sum>(_, b) \<leftarrow> ?m. b)"
        using accountsD(5) [OF coreD(2) [OF c1]] some1 by (simp add: lease_sum_set [OF lease_wf [OF c1]])
      show "replayWorkingSetBytes s1 - readBytes s1 + ?r \<le> WORKFLOW_REPLAY_WORKING_SET_MAX_BYTES"
        using room Inr by simp
    qed
    then show ?thesis using r Some Inr sh inv
      by (simp add: lease_reserve_def replay_inv_def shrunk_def recordReplayHighWater_def)
  qed
qed

lemma reset_inv:
  assumes inv: "replay_inv s"
  shows "replay_inv (resetWorkflowReplayCacheForTest s)"
proof -
  let ?s = "resetWorkflowReplayCacheForTest s"
  note c = replay_invD [OF inv]
  have refs: "table_refs ?s = {}" "held_refs ?s = {}"
    by (simp_all add: resetWorkflowReplayCacheForTest_def refs_defs Let_def)
  have obj: "obj ?s i = (if i \<in> held_refs s
      then (obj s i)\<lparr>rc_steps := [], rc_bytes := 0, activeControllers := 0, rc_released := True\<rparr> else obj s i)" for i
    by (simp add: resetWorkflowReplayCacheForTest_def refs_defs Let_def)
  have "shape ?s" unfolding shape_def refs
    using held_iff_unreleased [OF c] shape_caches [OF coreD(1) [OF c]]
    by (simp add: obj cache_ok_def steps_bytes_def) (simp add: resetWorkflowReplayCacheForTest_def Let_def)
  moreover have "accounts ?s" unfolding accounts_def refs by (simp add: resetWorkflowReplayCacheForTest_def Let_def)
  ultimately show ?thesis
    by (simp add: replay_inv_def core_def bounded_def replayWorkingSetBytes_def)
       (simp add: resetWorkflowReplayCacheForTest_def Let_def WORKFLOW_REPLAY_WORKING_SET_MAX_BYTES_def WORKFLOW_REPLAY_CACHE_MAX_BYTES_def)
qed

lemma initial_inv: "replay_inv initial_replay"
  by (simp add: replay_inv_def core_def bounded_def replayWorkingSetBytes_def initial_replay_def shape_def accounts_def
      refs_defs vacant_cache_def cache_ok_def steps_bytes_def WORKFLOW_REPLAY_WORKING_SET_MAX_BYTES_def
      WORKFLOW_REPLAY_CACHE_MAX_BYTES_def)

text \<open>Any interleaving of the calls of controllers and readers; \<open>None\<close> is a call that never returns.\<close>

datatype replay_op =
    Get replay_run | Acquire replay_run | Release nat | Remember nat int replay_input
  | NewLease | Reserve nat nat | ReleaseLease nat | ResetForTest

fun replay_call :: "replay_op \<Rightarrow> replay \<Rightarrow> replay option" where
  "replay_call (Get run) s = map_option fst (getWorkflowReplayCache run s)"
| "replay_call (Acquire run) s = map_option fst (acquireWorkflowReplayCache run s)"
| "replay_call (Release i) s = Some (releaseWorkflowReplayCache i s)"
| "replay_call (Remember i k step) s = map_option fst (rememberWorkflowReplayStep i k step s)"
| "replay_call NewLease s = Some (fst (createWorkflowReplayReadLease s))"
| "replay_call (Reserve l b) s = Some (fst (lease_reserve l (int b) s))"
| "replay_call (ReleaseLease l) s = Some (lease_release l s)"
| "replay_call ResetForTest s = Some (resetWorkflowReplayCacheForTest s)"

fun replay_calls :: "replay_op list \<Rightarrow> replay \<Rightarrow> replay option" where
  "replay_calls [] s = Some s"
| "replay_calls (c # cs) s = (case replay_call c s of None \<Rightarrow> None | Some s' \<Rightarrow> replay_calls cs s')"

lemma replay_call_inv: "replay_inv s \<Longrightarrow> \<exists>s'. replay_call c s = Some s' \<and> replay_inv s'"
  using get_spec [of s] acquire_spec [of s] remember_spec [of s]
  by (cases c) (fastforce simp: release_inv create_lease_inv reserve_lease_inv release_lease_inv reset_inv)+

lemma replay_calls_inv: "replay_inv s \<Longrightarrow> \<exists>s'. replay_calls cs s = Some s' \<and> replay_inv s'"
proof (induction cs arbitrary: s)
  case (Cons c cs)
  then obtain s1 where "replay_call c s = Some s1" "replay_inv s1" using replay_call_inv by blast
  then show ?case using Cons.IH by simp
qed simp

lemma reserve_fail:
  assumes "reserveWorkingSet b keep s = (s', Inl e)"
  shows "e = WorkflowReplayCapacityError \<and> replayWorkingSetBytes s' + b > WORKFLOW_REPLAY_WORKING_SET_MAX_BYTES"
proof -
  have "e = WorkflowReplayCapacityError \<and> replayWorkingSetBytes s' + b > WORKFLOW_REPLAY_WORKING_SET_MAX_BYTES"
    if "reserve_loop b keep es t = (s', Inl e)" "replayWorkingSetBytes t + b > WORKFLOW_REPLAY_WORKING_SET_MAX_BYTES" for es t
    using that
  proof (induction b keep es t rule: reserve_loop.induct)
    case (1 bytes keep s)
    then show ?case by (auto simp: recordWorkflowReplayCacheOutcome_def replayWorkingSetBytes_def)
  next
    case (2 bytes keep key i rest s)
    then show ?case
      by (cases "keep = Some i \<or> activeControllers (obj s i) > 0")
         (auto simp: Let_def not_le split: if_split_asm)
  qed
  with assms show ?thesis by (auto simp: reserveWorkingSet_def not_le split: if_split_asm)
qed

section \<open>Properties\<close>

text \<open>
  C3: whatever the interleaving of controllers and readers, every call returns and the accounts
  are exact. The byte and step counters are the sums over the caches they speak of, and the
  limits hold: 256 instances and 16 MiB in the table, 256 steps per instance, 64 MiB in the
  working set including detached caches and reads in flight.
\<close>

theorem replay_accounts_exact:
  "\<exists>s. replay_calls cs initial_replay = Some s
    \<and> cacheBytes s = (\<Sum>i \<in> table_refs s. steps_bytes (rc_steps (obj s i)))
    \<and> cacheSteps s = (\<Sum>i \<in> table_refs s. int (length (rc_steps (obj s i))))
    \<and> detachedBytes s = (\<Sum>i \<in> set (detachedReplayCaches s). steps_bytes (rc_steps (obj s i)))
    \<and> readBytes s = (\<Sum>(_, b) \<leftarrow> replayReadLeases s. b)
    \<and> (\<forall>i. length (rc_steps (obj s i)) \<le> 256) \<and> length (workflowReplayCaches s) \<le> 256
    \<and> cacheBytes s \<le> 16777216 \<and> cacheBytes s + detachedBytes s + readBytes s \<le> highWaterBytes s
    \<and> highWaterBytes s \<le> 67108864"
proof -
  obtain s where s: "replay_calls cs initial_replay = Some s" "replay_inv s"
    using replay_calls_inv [OF initial_inv] by blast
  note c = replay_invD [OF s(2)]
  have "rc_bytes (obj s i) = steps_bytes (rc_steps (obj s i)) \<and> length (rc_steps (obj s i)) \<le> 256" for i
    using shape_caches [OF coreD(1) [OF c]]
    by (simp add: cache_ok_def WORKFLOW_REPLAY_CACHE_MAX_STEPS_PER_INSTANCE_def)
  then show ?thesis using s accountsD [OF coreD(2) [OF c]] coreD(3) [OF c]
    by (simp add: replay_inv_def bounded_def replayWorkingSetBytes_def WORKFLOW_REPLAY_CACHE_MAX_INSTANCES_def
        WORKFLOW_REPLAY_CACHE_MAX_BYTES_def WORKFLOW_REPLAY_WORKING_SET_MAX_BYTES_def)
qed

text \<open>
  C30: a remembered step is replayed. On any reachable state, when a controller that holds its
  cache remembers a step that fits the limit and the call succeeds, the step is found under its
  ordinal, even if the cache has been evicted from the table meanwhile, and the output of a
  completed step is read back as it was given.
\<close>

theorem remembered_step_replayed:
  assumes "replay_calls cs initial_replay = Some s" "activeControllers (obj s i) > 0"
    "serializedReplayStepBytes (stored_step step) \<le> WORKFLOW_REPLAY_CACHE_MAX_BYTES"
    "rememberWorkflowReplayStep i k step s = Some (s', Ok ())"
  shows "map_of (rc_steps (obj s' i)) k = Some (stored_step step, serializedReplayStepBytes (stored_step step))
    \<and> (rs_status step = JStr ''completed'' \<and> \<not> is_string (rs_outputJson step) \<and> json_ok (ri_output step)
       \<longrightarrow> readWorkflowReplayStepOutput (stored_step step) = Ok (ri_output step))"
proof -
  have inv: "replay_inv s" using replay_calls_inv [OF initial_inv, of cs] assms(1) by auto
  let ?b = "serializedReplayStepBytes (stored_step step)" and ?ys = "remaining_steps (rc_steps (obj s i)) k"
  have ok: "cache_ok (obj s i)" using shape_caches [OF coreD(1) [OF replay_invD [OF inv]]] by blast
  then have "\<not> rc_released (obj s i)" using assms(2) by (auto simp: cache_ok_def)
  then have "rc_steps (obj s' i) = ?ys @ [(k, stored_step step, ?b)]"
    using remember_spec [OF inv, of i k step] assms(2,3,4) by auto
  moreover have "map_of ?ys k = None" using remaining_steps_fresh(1) [of "rc_steps (obj s i)" k] ok by (simp add: cache_ok_def)
  moreover have "readWorkflowReplayStepOutput (stored_step step) = Ok (ri_output step)"
    if "rs_status step = JStr ''completed''" "\<not> is_string (rs_outputJson step)" "json_ok (ri_output step)"
  proof -
    have "null_coalesce (ri_output step) = ri_output step" using that(3) by (auto simp: null_coalesce_def nullish_def)
    then show ?thesis using that by (simp add: readWorkflowReplayStepOutput_def stored_step_def Let_def parse_stringify)
  qed
  ultimately show ?thesis by (simp add: map_of_append map_add_def)
qed

text \<open>
  C31: no false saturation. A reservation on a reachable state fails only with the capacity
  error, and then the request does not fit although every cache that is neither kept nor in use
  has been evicted.
\<close>

theorem saturated_only_when_full:
  assumes "replay_calls cs initial_replay = Some s" "reserveWorkingSet b keep s = (s', Throw e)"
  shows "e = WorkflowReplayCapacityError \<and> replayWorkingSetBytes s' + b > WORKFLOW_REPLAY_WORKING_SET_MAX_BYTES
    \<and> (\<forall>(k, i) \<in> set (workflowReplayCaches s'). keep = Some i \<or> activeControllers (obj s' i) > 0)"
proof -
  have "replay_inv s" using replay_calls_inv [OF initial_inv, of cs] assms(1) by auto
  from reserve_spec [OF replay_invD [OF this] assms(2)] reserve_fail [OF assms(2)] show ?thesis by simp
qed

section \<open>Witnesses\<close>

definition sample_run :: replay_run where
  "sample_run = \<lparr>run_ns = ''acme'', run_workflowKey = ''wf'', run_instanceId = ''i1'', run_generation = 1,
     run_createdAtMs = 1000, run_token = ''t''\<rparr>"

definition sample_step :: replay_input where
  "sample_step = \<lparr>rs_name = JStr ''a'', rs_nameCount = JNum (num 1), rs_dependencies = JNull, rs_kind = JStr ''do'',
     rs_config = JUndef, rs_status = JStr ''completed'', rs_outputJson = JUndef, rs_error = JUndef,
     ri_output = JArr [JNum (num 7)]\<rparr>"

theorem remembered_step_replayed_witness:
  "\<exists>s s'. replay_calls [Acquire sample_run] initial_replay = Some s
    \<and> rememberWorkflowReplayStep 0 0 sample_step s = Some (s', Ok ())
    \<and> map_of (rc_steps (obj s' 0)) 0 = Some (stored_step sample_step, serializedReplayStepBytes (stored_step sample_step))
    \<and> readWorkflowReplayStepOutput (stored_step sample_step) = Ok (JArr [JNum (num 7)])"
proof -
  have "case replay_calls [Acquire sample_run] initial_replay of None \<Rightarrow> False
    | Some s \<Rightarrow> activeControllers (obj s 0) > 0 \<and> (case rememberWorkflowReplayStep 0 0 sample_step s of
        Some (_, r) \<Rightarrow> r = Ok () | None \<Rightarrow> False)"
    by code_simp
  then obtain s s' where s: "replay_calls [Acquire sample_run] initial_replay = Some s" "activeControllers (obj s 0) > 0"
    "rememberWorkflowReplayStep 0 0 sample_step s = Some (s', Ok ())"
    by (auto split: option.splits)
  have "serializedReplayStepBytes (stored_step sample_step) \<le> WORKFLOW_REPLAY_CACHE_MAX_BYTES" by code_simp
  from remembered_step_replayed [OF s(1,2) this s(3)] s show ?thesis by (auto simp: sample_step_def)
qed

theorem saturated_only_when_full_witness:
  "\<exists>s'. reserveWorkingSet 67108865 None initial_replay = (s', Throw WorkflowReplayCapacityError)
    \<and> replayWorkingSetBytes s' + 67108865 > WORKFLOW_REPLAY_WORKING_SET_MAX_BYTES"
proof -
  have calls: "replay_calls [] initial_replay = Some initial_replay" by simp
  have "reserveWorkingSet 67108865 None initial_replay =
      (recordWorkflowReplayCacheOutcome ''saturated'' initial_replay, Throw WorkflowReplayCapacityError)"
    by (simp add: reserveWorkingSet_def initial_replay_def replayWorkingSetBytes_def WORKFLOW_REPLAY_WORKING_SET_MAX_BYTES_def)
  with saturated_only_when_full [OF calls this] show ?thesis by auto
qed

end
