(* ===== verification/Control_Lib.thy ===== *)
theory Control_Lib
  imports Auth_Lib Gateway Uri_Component
begin

text \<open>
  The pure half of the control plane (\<open>control/lib.js\<close>): bundle metadata, the referrer index,
  lifecycle keys, the URL classifier \<open>parseControlRoute\<close>, log resume ids and secret keys. The
  route object is a record whose absent fields are \<open>None\<close>; \<open>route_x\<close> is the branch of the
  classifier for the path \<open>/ns/<ns>/x\<close>, \<open>None\<close> when the branch falls through.
  Not modelled: \<open>configuredPublicUrl\<close>, which delegates to the URL parser of the platform. The
  collation \<open>localeCompare\<close> is a parameter.
\<close>

section \<open>Bundle metadata and versions\<close>

definition MAX_QUEUE_DELAY_SECONDS :: int where
  "MAX_QUEUE_DELAY_SECONDS = 86400"

definition BundleMetaError :: js_error where
  "BundleMetaError = CodedError 500 ''corrupt_meta''"

definition parseBundleMeta :: "js_error option \<Rightarrow> jsval \<Rightarrow> jsval result" where
  "parseBundleMeta makeError raw =
     (let fail = Throw (case makeError of Some e \<Rightarrow> e | None \<Rightarrow> BundleMetaError) in
      if \<not> is_string raw then fail
      else case json_parse (str_of raw) of
             None \<Rightarrow> fail
           | Some parsed \<Rightarrow> if plain_object parsed then Ok parsed else fail)"

definition parsePatternProjection :: "js_error \<Rightarrow> jsval \<Rightarrow> projection result" where
  "parsePatternProjection makeError raw =
     (case decodePatternProjection raw of None \<Rightarrow> Throw makeError | Some p \<Rightarrow> Ok p)"

definition bundleAssetPrefix :: "jsval \<Rightarrow> string option" where
  "bundleAssetPrefix meta =
     (let assets = jget meta ''assets'' in
      if \<not> plain_object assets then None
      else let prefix = jget assets ''prefix'' in if is_string prefix then Some (str_of prefix) else None)"

definition isAdminAcceptableNs :: "jsval \<Rightarrow> bool" where
  "isAdminAcceptableNs ns \<longleftrightarrow>
     is_string ns \<and> str_of ns \<notin> set RESERVED_TENANT_NS \<and> (isReservedNs ns \<or> rx_test NS_RE (str_of ns))"

definition projectAccessPrincipal :: "jsval \<Rightarrow> jsval" where
  "projectAccessPrincipal pr =
     (if \<not> truthy pr \<or> \<not> is_string (jget pr ''kind'') then JNull
      else case roles_get (str_of (jget pr ''kind'')) of
             NoRole \<Rightarrow> JNull
           | InheritedMember \<Rightarrow> JNull
           | OwnRole r \<Rightarrow>
               if boundNsKind r = BoundNone then JObj [(''kind'', jget pr ''kind'')]
               else if (boundNsKind r = BoundTenant \<or> boundNsKind r = BoundPlatformTier) \<and> is_string (jget pr ''ns'')
               then JObj [(''kind'', jget pr ''kind''), (''ns'', jget pr ''ns'')]
               else JNull)"

record workerd_version =
  wv_version :: string
  wv_year :: nat
  wv_month :: nat
  wv_day :: nat
  wv_patch :: nat

definition WORKERD_DEPENDENCY_VERSION_RE :: rx where
  "WORKERD_DEPENDENCY_VERSION_RE = RSeq (RLit ''1.'') (RSeq (RRep 4 4 (Cls d09)) (RSeq (RRep 2 2 (Cls d09))
     (RSeq (RRep 2 2 (Cls d09)) (RSeq (RLit ''.'') (RPlus (Cls d09))))))"

definition parseWorkerdDependencyVersion :: "string \<Rightarrow> workerd_version option" where
  "parseWorkerdDependencyVersion source =
     (case json_parse source of
        None \<Rightarrow> None
      | Some parsed \<Rightarrow>
          let raw = jget (jget parsed ''dependencies'') ''workerd'' in
          if \<not> is_string raw then None
          else let version = (case str_of raw of
                   c # cs \<Rightarrow> if c = CHR ''~'' \<or> c = CHR ''^'' then cs else c # cs | [] \<Rightarrow> [])
            in if \<not> rx_test WORKERD_DEPENDENCY_VERSION_RE version then None
               else Some \<lparr>wv_version = version, wv_year = digits_val (take 4 (drop 2 version)),
                          wv_month = digits_val (take 2 (drop 6 version)),
                          wv_day = digits_val (take 2 (drop 8 version)),
                          wv_patch = digits_val (drop 11 version)\<rparr>)"

definition PLATFORM_VERSION_RE :: rx where
  "PLATFORM_VERSION_RE = RSeq (RLit ''wdl.'') (RSeq (RRep 8 8 (Cls d09)) (RSeq (RLit ''.'') (RPlus (Cls d09))))"

definition platformVersionFromSource :: "string \<Rightarrow> string" where
  "platformVersionFromSource source =
     (let version = trim source in if rx_test PLATFORM_VERSION_RE version then version else ''wdl.unknown'')"

section \<open>Referrer index\<close>

record referrer =
  callerNs :: string
  callerWorker :: string
  callerVersion :: string
  ref_binding :: string

definition encodeReferrerMember :: "jsval \<Rightarrow> jsval \<Rightarrow> jsval \<Rightarrow> jsval \<Rightarrow> string result" where
  "encodeReferrerMember ns worker version binding =
     (if \<not> nonempty_string ns \<or> \<not> nonempty_string worker \<or> \<not> nonempty_string version \<or> \<not> nonempty_string binding
      then Throw JsError
      else Ok (stringify (JObj [(''binding'', binding), (''callerNs'', ns),
             (''callerVersion'', version), (''callerWorker'', worker)])))"

definition decodeReferrerMember :: "jsval \<Rightarrow> referrer option" where
  "decodeReferrerMember raw =
     (if \<not> is_string raw then None
      else case json_parse (str_of raw) of
             None \<Rightarrow> None
           | Some obj \<Rightarrow>
               if \<not> is_object obj \<or> \<not> is_string (jget obj ''callerNs'') \<or> \<not> is_string (jget obj ''callerWorker'')
                  \<or> \<not> is_string (jget obj ''callerVersion'') \<or> \<not> is_string (jget obj ''binding'') then None
               else Some \<lparr>callerNs = str_of (jget obj ''callerNs''), callerWorker = str_of (jget obj ''callerWorker''),
                          callerVersion = str_of (jget obj ''callerVersion''), ref_binding = str_of (jget obj ''binding'')\<rparr>)"

record referrer_blocker =
  referrers :: "referrer list"
  crossNamespaceReferrerCount :: "nat option"

definition formatReferrerBlocker :: "string list \<Rightarrow> string \<Rightarrow> jsval \<Rightarrow> referrer_blocker" where
  "formatReferrerBlocker rawMembers targetNs pr =
     (let parsed = List.map_filter (\<lambda>raw. decodeReferrerMember (JStr raw)) rawMembers in
      if truthy pr \<and> jget pr ''kind'' = JStr ''ops''
      then \<lparr>referrers = parsed, crossNamespaceReferrerCount = None\<rparr>
      else if truthy pr \<and> jget pr ''kind'' = JStr ''platform'' \<and> is_string (jget pr ''ns'')
         \<and> str_of (jget pr ''ns'') \<in> set PLATFORM_TIER_RESERVED_NS \<and> JStr targetNs = jget pr ''ns''
      then \<lparr>referrers = parsed, crossNamespaceReferrerCount = None\<rparr>
      else let sameNs = filter (\<lambda>r. callerNs r = targetNs) parsed;
               crossCount = length (filter (\<lambda>r. callerNs r \<noteq> targetNs) parsed)
        in \<lparr>referrers = sameNs, crossNamespaceReferrerCount = (if crossCount > 0 then Some crossCount else None)\<rparr>)"

record d1_blocker =
  b_worker :: string
  b_version :: string
  b_binding :: string

definition blocker_order :: "(string \<Rightarrow> string \<Rightarrow> int) \<Rightarrow> d1_blocker \<Rightarrow> d1_blocker \<Rightarrow> int" where
  "blocker_order localeCompare a b =
     (let w = localeCompare (b_worker a) (b_worker b); v = localeCompare (b_version a) (b_version b) in
      if w \<noteq> 0 then w else if v \<noteq> 0 then v else localeCompare (b_binding a) (b_binding b))"

definition formatD1ReferrerBlockers :: "(string \<Rightarrow> string \<Rightarrow> int) \<Rightarrow> string list \<Rightarrow> d1_blocker list \<times> nat" where
  "formatD1ReferrerBlockers localeCompare rawMembers =
     (let decoded = map (\<lambda>raw. decodeReferrerMember (JStr raw)) rawMembers;
          blockers = List.map_filter (map_option (\<lambda>r.
            \<lparr>b_worker = callerWorker r, b_version = callerVersion r, b_binding = ref_binding r\<rparr>)) decoded
      in (toSorted (blocker_order localeCompare) blockers, length (filter (\<lambda>r. r = None) decoded)))"

text \<open>\<open>Object.entries\<close>; the members of an object are in the order of the modelled object.\<close>

fun object_entries :: "jsval \<Rightarrow> (string \<times> jsval) list" where
  "object_entries (JObj ps) = ps"
| "object_entries (JArr vs) = map (\<lambda>(i, v). (show_nat i, v)) (enumerate 0 vs)"
| "object_entries _ = []"

record outgoing_ref =
  targetNs :: string
  targetWorker :: string
  targetVersion :: string
  out_binding :: string

definition outgoing_ref_of :: "string \<Rightarrow> string \<times> jsval \<Rightarrow> outgoing_ref option" where
  "outgoing_ref_of caller entry =
     (let spec = snd entry in
      if \<not> is_object spec \<or> jget spec ''type'' \<noteq> JStr ''service'' \<or> \<not> nonempty_string (jget spec ''service'')
         \<or> \<not> nonempty_string (jget spec ''version'') then None
      else Some \<lparr>targetNs = (if nonempty_string (jget spec ''ns'') then str_of (jget spec ''ns'') else caller),
                 targetWorker = str_of (jget spec ''service''), targetVersion = str_of (jget spec ''version''),
                 out_binding = fst entry\<rparr>)"

definition extractOutgoingRefs :: "jsval \<Rightarrow> string \<Rightarrow> outgoing_ref list" where
  "extractOutgoingRefs metaBindings caller =
     (if \<not> is_object metaBindings then []
      else List.map_filter (outgoing_ref_of caller) (object_entries metaBindings))"

definition extractD1Refs :: "jsval \<Rightarrow> (string \<times> string) list" where
  "extractD1Refs metaBindings =
     (if \<not> is_object metaBindings then []
      else List.map_filter (\<lambda>(bindingName, spec).
        if \<not> is_object spec \<or> jget spec ''type'' \<noteq> JStr ''d1'' \<or> \<not> nonempty_string (jget spec ''databaseId'') then None
        else Some (bindingName, str_of (jget spec ''databaseId''))) (object_entries metaBindings))"

section \<open>Lifecycle keys\<close>

definition referrersKey :: "string \<Rightarrow> string \<Rightarrow> string \<Rightarrow> string" where
  "referrersKey ns worker version = ''worker-version-referrers:'' @ ns @ '':'' @ worker @ '':'' @ version"
definition workersIndexKey :: "string \<Rightarrow> string" where
  "workersIndexKey ns = ''workers:'' @ ns"
definition workflowDefsKey :: "string \<Rightarrow> string \<Rightarrow> string" where
  "workflowDefsKey ns worker = ''wf:defs:'' @ ns @ '':'' @ worker"
definition d1DatabasesKey :: "string \<Rightarrow> string" where
  "d1DatabasesKey ns = ''d1:databases:'' @ ns"
definition d1DatabaseKey :: "string \<Rightarrow> string \<Rightarrow> string" where
  "d1DatabaseKey ns databaseId = ''d1:database:'' @ ns @ '':'' @ databaseId"
definition d1DatabaseNameKey :: "string \<Rightarrow> string \<Rightarrow> string" where
  "d1DatabaseNameKey ns databaseName = ''d1:database-name:'' @ ns @ '':'' @ databaseName"
definition d1DatabaseReferrersKey :: "string \<Rightarrow> string \<Rightarrow> string" where
  "d1DatabaseReferrersKey ns databaseId = ''d1:database-referrers:'' @ ns @ '':'' @ databaseId"
definition d1DatabaseTombstoneKey :: "string \<Rightarrow> string \<Rightarrow> string" where
  "d1DatabaseTombstoneKey ns databaseId = ''d1:database-tombstone:'' @ ns @ '':'' @ databaseId"
definition d1DatabaseTombstonesKey :: "string \<Rightarrow> string" where
  "d1DatabaseTombstonesKey ns = ''d1:database-tombstones:'' @ ns"
definition doObjectRegistryKey :: "string \<Rightarrow> string" where
  "doObjectRegistryKey storageId = ''do:objects:'' @ encodeURIComponent storageId"

section \<open>Control URL parser\<close>

record control_route =
  r_kind :: "string option"
  r_scopeRoute :: "string option"
  r_action :: "string option"
  r_ns :: "string option"
  r_tokenId :: "string option"
  r_secretKey :: "string option"
  r_worker :: "string option"
  r_workerAction :: "string option"
  r_subPath :: "string list option"

definition no_route :: control_route where
  "no_route = \<lparr>r_kind = None, r_scopeRoute = None, r_action = None, r_ns = None, r_tokenId = None,
     r_secretKey = None, r_worker = None, r_workerAction = None, r_subPath = None\<rparr>"

definition route_of :: "string \<Rightarrow> string \<Rightarrow> control_route" where
  "route_of kind scope = no_route\<lparr>r_kind := Some kind, r_scopeRoute := Some scope\<rparr>"

text \<open>Spreading a null route gives an object with the action only.\<close>

definition withAction :: "control_route option \<Rightarrow> string option \<Rightarrow> control_route option" where
  "withAction route action =
     (case action of None \<Rightarrow> route
      | Some a \<Rightarrow> Some ((case route of Some r \<Rightarrow> r | None \<Rightarrow> no_route)\<lparr>r_action := Some a\<rparr>))"

definition seg_is :: "string list \<Rightarrow> nat \<Rightarrow> string \<Rightarrow> bool" where
  "seg_is segs i s \<longleftrightarrow> i < length segs \<and> segs ! i = s"

definition when_method :: "string \<Rightarrow> string \<Rightarrow> string \<Rightarrow> string option" where
  "when_method method m action = (if method = m then Some action else None)"

definition route_auth_tokens :: "string list \<Rightarrow> string \<Rightarrow> control_route option" where
  "route_auth_tokens segs method =
     (let route = Some ((route_of ''authTokens'' ''auth_tokens'')
        \<lparr>r_tokenId := (if length segs = 3 then Some (segs ! 2) else None)\<rparr>) in
      if length segs = 2 then
        (if method = ''POST'' then withAction route (Some ''auth.token.issue'')
         else if method = ''GET'' then withAction route (Some ''auth.token.list'') else route)
      else if length segs = 3 \<and> method = ''DELETE'' then withAction route (Some ''auth.token.revoke'')
      else route)"

definition route_delegated :: "string \<Rightarrow> control_route option" where
  "route_delegated method =
     withAction (Some (route_of ''authDelegatedTokens'' ''auth_delegated_tokens''))
       (when_method method ''POST'' ''auth.delegated_token.issue'')"

definition ns_route :: "string \<Rightarrow> string \<Rightarrow> string \<Rightarrow> control_route" where
  "ns_route kind scope ns = (route_of kind scope)\<lparr>r_ns := Some ns\<rparr>"

definition route_workers :: "string list \<Rightarrow> string \<Rightarrow> string \<Rightarrow> control_route option" where
  "route_workers segs ns method =
     (if length segs = 3 \<and> seg_is segs 2 ''workers''
      then withAction (Some (ns_route ''workers'' ''workers'' ns)) (when_method method ''GET'' ''worker.list'')
      else None)"

definition route_workflows :: "string list \<Rightarrow> string \<Rightarrow> string \<Rightarrow> control_route option" where
  "route_workflows segs ns method =
     (if \<not> seg_is segs 2 ''workflows'' then None
      else let route = Some ((ns_route ''workflows'' ''workflows'' ns)\<lparr>r_subPath := Some (drop 3 segs)\<rparr>) in
        if length segs = 3 then withAction route (when_method method ''GET'' ''workflow.list'')
        else if length segs = 6 \<and> seg_is segs 5 ''instances'' then withAction route (when_method method ''GET'' ''workflow.read'')
        else if length segs = 7 \<and> seg_is segs 5 ''instances'' then withAction route (when_method method ''GET'' ''workflow.read'')
        else if length segs = 8 \<and> seg_is segs 5 ''instances''
             \<and> segs ! 7 \<in> set [''pause'', ''resume'', ''restart'', ''terminate'']
        then withAction route (when_method method ''POST'' ''workflow.write'')
        else route)"

definition route_ns_secrets :: "string list \<Rightarrow> string \<Rightarrow> string \<Rightarrow> control_route option" where
  "route_ns_secrets segs ns method =
     (if \<not> seg_is segs 2 ''secrets'' then None
      else let route = Some ((ns_route ''nsSecrets'' ''ns_secrets'' ns)
             \<lparr>r_secretKey := (if length segs = 4 then Some (segs ! 3) else None)\<rparr>) in
        if length segs = 3 \<and> method = ''GET'' then withAction route (Some ''secret.read'')
        else if length segs = 4 \<and> method = ''PUT'' then withAction route (Some ''secret.write'')
        else if length segs = 4 \<and> method = ''DELETE'' then withAction route (Some ''secret.delete'')
        else if length segs = 3 \<or> length segs = 4 then route else None)"

definition route_hosts :: "string list \<Rightarrow> string \<Rightarrow> string \<Rightarrow> control_route option" where
  "route_hosts segs ns method =
     (if \<not> (length segs = 3 \<and> seg_is segs 2 ''hosts'') then None
      else let route = Some (ns_route ''hosts'' ''hosts'' ns) in
        if method = ''GET'' then withAction route (Some ''host.read'')
        else if method = ''POST'' then withAction route (Some ''host.write'') else route)"

definition route_logs :: "string list \<Rightarrow> string \<Rightarrow> string \<Rightarrow> control_route option" where
  "route_logs segs ns method =
     (if seg_is segs 2 ''logs'' \<and> length segs = 4 \<and> seg_is segs 3 ''tail''
      then withAction (Some (ns_route ''logsTail'' ''logs_tail'' ns)) (when_method method ''GET'' ''worker.logs.tail'')
      else None)"

definition route_d1 :: "string list \<Rightarrow> string \<Rightarrow> string \<Rightarrow> control_route option" where
  "route_d1 segs ns method =
     (if \<not> seg_is segs 2 ''d1'' then None
      else let route = Some ((ns_route ''d1'' ''d1'' ns)\<lparr>r_subPath := Some (drop 3 segs)\<rparr>) in
        if \<not> seg_is segs 3 ''databases'' then route
        else if length segs = 4 then
          (if method = ''GET'' then withAction route (Some ''d1.list'')
           else if method = ''POST'' then withAction route (Some ''d1.create'') else route)
        else if length segs = 5 \<and> method = ''DELETE'' then withAction route (Some ''d1.delete'')
        else if length segs = 6 \<and> seg_is segs 5 ''query'' \<and> method = ''POST'' then withAction route (Some ''d1.execute'')
        else if length segs = 6 \<and> seg_is segs 5 ''migrations'' \<and> method = ''GET'' then withAction route (Some ''d1.migrate.read'')
        else if length segs = 7 \<and> seg_is segs 5 ''migrations'' \<and> method = ''POST'' then
          (if seg_is segs 6 ''status'' then withAction route (Some ''d1.migrate.read'')
           else if seg_is segs 6 ''apply'' then withAction route (Some ''d1.migrate.write'') else route)
        else route)"

definition parseR2DispatchPath :: "string \<Rightarrow> (string \<times> string list) option" where
  "parseR2DispatchPath pathname =
     (let parts = split_char CHR ''/'' pathname in
      if \<not> seg_is parts 0 [] \<or> \<not> seg_is parts 1 ''ns'' \<or> length parts \<le> 2 \<or> parts ! 2 = [] \<or> \<not> seg_is parts 3 ''r2''
      then None else Some (parts ! 2, drop 4 parts))"

definition route_r2 :: "string \<Rightarrow> string list \<Rightarrow> string \<Rightarrow> string \<Rightarrow> control_route option" where
  "route_r2 pathname segs ns method =
     (if \<not> seg_is segs 2 ''r2'' then None
      else let dispatch = parseR2DispatchPath pathname;
               sub = (case dispatch of None \<Rightarrow> [] | Some (_, sub) \<Rightarrow> sub);
               route = (case dispatch of None \<Rightarrow> None
                 | Some (_, sub) \<Rightarrow> Some ((ns_route ''r2'' ''r2'' ns)\<lparr>r_subPath := Some sub\<rparr>)) in
        if length segs = 4 \<and> seg_is segs 3 ''buckets'' \<and> method = ''GET'' then withAction route (Some ''r2.bucket.list'')
        else let objects = (dispatch \<noteq> None \<and> seg_is sub 0 ''buckets'' \<and> length sub > 1 \<and> sub ! 1 \<noteq> [] \<and> seg_is sub 2 ''objects'');
                 hasObjectKey = (length sub > 3) in
          if objects \<and> method = ''HEAD'' \<and> hasObjectKey then withAction route (Some ''r2.object.head'')
          else if objects \<and> method = ''GET'' then
            withAction route (Some (if hasObjectKey then ''r2.object.get'' else ''r2.object.list''))
          else if objects \<and> method = ''DELETE'' \<and> hasObjectKey then withAction route (Some ''r2.object.delete'')
          else route)"

definition route_ai :: "string list \<Rightarrow> string \<Rightarrow> string \<Rightarrow> control_route option" where
  "route_ai segs ns method =
     (if \<not> seg_is segs 2 ''ai'' then None
      else let route = Some ((ns_route ''ai'' ''ai'' ns)\<lparr>r_subPath := Some (drop 3 segs)\<rparr>) in
        if length segs = 4 \<and> seg_is segs 3 ''providers'' \<and> method = ''GET'' then withAction route (Some ''ai.provider.read'')
        else if length segs = 5 \<and> seg_is segs 3 ''providers'' \<and> method = ''GET'' then withAction route (Some ''ai.provider.read'')
        else if length segs = 5 \<and> seg_is segs 3 ''providers'' \<and> (method = ''PUT'' \<or> method = ''DELETE'')
        then withAction route (Some ''ai.provider.write'')
        else if length segs = 6 \<and> seg_is segs 3 ''providers'' \<and> seg_is segs 5 ''credential'' \<and> method = ''PUT''
        then withAction route (Some ''ai.provider.write'')
        else if length segs = 4 \<and> seg_is segs 3 ''models'' \<and> method = ''GET'' then withAction route (Some ''ai.model.list'')
        else route)"

definition route_worker :: "string list \<Rightarrow> string \<Rightarrow> string \<Rightarrow> control_route option" where
  "route_worker segs ns method =
     (if \<not> (seg_is segs 2 ''worker'' \<and> length segs > 3) then None
      else let verb = (if length segs > 4 then Some (segs ! 4) else None);
               route = (case verb of None \<Rightarrow> None
                 | Some v \<Rightarrow> Some ((ns_route ''worker'' v ns)\<lparr>r_worker := Some (segs ! 3), r_workerAction := Some v,
                     r_subPath := Some (drop 5 segs)\<rparr>)) in
        if length segs = 5 \<and> verb = Some ''deploy'' \<and> method = ''POST'' then withAction route (Some ''worker.deploy'')
        else if length segs = 5 \<and> verb = Some ''promote'' \<and> method = ''POST'' then withAction route (Some ''worker.promote'')
        else if length segs = 5 \<and> verb = Some ''delete'' \<and> method = ''POST'' then withAction route (Some ''worker.delete'')
        else if length segs = 5 \<and> verb = Some ''versions'' \<and> method = ''GET'' then withAction route (Some ''worker.versions.read'')
        else if length segs = 5 \<and> verb = Some ''secrets'' \<and> method = ''GET'' then withAction route (Some ''secret.read'')
        else if length segs = 6 \<and> verb = Some ''versions'' \<and> method = ''DELETE'' then withAction route (Some ''worker.versions.delete'')
        else if length segs = 6 \<and> verb = Some ''secrets'' \<and> method = ''PUT'' then withAction route (Some ''secret.write'')
        else if length segs = 6 \<and> verb = Some ''secrets'' \<and> method = ''DELETE'' then withAction route (Some ''secret.delete'')
        else route)"

fun first_some :: "'a option list \<Rightarrow> 'a option" where
  "first_some [] = None"
| "first_some (Some x # xs) = Some x"
| "first_some (None # xs) = first_some xs"

definition path_segments :: "string \<Rightarrow> string list" where
  "path_segments pathname = filter (\<lambda>s. s \<noteq> []) (split_char CHR ''/'' pathname)"

definition control_route_of :: "string \<Rightarrow> string \<Rightarrow> control_route option" where
  "control_route_of pathname method =
     (let segs = path_segments pathname in
           (if pathname = ''/reload'' then withAction (Some (route_of ''reload'' ''reload'')) (when_method method ''POST'' ''system.reload'')
            else if pathname = ''/whoami'' then withAction (Some (route_of ''whoami'' ''whoami'')) (when_method method ''GET'' ''diagnostic.whoami'')
            else if seg_is segs 0 ''auth'' \<and> seg_is segs 1 ''tokens'' \<and> length segs \<le> 3 then route_auth_tokens segs method
            else if seg_is segs 0 ''auth'' \<and> seg_is segs 1 ''delegated-tokens'' \<and> length segs = 2 then route_delegated method
            else if seg_is segs 0 ''ns'' \<and> length segs > 1 then
              (let ns = segs ! 1 in
               first_some [route_workers segs ns method, route_workflows segs ns method, route_ns_secrets segs ns method,
                 route_hosts segs ns method, route_logs segs ns method, route_d1 segs ns method,
                 route_r2 pathname segs ns method, route_ai segs ns method, route_worker segs ns method])
            else None))"

definition parseControlRoute :: "string \<Rightarrow> string \<Rightarrow> control_route" where
  "parseControlRoute pathname method =
     (case control_route_of pathname method of Some r \<Rightarrow> r | None \<Rightarrow> no_route)"

section \<open>Resume ids and secret keys\<close>

definition resume_part :: rx where
  "resume_part = RAlt (RLit ''0'') (RSeq (Cls [(CHR ''1'', CHR ''9'')]) (RRep 0 19 (Cls d09)))"

definition RESUME_ID_RE :: rx where
  "RESUME_ID_RE = RSeq resume_part (RSeq (RLit ''-'') resume_part)"

definition isValidResumeId :: "jsval \<Rightarrow> bool" where
  "isValidResumeId value \<longleftrightarrow> is_string value \<and> rx_test RESUME_ID_RE (str_of value)"

text \<open>
  \<open>BigInt(v)\<close> of a string without a minus sign, or of \<open>undefined\<close>: white space is trimmed, the
  empty text is zero, a decimal text may carry a plus sign, and the prefixes of the other
  radixes are read.
\<close>

definition radix_val :: "nat \<Rightarrow> string \<Rightarrow> nat option" where
  "radix_val base s =
     (if s \<noteq> [] \<and> list_all (\<lambda>c. case hex_val c of Some d \<Rightarrow> d < base | None \<Rightarrow> False) s
      then Some (foldl (\<lambda>acc c. acc * base + the (hex_val c)) 0 s) else None)"

definition BigInt :: "string option \<Rightarrow> nat result" where
  "BigInt v =
     (case v of
        None \<Rightarrow> Throw JsTypeError
      | Some raw \<Rightarrow>
          let s = trim raw;
              r = (if s = [] then Some 0
                   else if list_all is_digit s then Some (digits_val s)
                   else if hd s = CHR ''+'' \<and> tl s \<noteq> [] \<and> list_all is_digit (tl s) then Some (digits_val (tl s))
                   else if take 2 s = ''0x'' \<or> take 2 s = ''0X'' then radix_val 16 (drop 2 s)
                   else if take 2 s = ''0o'' \<or> take 2 s = ''0O'' then radix_val 8 (drop 2 s)
                   else if take 2 s = ''0b'' \<or> take 2 s = ''0B'' then radix_val 2 (drop 2 s)
                   else None)
          in case r of None \<Rightarrow> Throw JsSyntaxError | Some n \<Rightarrow> Ok n)"

definition compareStreamIds :: "string \<Rightarrow> string \<Rightarrow> int result" where
  "compareStreamIds a b =
     (let part = (\<lambda>xs i. if i < length xs then Some (xs ! i) else None :: string option);
          as = split_char CHR ''-'' a; bs = split_char CHR ''-'' b in
      bind_result (BigInt (part as 0)) (\<lambda>ams. bind_result (BigInt (part bs 0)) (\<lambda>bms.
        if ams \<noteq> bms then Ok (if ams < bms then - 1 else 1)
        else bind_result (BigInt (part as 1)) (\<lambda>aseq. bind_result (BigInt (part bs 1)) (\<lambda>bseq.
          if aseq \<noteq> bseq then Ok (if aseq < bseq then - 1 else 1) else Ok 0)))))"

definition SECRET_KEY_RE :: rx where
  "SECRET_KEY_RE = RSeq (Cls (AZ @ az @ one CHR ''_'')) (RStar (Cls cls_word))"

definition validateSecretKey :: "jsval \<Rightarrow> unit result" where
  "validateSecretKey key =
     (if \<not> is_string key \<or> \<not> rx_test SECRET_KEY_RE (str_of key) then Throw JsError
      else if rx_test WDL_RESERVED_BINDING_RE (str_of key) then Throw JsError
      else if str_of key \<in> set RESERVED_OBJECT_KEYS then Throw JsError
      else if length (str_of key) > 128 then Throw JsError
      else Ok ())"

section \<open>Routes\<close>

text \<open>The complete table of the actions a path can carry, with the method of each.\<close>

definition control_actions :: "(string \<times> string) list" where
  "control_actions =
    [(''system.reload'', ''POST''), (''diagnostic.whoami'', ''GET''),
     (''auth.token.issue'', ''POST''), (''auth.token.list'', ''GET''), (''auth.token.revoke'', ''DELETE''),
     (''auth.delegated_token.issue'', ''POST''),
     (''worker.list'', ''GET''), (''workflow.list'', ''GET''), (''workflow.read'', ''GET''), (''workflow.write'', ''POST''),
     (''secret.read'', ''GET''), (''secret.write'', ''PUT''), (''secret.delete'', ''DELETE''),
     (''host.read'', ''GET''), (''host.write'', ''POST''), (''worker.logs.tail'', ''GET''),
     (''d1.list'', ''GET''), (''d1.create'', ''POST''), (''d1.delete'', ''DELETE''), (''d1.execute'', ''POST''),
     (''d1.migrate.read'', ''GET''), (''d1.migrate.read'', ''POST''), (''d1.migrate.write'', ''POST''),
     (''r2.bucket.list'', ''GET''), (''r2.object.head'', ''HEAD''), (''r2.object.get'', ''GET''),
     (''r2.object.list'', ''GET''), (''r2.object.delete'', ''DELETE''),
     (''ai.provider.read'', ''GET''), (''ai.provider.write'', ''PUT''), (''ai.provider.write'', ''DELETE''),
     (''ai.model.list'', ''GET''),
     (''worker.deploy'', ''POST''), (''worker.promote'', ''POST''), (''worker.delete'', ''POST''),
     (''worker.versions.read'', ''GET''), (''worker.versions.delete'', ''DELETE'')]"

lemma control_action_mem:
  "(''system.reload'', ''POST'') \<in> set control_actions"
  "(''diagnostic.whoami'', ''GET'') \<in> set control_actions"
  "(''auth.token.issue'', ''POST'') \<in> set control_actions"
  "(''auth.token.list'', ''GET'') \<in> set control_actions"
  "(''auth.token.revoke'', ''DELETE'') \<in> set control_actions"
  "(''auth.delegated_token.issue'', ''POST'') \<in> set control_actions"
  "(''worker.list'', ''GET'') \<in> set control_actions"
  "(''workflow.list'', ''GET'') \<in> set control_actions"
  "(''workflow.read'', ''GET'') \<in> set control_actions"
  "(''workflow.write'', ''POST'') \<in> set control_actions"
  "(''secret.read'', ''GET'') \<in> set control_actions"
  "(''secret.write'', ''PUT'') \<in> set control_actions"
  "(''secret.delete'', ''DELETE'') \<in> set control_actions"
  "(''host.read'', ''GET'') \<in> set control_actions"
  "(''host.write'', ''POST'') \<in> set control_actions"
  "(''worker.logs.tail'', ''GET'') \<in> set control_actions"
  "(''d1.list'', ''GET'') \<in> set control_actions"
  "(''d1.create'', ''POST'') \<in> set control_actions"
  "(''d1.delete'', ''DELETE'') \<in> set control_actions"
  "(''d1.execute'', ''POST'') \<in> set control_actions"
  "(''d1.migrate.read'', ''GET'') \<in> set control_actions"
  "(''d1.migrate.read'', ''POST'') \<in> set control_actions"
  "(''d1.migrate.write'', ''POST'') \<in> set control_actions"
  "(''r2.bucket.list'', ''GET'') \<in> set control_actions"
  "(''r2.object.head'', ''HEAD'') \<in> set control_actions"
  "(''r2.object.get'', ''GET'') \<in> set control_actions"
  "(''r2.object.list'', ''GET'') \<in> set control_actions"
  "(''r2.object.delete'', ''DELETE'') \<in> set control_actions"
  "(''ai.provider.read'', ''GET'') \<in> set control_actions"
  "(''ai.provider.write'', ''PUT'') \<in> set control_actions"
  "(''ai.provider.write'', ''DELETE'') \<in> set control_actions"
  "(''ai.model.list'', ''GET'') \<in> set control_actions"
  "(''worker.deploy'', ''POST'') \<in> set control_actions"
  "(''worker.promote'', ''POST'') \<in> set control_actions"
  "(''worker.delete'', ''POST'') \<in> set control_actions"
  "(''worker.versions.read'', ''GET'') \<in> set control_actions"
  "(''worker.versions.delete'', ''DELETE'') \<in> set control_actions"
  unfolding control_actions_def by simp_all

definition route_fits :: "string option \<Rightarrow> string \<Rightarrow> control_route \<Rightarrow> bool" where
  "route_fits ns method r \<longleftrightarrow>
     (r_kind r \<noteq> None \<longrightarrow> r_ns r = ns) \<and> (r_kind r = None \<longrightarrow> r_ns r = None \<and> r_worker r = None)
     \<and> (\<forall>a. r_action r = Some a \<longrightarrow> (a, method) \<in> set control_actions)"

lemmas route_simps = withAction_def when_method_def route_of_def ns_route_def no_route_def Let_def
  route_fits_def control_action_mem

definition plain_route :: "string option \<Rightarrow> control_route option \<Rightarrow> bool" where
  "plain_route ns route \<longleftrightarrow> (\<forall>r. route = Some r \<longrightarrow> r_action r = None \<and> r_ns r = ns \<and> r_kind r \<noteq> None)"

lemma withAction_fits:
  assumes "plain_route ns route" "\<And>a. act = Some a \<Longrightarrow> (a, m) \<in> set control_actions" "withAction route act = Some r"
  shows "route_fits ns m r"
  using assms by (cases act; cases route) (auto simp: plain_route_def withAction_def route_fits_def no_route_def)

lemma plain_fits: "plain_route ns (Some r) \<Longrightarrow> route_fits ns m r"
  by (auto simp: plain_route_def route_fits_def)

lemma when_method_mem: "(a, m') \<in> set control_actions \<Longrightarrow> when_method m m' a = Some b \<Longrightarrow> (b, m) \<in> set control_actions"
  by (auto simp: when_method_def split: if_split_asm)

lemmas plain_simps = plain_route_def ns_route_def route_of_def no_route_def

lemma plain_ns_route:
  "plain_route (Some ns) (Some (ns_route kind scope ns))"
  "plain_route (Some ns) (Some ((ns_route kind scope ns)\<lparr>r_subPath := sub\<rparr>))"
  "plain_route (Some ns) (Some ((ns_route kind scope ns)\<lparr>r_secretKey := key\<rparr>))"
  "plain_route (Some ns) (Some ((ns_route kind scope ns)\<lparr>r_worker := w, r_workerAction := v, r_subPath := sub\<rparr>))"
  "plain_route None (Some (route_of kind scope))"
  "plain_route None (Some ((route_of kind scope)\<lparr>r_tokenId := tok\<rparr>))"
  "plain_route n None"
  by (simp_all add: plain_simps)

text \<open>Each branch picks an action of the table for its plain route.\<close>

lemma if_fits:
  assumes "(if b then x else y) = Some r" "b \<Longrightarrow> x = Some r \<Longrightarrow> route_fits ns m r" "\<not> b \<Longrightarrow> y = Some r \<Longrightarrow> route_fits ns m r"
  shows "route_fits ns m r"
  using assms by (cases b) simp_all

lemma act_fits:
  assumes "withAction route (Some a) = Some r" "plain_route ns route" "(a, m) \<in> set control_actions"
  shows "route_fits ns m r"
  using assms by (intro withAction_fits) auto

lemma when_fits:
  assumes "withAction route (when_method m m' a) = Some r" "plain_route ns route" "(a, m') \<in> set control_actions"
  shows "route_fits ns m r"
  using assms by (intro withAction_fits [of ns route]) (auto intro: when_method_mem)

lemma route_fits_route: "route = Some r \<Longrightarrow> plain_route ns route \<Longrightarrow> route_fits ns m r"
  using plain_fits by blast

lemma method_mem: "m = m' \<Longrightarrow> (a, m') \<in> set control_actions \<Longrightarrow> (a, m) \<in> set control_actions"
  by simp

lemma none_fits: "None = Some r \<Longrightarrow> route_fits ns m r"
  by simp

lemma fits_workers: "route_workers segs ns m = Some r \<Longrightarrow> route_fits (Some ns) m r"
  unfolding route_workers_def Let_def
  by (elim if_fits none_fits; (elim act_fits when_fits route_fits_route conjE disjE)?;
      (simp add: plain_ns_route control_action_mem split: option.split)?)

lemma fits_workflows: "route_workflows segs ns m = Some r \<Longrightarrow> route_fits (Some ns) m r"
  unfolding route_workflows_def Let_def
  by (elim if_fits none_fits; (elim act_fits when_fits route_fits_route conjE disjE)?;
      (simp add: plain_ns_route control_action_mem split: option.split)?)

lemma fits_ns_secrets: "route_ns_secrets segs ns m = Some r \<Longrightarrow> route_fits (Some ns) m r"
  unfolding route_ns_secrets_def Let_def
  by (elim if_fits none_fits; (elim act_fits when_fits route_fits_route conjE disjE)?;
      (simp add: plain_ns_route control_action_mem split: option.split)?)

lemma fits_hosts: "route_hosts segs ns m = Some r \<Longrightarrow> route_fits (Some ns) m r"
  unfolding route_hosts_def Let_def
  by (elim if_fits none_fits; (elim act_fits when_fits route_fits_route conjE disjE)?;
      (simp add: plain_ns_route control_action_mem split: option.split)?)

lemma fits_logs: "route_logs segs ns m = Some r \<Longrightarrow> route_fits (Some ns) m r"
  unfolding route_logs_def Let_def
  by (elim if_fits none_fits; (elim act_fits when_fits route_fits_route conjE disjE)?;
      (simp add: plain_ns_route control_action_mem split: option.split)?)

lemma fits_d1: "route_d1 segs ns m = Some r \<Longrightarrow> route_fits (Some ns) m r"
  unfolding route_d1_def Let_def
  by (elim if_fits none_fits; (elim act_fits when_fits route_fits_route conjE disjE)?;
      (simp add: plain_ns_route control_action_mem split: option.split)?)

lemma fits_ai: "route_ai segs ns m = Some r \<Longrightarrow> route_fits (Some ns) m r"
  unfolding route_ai_def Let_def
  by (elim if_fits none_fits; (elim act_fits when_fits route_fits_route conjE disjE)?;
      (simp add: plain_ns_route control_action_mem split: option.split)?)

lemma fits_worker: "route_worker segs ns m = Some r \<Longrightarrow> route_fits (Some ns) m r"
  unfolding route_worker_def Let_def
  by (elim if_fits none_fits; (elim act_fits when_fits route_fits_route conjE disjE)?;
      (simp add: plain_ns_route control_action_mem split: option.split)?)

lemma fits_r2: "route_r2 p segs ns m = Some r \<Longrightarrow> route_fits (Some ns) m r"
proof -
  assume run: "route_r2 p segs ns m = Some r"
  define route where "route = (case parseR2DispatchPath p of None \<Rightarrow> None
    | Some (_, sub) \<Rightarrow> Some ((ns_route ''r2'' ''r2'' ns)\<lparr>r_subPath := Some sub\<rparr>))"
  have plain: "plain_route (Some ns) route" by (auto simp: route_def plain_ns_route split: option.split)
  from run show ?thesis unfolding route_r2_def Let_def route_def [symmetric]
    by (elim if_fits none_fits; (elim act_fits route_fits_route conjE)?; (simp add: plain control_action_mem)?)
qed

lemma fits_auth_tokens: "route_auth_tokens segs m = Some r \<Longrightarrow> route_fits None m r"
  unfolding route_auth_tokens_def Let_def
  by (elim if_fits none_fits; (elim act_fits route_fits_route conjE)?; (simp add: plain_ns_route control_action_mem)?)

lemma fits_delegated: "route_delegated m = Some r \<Longrightarrow> route_fits None m r"
  unfolding route_delegated_def by (elim when_fits) (simp_all add: plain_ns_route control_action_mem)

lemma first_some_in: "first_some xs = Some x \<Longrightarrow> Some x \<in> set xs"
  by (induction xs rule: first_some.induct) auto

lemma fits_ns:
  assumes "first_some [route_workers segs ns m, route_workflows segs ns m, route_ns_secrets segs ns m,
    route_hosts segs ns m, route_logs segs ns m, route_d1 segs ns m, route_r2 p segs ns m, route_ai segs ns m,
    route_worker segs ns m] = Some r"
  shows "route_fits (Some ns) m r"
  using first_some_in [OF assms] fits_workers fits_workflows fits_ns_secrets fits_hosts fits_logs fits_d1 fits_r2
    fits_ai fits_worker by (metis empty_iff empty_set set_ConsD)

definition path_ns :: "string \<Rightarrow> string option" where
  "path_ns p = (case path_segments p of a # n # _ \<Rightarrow> if a = ''ns'' then Some n else None | _ \<Rightarrow> None)"

lemma no_route_fits: "route_fits n m no_route"
  by (simp add: route_fits_def no_route_def)

lemma seg_path_ns: "seg_is (path_segments p) 0 ''ns'' \<Longrightarrow> 1 < length (path_segments p) \<Longrightarrow> path_ns p = Some (path_segments p ! 1)"
  by (auto simp: path_ns_def seg_is_def split: list.split)

lemma if_elim:
  "(if b then x else y) = Some r \<Longrightarrow> (b \<Longrightarrow> x = Some r \<Longrightarrow> Q) \<Longrightarrow> (\<not> b \<Longrightarrow> y = Some r \<Longrightarrow> Q) \<Longrightarrow> Q"
  by (cases b) simp_all

lemma route_of_fits:
  assumes "control_route_of p m = Some r"
  shows "route_fits None m r \<or> (path_ns p \<noteq> None \<and> route_fits (path_ns p) m r)"
  using assms unfolding control_route_of_def Let_def
proof (elim if_elim)
  assume "withAction (Some (route_of ''reload'' ''reload'')) (when_method m ''POST'' ''system.reload'') = Some r"
  then show ?thesis by (intro disjI1 when_fits [OF _ plain_ns_route(5) control_action_mem(1)])
next
  assume "withAction (Some (route_of ''whoami'' ''whoami'')) (when_method m ''GET'' ''diagnostic.whoami'') = Some r"
  then show ?thesis by (intro disjI1 when_fits [OF _ plain_ns_route(5) control_action_mem(2)])
next
  assume "route_auth_tokens (path_segments p) m = Some r"
  then show ?thesis by (intro disjI1 fits_auth_tokens)
next
  assume "route_delegated m = Some r"
  then show ?thesis by (intro disjI1 fits_delegated)
next
  assume "seg_is (path_segments p) 0 ''ns'' \<and> 1 < length (path_segments p)"
  then have "path_ns p = Some (path_segments p ! 1)" by (intro seg_path_ns) auto
  moreover assume "first_some [route_workers (path_segments p) (path_segments p ! 1) m,
    route_workflows (path_segments p) (path_segments p ! 1) m, route_ns_secrets (path_segments p) (path_segments p ! 1) m,
    route_hosts (path_segments p) (path_segments p ! 1) m, route_logs (path_segments p) (path_segments p ! 1) m,
    route_d1 (path_segments p) (path_segments p ! 1) m, route_r2 p (path_segments p) (path_segments p ! 1) m,
    route_ai (path_segments p) (path_segments p ! 1) m, route_worker (path_segments p) (path_segments p ! 1) m] = Some r"
  ultimately show ?thesis using fits_ns by simp
qed simp

lemma parse_fits:
  "route_fits None m (parseControlRoute p m) \<or> (path_ns p \<noteq> None \<and> route_fits (path_ns p) m (parseControlRoute p m))"
  using route_of_fits [of p m] no_route_fits by (auto simp: parseControlRoute_def split: option.split)

text \<open>A path for every entry of the table.\<close>

definition sample_paths :: "(string \<times> string) list \<Rightarrow> (string \<times> string \<times> string) list" where
  "sample_paths table = zip
    [''/reload'', ''/whoami'', ''/auth/tokens'', ''/auth/tokens'', ''/auth/tokens/t'', ''/auth/delegated-tokens'',
     ''/ns/a/workers'', ''/ns/a/workflows'', ''/ns/a/workflows/w/f/instances'', ''/ns/a/workflows/w/f/instances/i/pause'',
     ''/ns/a/secrets'', ''/ns/a/secrets/K'', ''/ns/a/secrets/K'', ''/ns/a/hosts'', ''/ns/a/hosts'', ''/ns/a/logs/tail'',
     ''/ns/a/d1/databases'', ''/ns/a/d1/databases'', ''/ns/a/d1/databases/d'', ''/ns/a/d1/databases/d/query'',
     ''/ns/a/d1/databases/d/migrations'', ''/ns/a/d1/databases/d/migrations/status'', ''/ns/a/d1/databases/d/migrations/apply'',
     ''/ns/a/r2/buckets'', ''/ns/a/r2/buckets/b/objects/k'', ''/ns/a/r2/buckets/b/objects/k'', ''/ns/a/r2/buckets/b/objects'',
     ''/ns/a/r2/buckets/b/objects/k'', ''/ns/a/ai/providers'', ''/ns/a/ai/providers/p'', ''/ns/a/ai/providers/p'',
     ''/ns/a/ai/models'', ''/ns/a/worker/w/deploy'', ''/ns/a/worker/w/promote'', ''/ns/a/worker/w/delete'',
     ''/ns/a/worker/w/versions'', ''/ns/a/worker/w/versions/v1''] table"

lemma sample_paths_reach:
  "list_all (\<lambda>(p, a, m). r_action (parseControlRoute p m) = Some a) (sample_paths control_actions)
   \<and> map snd (sample_paths control_actions) = control_actions"
  by code_simp

lemma control_actions_known: "fst ` set control_actions = set KNOWN_ACTIONS"
  by code_simp

section \<open>Properties\<close>

text \<open>
  C32: the URL classifier grants exactly the actions of the table. A method carries an action on
  some path if and only if the pair is in the table, and the actions of the table are exactly the
  known actions of the role table.
\<close>

theorem control_actions_exact:
  "((\<exists>p. r_action (parseControlRoute p m) = Some a) \<longleftrightarrow> (a, m) \<in> set control_actions)
    \<and> fst ` set control_actions = set KNOWN_ACTIONS"
proof (intro conjI iffI)
  assume "\<exists>p. r_action (parseControlRoute p m) = Some a"
  then obtain p where "r_action (parseControlRoute p m) = Some a" by blast
  then show "(a, m) \<in> set control_actions" using parse_fits [of m p] by (auto simp: route_fits_def)
next
  assume "(a, m) \<in> set control_actions"
  then have "(a, m) \<in> set (map snd (sample_paths control_actions))" using sample_paths_reach by simp
  then obtain p where "(p, a, m) \<in> set (sample_paths control_actions)" by auto
  then show "\<exists>p. r_action (parseControlRoute p m) = Some a"
    using sample_paths_reach by (auto simp: list_all_iff)
qed (fact control_actions_known)

lemma digit_nonzero:
  assumes "is_digit c" "c \<noteq> CHR ''0''"
  shows "CHR ''1'' \<le> c \<and> c \<le> CHR ''9''"
proof -
  have "(of_char c :: nat) \<noteq> of_char CHR ''0''" using assms(2) by (simp only: of_char_eq_iff) simp
  then show ?thesis using assms(1) by (simp add: is_digit_iff less_eq_char_def)
qed

lemma resume_part_iff: "rx_test resume_part x \<longleftrightarrow> (\<exists>n < 10 ^ 20. x = show_nat n)"
proof
  assume "rx_test resume_part x"
  then consider "x = ''0''" | "x \<noteq> []" "CHR ''1'' \<le> hd x" "hd x \<le> CHR ''9''" "length (tl x) \<le> 19" "\<forall>c \<in> set (tl x). is_digit c"
    unfolding resume_part_def rx_test_alt rx_test_lit rx_test_seq_cls rx_test_rep_cls by (auto simp: is_digit_def)
  then show "\<exists>n < 10 ^ 20. x = show_nat n"
  proof cases
    case 1
    then show ?thesis by (intro exI [of _ 0]) (simp add: show_nat_zero)
  next
    case 2
    then have d: "\<forall>c \<in> set x. is_digit c" "hd x \<noteq> CHR ''0''"
      by (cases x; auto simp: is_digit_def less_eq_char_def)+
    have "length x \<le> 20" using 2 by (cases x) auto
    then have "digits_val x < 10 ^ 20"
      using digits_val_bound [OF d(1)] power_increasing [of "length x" 20 "10 :: nat"] by simp
    then show ?thesis using show_nat_digits_val [OF 2(1) d] by metis
  qed
next
  assume "\<exists>n < 10 ^ 20. x = show_nat n"
  then obtain n where n: "n < 10 ^ 20" "x = show_nat n" by blast
  show "rx_test resume_part x"
  proof (cases "n = 0")
    case True
    then have "x = ''0''" using n(2) by (simp add: show_nat_zero)
    then show ?thesis unfolding resume_part_def rx_test_alt rx_test_lit by simp
  next
    case False
    have d: "\<forall>c \<in> set x. is_digit c" and ne: "x \<noteq> []" using show_nat_digits n(2) by auto
    have "hd x \<noteq> CHR ''0''" using show_nat_leading [of n] False n(2) by simp
    moreover have "is_digit (hd x)" using d ne by simp
    ultimately have "CHR ''1'' \<le> hd x \<and> hd x \<le> CHR ''9''" by (rule digit_nonzero [rotated])
    moreover have "length x \<le> 20" using n show_nat_length [of 20 n] by simp
    ultimately show ?thesis using ne d
      unfolding resume_part_def rx_test_alt rx_test_seq_cls rx_test_rep_cls
      by (cases x) (auto simp: is_digit_def)
  qed
qed

definition stream_id :: "nat \<Rightarrow> nat \<Rightarrow> string" where
  "stream_id ms sq = show_nat ms @ CHR ''-'' # show_nat sq"

lemma valid_resume_iff:
  "isValidResumeId (JStr a) \<longleftrightarrow> (\<exists>ms sq. ms < 10 ^ 20 \<and> sq < 10 ^ 20 \<and> a = stream_id ms sq)"
proof -
  have "isValidResumeId (JStr a) \<longleftrightarrow> (\<exists>u v. a = u @ CHR ''-'' # v \<and> rx_test resume_part u \<and> rx_test resume_part v)"
    unfolding isValidResumeId_def RESUME_ID_RE_def rx_test_seq rx_test_lit by auto
  also have "\<dots> \<longleftrightarrow> (\<exists>ms sq. ms < 10 ^ 20 \<and> sq < 10 ^ 20 \<and> a = stream_id ms sq)"
    unfolding resume_part_iff stream_id_def by blast
  finally show ?thesis .
qed

lemma trim_digits: "\<forall>c \<in> set s. is_digit c \<Longrightarrow> trim s = s"
proof -
  assume d: "\<forall>c \<in> set s. is_digit c"
  have "\<not> js_space c" if "is_digit c" for c
    using that unfolding js_space_def by (auto simp: is_digit_def less_eq_char_def)
  then have "dropWhile js_space t = t" if "set t \<subseteq> set s" for t
    using d that by (cases t) auto
  then show ?thesis by (simp add: trim_def)
qed

lemma BigInt_show_nat: "BigInt (Some (show_nat n)) = Ok n"
  using show_nat_digits [of n] by (simp add: BigInt_def trim_digits list_all_iff)

lemma compare_stream_id:
  "compareStreamIds (stream_id m s) (stream_id m' s') =
     Ok (if m < m' \<or> m = m' \<and> s < s' then - 1 else if m = m' \<and> s = s' then 0 else 1)"
proof -
  have "\<not> is_digit CHR ''-''" by (simp add: is_digit_def less_eq_char_def)
  then show ?thesis
    by (simp add: compareStreamIds_def stream_id_def split_show_nat BigInt_show_nat Let_def)
qed

text \<open>
  C33: log resume ids are ordered as pairs of numbers. The accepted ids are exactly the two
  decimal numbers below ten to the twentieth joined by a hyphen, and comparing two of them is the
  lexicographic order of the pairs, so that only equal ids compare as zero.
\<close>

theorem stream_ids_ordered:
  "(isValidResumeId (JStr a) \<longleftrightarrow> (\<exists>ms sq. ms < 10 ^ 20 \<and> sq < 10 ^ 20 \<and> a = stream_id ms sq))
   \<and> compareStreamIds (stream_id m s) (stream_id m' s') =
      Ok (if m < m' \<or> m = m' \<and> s < s' then - 1 else if m = m' \<and> s = s' then 0 else 1)"
  using valid_resume_iff compare_stream_id by simp

text \<open>
  C34: referrers of other namespaces stay private. Whatever the index holds, a principal that is
  neither \<open>ops\<close> nor the platform principal of the target namespace sees only the referrers of
  the target namespace and the number of the others, and no well-formed referrer is lost.
\<close>

theorem referrers_private:
  assumes "jget pr ''kind'' \<noteq> JStr ''ops''" "jget pr ''kind'' \<noteq> JStr ''platform'' \<or> jget pr ''ns'' \<noteq> JStr target"
  shows "(\<forall>r \<in> set (referrers (formatReferrerBlocker raws target pr)). callerNs r = target)
    \<and> length (referrers (formatReferrerBlocker raws target pr))
        + (case crossNamespaceReferrerCount (formatReferrerBlocker raws target pr) of None \<Rightarrow> 0 | Some n \<Rightarrow> n)
      = length (List.map_filter (\<lambda>raw. decodeReferrerMember (JStr raw)) raws)"
proof -
  let ?parsed = "List.map_filter (\<lambda>raw. decodeReferrerMember (JStr raw)) raws"
  have blocker: "formatReferrerBlocker raws target pr =
      \<lparr>referrers = filter (\<lambda>r. callerNs r = target) ?parsed,
       crossNamespaceReferrerCount = (let n = length (filter (\<lambda>r. callerNs r \<noteq> target) ?parsed) in if n > 0 then Some n else None)\<rparr>"
    using assms by (auto simp: formatReferrerBlocker_def Let_def)
  have "length (filter (\<lambda>r. callerNs r = target) ?parsed) + length (filter (\<lambda>r. callerNs r \<noteq> target) ?parsed) = length ?parsed"
    by (rule sum_length_filter_compl)
  then show ?thesis unfolding blocker
    by (cases "filter (\<lambda>r. callerNs r \<noteq> target) ?parsed") (auto simp: Let_def)
qed

theorem referrers_private_witness:
  "list_all (\<lambda>r. callerNs r = ''acme'') (referrers (formatReferrerBlocker
     [stringify (JObj [(''binding'', JStr ''B''), (''callerNs'', JStr ''other''), (''callerVersion'', JStr ''v1''), (''callerWorker'', JStr ''w'')])]
     ''acme'' (JObj [(''kind'', JStr ''ns''), (''ns'', JStr ''acme'')])))"
  using referrers_private [of "JObj [(''kind'', JStr ''ns''), (''ns'', JStr ''acme'')]" "''acme''"
    "[stringify (JObj [(''binding'', JStr ''B''), (''callerNs'', JStr ''other''), (''callerVersion'', JStr ''v1''), (''callerWorker'', JStr ''w'')])]"]
  by (simp add: list_all_iff)

text \<open>
  C35: referrer members are read back as written: decoding inverts encoding, so removing a
  referrer from the index addresses the very member that was added.
\<close>

theorem referrer_round_trip:
  "encodeReferrerMember ns worker version binding = Ok raw \<Longrightarrow>
   decodeReferrerMember (JStr raw) = Some \<lparr>callerNs = str_of ns, callerWorker = str_of worker,
     callerVersion = str_of version, ref_binding = str_of binding\<rparr>"
proof -
  assume e: "encodeReferrerMember ns worker version binding = Ok raw"
  let ?o = "JObj [(''binding'', binding), (''callerNs'', ns), (''callerVersion'', version), (''callerWorker'', worker)]"
  from e have ok: "nonempty_string ns" "nonempty_string worker" "nonempty_string version" "nonempty_string binding"
    and raw: "raw = stringify ?o"
    by (auto simp: encodeReferrerMember_def split: if_split_asm)
  then have "json_ok ?o" by (simp add: nonempty_string_ok)
  then have "json_parse raw = Some ?o" unfolding raw by (rule parse_stringify)
  with ok show ?thesis by (simp add: decodeReferrerMember_def nonempty_string_def)
qed

theorem referrer_round_trip_witness:
  "\<exists>raw. encodeReferrerMember (JStr ''acme'') (JStr ''web'') (JStr ''v3'') (JStr ''API'') = Ok raw
    \<and> decodeReferrerMember (JStr raw) =
        Some \<lparr>callerNs = ''acme'', callerWorker = ''web'', callerVersion = ''v3'', ref_binding = ''API''\<rparr>"
proof -
  obtain raw where raw: "encodeReferrerMember (JStr ''acme'') (JStr ''web'') (JStr ''v3'') (JStr ''API'') = Ok raw"
    by (simp add: encodeReferrerMember_def nonempty_string_def)
  from referrer_round_trip [OF raw] raw show ?thesis by auto
qed

end
