(* ===== verification/Owner_Lease.thy ===== *)
theory Owner_Lease
  imports Redis_Commands Uri_Component
begin

text \<open>
  Owner records and their leases, \<open>shared/owner-lease.js\<close>. A record is the JSON object stored
  under the owner key of a resource; it carries the generation of the claim and the time its
  lease ends. The generation counter has a key of its own, without expiry. The lemmas give the
  range of the counter and of the lease, and the round trip of a stored record.
\<close>

section \<open>Keys and constants\<close>

definition OWNER_GENERATION_COUNTER :: rx where
  "OWNER_GENERATION_COUNTER = RAlt (RCh CHR ''0'')
     (RSeq (Cls [(CHR ''1'', CHR ''9'')]) (RStar (Cls [(CHR ''0'', CHR ''9'')])))"

definition OWNER_TTL_MAX_SECONDS :: int where
  "OWNER_TTL_MAX_SECONDS = MAX_SAFE_INTEGER div 1000"

definition ownerScopedKey :: "string \<Rightarrow> string \<Rightarrow> string" where
  "ownerScopedKey prefix scope = prefix @ encodeURIComponent scope"

definition ownerGenerationScopedKey :: "string \<Rightarrow> string \<Rightarrow> string" where
  "ownerGenerationScopedKey prefix scope = ownerScopedKey prefix scope @ '':generation''"

section \<open>Records\<close>

text \<open>The value read from Redis is a string or absent; an empty string counts as absent.\<close>

definition positive_generation :: "jsval \<Rightarrow> bool" where
  "positive_generation v = (case v of JNum n \<Rightarrow> isSafeInteger n \<and> \<not> num_le n (num 0) | _ \<Rightarrow> False)"

definition lease_field_ok :: "jsval \<Rightarrow> bool" where
  "lease_field_ok v = (case v of JUndef \<Rightarrow> True | JNull \<Rightarrow> True | JNum n \<Rightarrow> isFinite n | _ \<Rightarrow> False)"

definition parseOwnerRecord :: "string option \<Rightarrow> jsval option" where
  "parseOwnerRecord raw =
     (case raw of
        None \<Rightarrow> None
      | Some s \<Rightarrow>
          if s = [] then None
          else
            (case json_parse s of
               Some (JObj ps) \<Rightarrow>
                 if positive_generation (jget (JObj ps) ''generation'') \<and> lease_field_ok (jget (JObj ps) ''leaseExpiresAt'')
                 then Some (JObj ps) else None
             | _ \<Rightarrow> None))"

text \<open>
  \<open>Number(v)\<close> for the values a lease field has: the declared type is a number, null or
  undefined, and the parser lets nothing else through.
\<close>

definition lease_number :: "jsval \<Rightarrow> jsnum" where
  "lease_number v = (case v of JNum n \<Rightarrow> n | JNull \<Rightarrow> num 0 | _ \<Rightarrow> NaN)"

definition leaseExpiresAt_of :: "jsval option \<Rightarrow> jsval" where
  "leaseExpiresAt_of owner = (case owner of None \<Rightarrow> JUndef | Some r \<Rightarrow> jget r ''leaseExpiresAt'')"

definition ownerLeaseExpired :: "jsval option \<Rightarrow> int \<Rightarrow> bool" where
  "ownerLeaseExpired owner now =
     (let leaseExpiresAt = lease_number (leaseExpiresAt_of owner) in
      \<not> isFinite leaseExpiresAt \<or> num_le leaseExpiresAt (num now))"

definition redisServerTimeMs :: "int io" where
  "redisServerTimeMs = io_bind redis_time (\<lambda>now. if \<not> isSafeInt now \<or> now < 0 then io_throw JsError else io_return now)"

definition ownerLeaseExpiresAt :: "int \<Rightarrow> int \<Rightarrow> int result" where
  "ownerLeaseExpiresAt nowMs ttlSeconds =
     (if \<not> isSafeInt nowMs \<or> nowMs < 0 then Throw JsError
      else if \<not> isSafeInt ttlSeconds \<or> ttlSeconds \<le> 0 \<or> ttlSeconds > OWNER_TTL_MAX_SECONDS then Throw JsError
      else Ok (min MAX_SAFE_INTEGER (nowMs + ttlSeconds * 1000)))"

definition ownerTtlSecondsEnv :: "jsval \<Rightarrow> string \<Rightarrow> int \<Rightarrow> int" where
  "ownerTtlSecondsEnv env name fallback = canonicalPositiveIntegerEnv env name fallback OWNER_TTL_MAX_SECONDS"

section \<open>The generation counter\<close>

definition parseOwnerGenerationCounter :: "string option \<Rightarrow> int result" where
  "parseOwnerGenerationCounter raw =
     (case raw of
        None \<Rightarrow> Ok 0
      | Some s \<Rightarrow>
          if s = [] then Ok 0
          else if \<not> rx_test OWNER_GENERATION_COUNTER s then Throw JsError
          else let parsed = int (digits_val s) in if isSafeInt parsed then Ok parsed else Throw JsError)"

definition currentOwnerGenerationCounter :: "string \<Rightarrow> int io" where
  "currentOwnerGenerationCounter generationKey =
     io_bind (redis_get generationKey) (\<lambda>raw. io_lift (parseOwnerGenerationCounter raw))"

definition nextOwnerGenerationFromSnapshot :: "string option \<Rightarrow> int \<Rightarrow> int result" where
  "nextOwnerGenerationFromSnapshot raw currentGeneration =
     bind_result (parseOwnerGenerationCounter raw) (\<lambda>currentCounter.
       let previousGeneration = max currentCounter currentGeneration in
       if \<not> isSafeInt previousGeneration \<or> previousGeneration \<ge> MAX_SAFE_INTEGER then Throw JsError
       else Ok (previousGeneration + 1))"

definition withOwnerWatchRetries :: "'a io \<Rightarrow> nat \<Rightarrow> js_error \<Rightarrow> 'a io" where
  "withOwnerWatchRetries operation retries exhausted =
     withOptimisticRetries (\<lambda>_. operation) (if retries > 0 then retries else 1) (\<lambda>e. e = WatchError) (\<lambda>_ _. False)
       (io_throw exhausted) 0"

section \<open>Facts\<close>

lemma counter_show_nat: "rx_test OWNER_GENERATION_COUNTER (show_nat n)"
  unfolding OWNER_GENERATION_COUNTER_def by (rule rx_nat)

lemma parse_counter_show: "0 \<le> n \<Longrightarrow> isSafeInt n \<Longrightarrow> parseOwnerGenerationCounter (Some (show_int n)) = Ok n"
  using counter_show_nat [of "nat n"] by (simp add: parseOwnerGenerationCounter_def show_int_def Let_def)

lemma parse_counter_range: "parseOwnerGenerationCounter raw = Ok n \<Longrightarrow> 0 \<le> n \<and> isSafeInt n"
  by (auto simp: parseOwnerGenerationCounter_def Let_def isSafeInt_def MAX_SAFE_INTEGER_def
      split: option.split_asm if_split_asm)

lemma next_generation_range:
  assumes "nextOwnerGenerationFromSnapshot raw current = Ok g"
  obtains c where "parseOwnerGenerationCounter raw = Ok c" "g = max c current + 1" "0 < g" "isSafeInt g"
  using assms parse_counter_range
  by (fastforce simp: nextOwnerGenerationFromSnapshot_def bind_result_eq_Inr Let_def isSafeInt_def split: if_split_asm)

lemma lease_range:
  "ownerLeaseExpiresAt now ttl = Ok t \<Longrightarrow> now < t \<or> t = MAX_SAFE_INTEGER"
  "ownerLeaseExpiresAt now ttl = Ok t \<Longrightarrow> isSafeInt t \<and> 0 \<le> t \<and> t \<le> now + ttl * 1000"
  by (auto simp: ownerLeaseExpiresAt_def isSafeInt_def split: if_split_asm)

text \<open>The generation of a parsed record, a positive safe integer.\<close>

definition generation_of :: "jsval \<Rightarrow> int" where
  "generation_of r = (case jget r ''generation'' of JNum n \<Rightarrow> toInt n | _ \<Rightarrow> 0)"

lemma parsed_generation:
  assumes "parseOwnerRecord raw = Some r"
  shows "jget r ''generation'' = JNum (num (generation_of r))" "0 < generation_of r" "isSafeInt (generation_of r)"
proof -
  from assms have "positive_generation (jget r ''generation'')"
    by (auto simp: parseOwnerRecord_def split: option.split_asm if_split_asm jsval.split_asm)
  then obtain n where "jget r ''generation'' = JNum n" "isSafeInteger n" "\<not> num_le n (num 0)"
    by (auto simp: positive_generation_def split: jsval.split_asm)
  moreover from this(2) obtain m where m: "n = num m" "isSafeInt m" by (rule isSafeInteger_cases)
  ultimately have "jget r ''generation'' = JNum (num m)" "\<not> num_le (num m) (num 0)" by simp_all
  then have "jget r ''generation'' = JNum (num m)" "0 < m" unfolding num_le_num by simp_all
  with m(2) show "jget r ''generation'' = JNum (num (generation_of r))" "0 < generation_of r" "isSafeInt (generation_of r)"
    by (simp_all add: generation_of_def)
qed

lemma parse_stored_record:
  assumes "json_ok (JObj ps)" "positive_generation (jget (JObj ps) ''generation'')" "lease_field_ok (jget (JObj ps) ''leaseExpiresAt'')"
  shows "parseOwnerRecord (Some (stringify (JObj ps))) = Some (JObj ps)"
proof -
  have "stringify (JObj ps) \<noteq> []" by simp
  with assms parse_stringify [OF assms(1)] show ?thesis by (simp add: parseOwnerRecord_def)
qed

end
