(* ===== verification/Owner_Protocol.thy ===== *)
theory Owner_Protocol
  imports Owner_Lease
begin

text \<open>
  The ownership protocol over Redis, \<open>shared/owner-protocol.js\<close>: reading an owner record with
  the time of the server, the fence of a record, staging claims and releases, and releasing
  many records by compare-and-delete. The parser of a record depends on the resource; the
  interface it has to satisfy is the locale \<open>owner_scope\<close>, in which the fencing theorem of the
  protocol is proved. The registries interpret it with their parsers.
\<close>

section \<open>Reading\<close>

record owner_keys =
  ownerKey :: string
  generationKey :: string

definition ownerProtocolKeys :: "string \<Rightarrow> string \<Rightarrow> owner_keys" where
  "ownerProtocolKeys prefix scope =
     \<lparr>ownerKey = ownerScopedKey prefix scope, generationKey = ownerGenerationScopedKey prefix scope\<rparr>"

text \<open>\<open>owner\<close>, \<open>rawOwner\<close> and \<open>nowMs\<close> of a timed read. A parser maps the stored text to an owner, null or an error.\<close>

type_synonym owner_parser = "string option \<Rightarrow> jsval option result"

definition parseTimedOwnerRead :: "string option \<Rightarrow> int \<Rightarrow> owner_parser \<Rightarrow> (jsval option \<times> string option \<times> int) result" where
  "parseTimedOwnerRead v nowMs parseOwner =
     (if \<not> isSafeInt nowMs \<or> nowMs < 0 then Throw JsError
      else bind_result (parseOwner v) (\<lambda>owner. Ok (owner, v, nowMs)))"

definition ownerFenceMatches :: "jsval option \<Rightarrow> jsval option \<Rightarrow> bool" where
  "ownerFenceMatches current expected =
     (case (current, expected) of
        (Some c, Some e) \<Rightarrow>
          is_string (jget c ''taskId'') \<and> jget c ''taskId'' = jget e ''taskId''
          \<and> (case (jget c ''generation'', jget e ''generation'') of
               (JNum m, JNum n) \<Rightarrow> num_eq m n
             | _ \<Rightarrow> False)
      | _ \<Rightarrow> False)"

definition readOwnerRecord :: "string \<Rightarrow> owner_parser \<Rightarrow> jsval option io" where
  "readOwnerRecord key parseOwner = io_bind (redis_get key) (\<lambda>raw. io_lift (parseOwner raw))"

definition readOwnerRecordWithRedisTime :: "string \<Rightarrow> owner_parser \<Rightarrow> (jsval option \<times> string option \<times> int) io" where
  "readOwnerRecordWithRedisTime key parseOwner =
     io_bind (getWithTime key) (\<lambda>(v, nowMs). io_lift (parseTimedOwnerRead v nowMs parseOwner))"

definition readOwnerSnapshotWithRedisTime ::
  "string \<Rightarrow> string list \<Rightarrow> owner_parser \<Rightarrow> (jsval option \<times> string option \<times> string option list \<times> int) io" where
  "readOwnerSnapshotWithRedisTime key relatedKeys parseOwner =
     io_bind (getManyWithTime (key # relatedKeys)) (\<lambda>(vs, nowMs).
     io_bind (io_lift (parseTimedOwnerRead (vs ! 0) nowMs parseOwner)) (\<lambda>(owner, rawOwner, nowMs).
       io_return (owner, rawOwner, drop 1 vs, nowMs)))"

section \<open>Staged writes\<close>

definition stageOwnerClaim :: "owner_keys \<Rightarrow> jsval \<Rightarrow> int \<Rightarrow> cmd list \<Rightarrow> cmd list result" where
  "stageOwnerClaim keys owner ttlSeconds multi =
     bind_result (multi_set (generationKey keys) (show_int (generation_of owner)) no_options multi) (\<lambda>multi.
       multi_set (ownerKey keys) (stringify owner) (no_options\<lparr>so_ttl := Some (num ttlSeconds)\<rparr>) multi)"

definition stageOwnerRenew :: "string \<Rightarrow> jsval \<Rightarrow> int \<Rightarrow> cmd list \<Rightarrow> cmd list result" where
  "stageOwnerRenew key owner ttlSeconds multi =
     multi_set key (stringify owner) (no_options\<lparr>so_ttl := Some (num ttlSeconds)\<rparr>) multi"

definition stageOwnerRelease :: "string \<Rightarrow> cmd list \<Rightarrow> cmd list" where
  "stageOwnerRelease key multi = multi_del [key] multi"

section \<open>Releasing many records\<close>

definition OWNER_RELEASE_BATCH_SIZE :: nat where "OWNER_RELEASE_BATCH_SIZE = 256"

definition OWNER_RELEASE_ATTEMPTS :: nat where "OWNER_RELEASE_ATTEMPTS = 3"

record release_result =
  rr_released :: bool
  rr_owner :: "jsval option"
  rr_error :: "js_error option"

record candidate =
  c_index :: nat
  c_key :: string
  c_raw :: string

text \<open>An entry is a key and the expected record; the parser is told the expected record.\<close>

type_synonym release_entry = "string \<times> jsval"

type_synonym release_parser = "string option \<Rightarrow> jsval \<Rightarrow> jsval option result"

definition judge_entry :: "release_parser \<Rightarrow> nat \<Rightarrow> release_entry \<Rightarrow> string option \<Rightarrow> release_result + candidate" where
  "judge_entry parseOwner index entry rawOwner =
     (case parseOwner rawOwner (snd entry) of
        Inl e \<Rightarrow> Inl \<lparr>rr_released = False, rr_owner = None, rr_error = Some e\<rparr>
      | Inr owner \<Rightarrow>
          (case rawOwner of
             Some raw \<Rightarrow>
               if ownerFenceMatches owner (Some (snd entry)) then Inr \<lparr>c_index = index, c_key = fst entry, c_raw = raw\<rparr>
               else Inl \<lparr>rr_released = False, rr_owner = owner, rr_error = None\<rparr>
           | None \<Rightarrow> Inl \<lparr>rr_released = False, rr_owner = owner, rr_error = None\<rparr>))"

type_synonym release_results = "release_result option list"

fun first_round :: "release_parser \<Rightarrow> nat \<Rightarrow> release_entry list \<Rightarrow> string option list \<Rightarrow> release_results \<Rightarrow> candidate list
    \<Rightarrow> release_results \<times> candidate list" where
  "first_round parseOwner index (entry # entries) (rawOwner # rawOwners) results candidates =
     (case judge_entry parseOwner index entry rawOwner of
        Inl r \<Rightarrow> first_round parseOwner (index + 1) entries rawOwners (results[index := Some r]) candidates
      | Inr c \<Rightarrow> first_round parseOwner (index + 1) entries rawOwners results (candidates @ [c]))"
| "first_round parseOwner index _ _ results candidates = (results, candidates)"

definition mark_all :: "candidate list \<Rightarrow> release_result \<Rightarrow> release_results \<Rightarrow> release_results" where
  "mark_all cs r results = foldl (\<lambda>results c. results[c_index c := Some r]) results cs"

abbreviation failed_release :: "js_error \<Rightarrow> release_result" where
  "failed_release e \<equiv> \<lparr>rr_released = False, rr_owner = None, rr_error = Some e\<rparr>"

abbreviation done_release :: release_result where
  "done_release \<equiv> \<lparr>rr_released = True, rr_owner = None, rr_error = None\<rparr>"

text \<open>The records whose comparison failed are read again; the last attempt gives up.\<close>

fun race_round :: "release_parser \<Rightarrow> release_entry list \<Rightarrow> nat \<Rightarrow> candidate list \<Rightarrow> string option list \<Rightarrow> release_results \<Rightarrow> candidate list
    \<Rightarrow> release_results \<times> candidate list" where
  "race_round parseOwner entries attempt (c # raced) (rawOwner # currentOwners) results candidates =
     (case judge_entry parseOwner (c_index c) (entries ! c_index c) rawOwner of
        Inl r \<Rightarrow> race_round parseOwner entries attempt raced currentOwners (results[c_index c := Some r]) candidates
      | Inr c' \<Rightarrow>
          if attempt + 1 \<ge> OWNER_RELEASE_ATTEMPTS
          then race_round parseOwner entries attempt raced currentOwners
            (results[c_index c := Some (failed_release JsError)]) candidates
          else race_round parseOwner entries attempt raced currentOwners results
            (candidates @ [\<lparr>c_index = c_index c, c_key = c_key c, c_raw = c_raw c'\<rparr>]))"
| "race_round parseOwner entries attempt _ _ results candidates = (results, candidates)"

lemma race_round_last:
  "attempt + 1 \<ge> OWNER_RELEASE_ATTEMPTS \<Longrightarrow> snd (race_round p es attempt raced cur results cands) = cands"
  by (induction p es attempt raced cur results cands rule: race_round.induct) (auto split: sum.split)

lemma race_round_continues: "snd (race_round p es attempt raced cur results []) \<noteq> [] \<Longrightarrow> attempt + 1 < OWNER_RELEASE_ATTEMPTS"
  using race_round_last not_less by blast

definition delete_round :: "candidate list \<Rightarrow> reply list io" where
  "delete_round candidates =
     io_bind (delIfEqMany (map (\<lambda>c. (c_key c, c_raw c)) candidates)) (\<lambda>released.
       if length released \<noteq> length candidates then io_throw JsError else io_return released)"

definition reread_round :: "candidate list \<Rightarrow> string option list io" where
  "reread_round raced =
     io_bind (getMany (map c_key raced)) (\<lambda>currentOwners.
       if length currentOwners \<noteq> length raced then io_throw JsError else io_return currentOwners)"

definition split_round :: "candidate list \<Rightarrow> reply list \<Rightarrow> candidate list \<times> candidate list" where
  "split_round candidates released =
     (map fst (filter (\<lambda>(c, x). x = Number 1) (zip candidates released)),
      map fst (filter (\<lambda>(c, x). x \<noteq> Number 1) (zip candidates released)))"

function release_loop :: "release_parser \<Rightarrow> release_entry list \<Rightarrow> nat \<Rightarrow> candidate list \<Rightarrow> release_results \<Rightarrow> release_results io" where
  "release_loop parseOwner entries attempt candidates results =
     (if candidates = [] then io_return results
      else io_try (delete_round candidates) (\<lambda>r. case r of
          Inl e \<Rightarrow> io_return (mark_all candidates (failed_release e) results)
        | Inr released \<Rightarrow>
            let raced = snd (split_round candidates released);
                results = mark_all (fst (split_round candidates released)) done_release results in
            if raced = [] then io_return results
            else io_try (reread_round raced) (\<lambda>r. case r of
                Inl e \<Rightarrow> io_return (mark_all raced (failed_release e) results)
              | Inr currentOwners \<Rightarrow>
                  release_loop parseOwner entries (attempt + 1)
                    (snd (race_round parseOwner entries attempt raced currentOwners results []))
                    (fst (race_round parseOwner entries attempt raced currentOwners results [])))))"
  by pat_completeness auto
termination
  by (relation "measure (\<lambda>(_, _, attempt, candidates, _). if candidates = [] then 0 else Suc (OWNER_RELEASE_ATTEMPTS - attempt))")
     (auto dest!: race_round_continues)

definition releaseOwnerRecordBatch :: "release_parser \<Rightarrow> release_entry list \<Rightarrow> release_results io" where
  "releaseOwnerRecordBatch parseOwner entries =
     (if entries = [] then io_return []
      else io_bind (getMany (map fst entries)) (\<lambda>rawOwners.
        if length rawOwners \<noteq> length entries then io_throw JsError
        else let (results, candidates) = first_round parseOwner 0 entries rawOwners (replicate (length entries) None) [] in
          release_loop parseOwner entries 0 candidates results))"

function releaseOwnerRecords :: "release_parser \<Rightarrow> release_entry list \<Rightarrow> release_results io" where
  "releaseOwnerRecords parseOwner entries =
     (if entries = [] then io_return []
      else let batch = take OWNER_RELEASE_BATCH_SIZE entries in
        io_bind (io_catch (releaseOwnerRecordBatch parseOwner batch)
            (\<lambda>e. io_return (map (\<lambda>_. Some (failed_release e)) batch))) (\<lambda>rs.
        io_map (\<lambda>rest. rs @ rest) (releaseOwnerRecords parseOwner (drop OWNER_RELEASE_BATCH_SIZE entries))))"
  by pat_completeness auto
termination
  by (relation "measure (\<lambda>(_, entries). length entries)") (auto simp: OWNER_RELEASE_BATCH_SIZE_def)

declare release_loop.simps [simp del] releaseOwnerRecords.simps [simp del]

section \<open>Every release is a fenced compare-and-delete\<close>

abbreviation delifeq :: "string \<Rightarrow> string \<Rightarrow> cmd" where
  "delifeq key raw \<equiv> [''DELIFEQ'', key, raw]"

definition fenced :: "release_parser \<Rightarrow> release_entry list \<Rightarrow> string \<Rightarrow> string \<Rightarrow> bool" where
  "fenced p entries key raw \<longleftrightarrow> (\<exists>expected owner. (key, expected) \<in> set entries
     \<and> p (Some raw) expected = Ok owner \<and> ownerFenceMatches owner (Some expected))"

definition release_request :: "release_parser \<Rightarrow> release_entry list \<Rightarrow> req \<Rightarrow> bool" where
  "release_request p entries q \<longleftrightarrow>
     (\<exists>keys. q = Pipeline (map (\<lambda>k. [''GET'', k]) keys) \<and> set keys \<subseteq> fst ` set entries)
     \<or> (\<exists>kvs. q = Pipeline (map (\<lambda>(k, v). delifeq k v) kvs) \<and> (\<forall>(k, v) \<in> set kvs. fenced p entries k v))"

text \<open>The record under a key was deleted in a trace: a compare-and-delete of the key replied 1.\<close>

definition deleted :: "(req \<times> reply) list \<Rightarrow> string \<Rightarrow> bool" where
  "deleted tr key \<longleftrightarrow> (\<exists>kvs rs raw. (Pipeline (map (\<lambda>(k, v). delifeq k v) kvs), Many rs) \<in> set tr
     \<and> ((key, raw), Number 1) \<in> set (zip kvs rs))"

definition verdicts :: "release_entry list \<Rightarrow> (req \<times> reply) list \<Rightarrow> release_results \<Rightarrow> bool" where
  "verdicts entries tr rs \<longleftrightarrow> length rs = length entries
     \<and> (\<forall>i < length rs. \<forall>r. rs ! i = Some r \<longrightarrow> rr_released r \<longrightarrow> deleted tr (fst (entries ! i)))"

definition cand_ok :: "release_parser \<Rightarrow> release_entry list \<Rightarrow> candidate \<Rightarrow> bool" where
  "cand_ok p entries c \<longleftrightarrow> c_index c < length entries \<and> c_key c = fst (entries ! c_index c)
     \<and> (\<exists>owner. p (Some (c_raw c)) (snd (entries ! c_index c)) = Ok owner
        \<and> ownerFenceMatches owner (Some (snd (entries ! c_index c))))"

definition open_only :: "candidate list \<Rightarrow> release_results \<Rightarrow> bool" where
  "open_only cs rs \<longleftrightarrow> (\<forall>i < length rs. rs ! i = None \<longrightarrow> i \<in> c_index ` set cs)"

lemma cand_fenced: "cand_ok p entries c \<Longrightarrow> fenced p entries (c_key c) (c_raw c)"
  unfolding cand_ok_def fenced_def by (metis nth_mem prod.collapse)

lemma length_mark_all [simp]: "length (mark_all cs r rs) = length rs"
  unfolding mark_all_def by (induction cs arbitrary: rs) auto

lemma nth_mark_all: "i < length rs \<Longrightarrow> mark_all cs r rs ! i = (if i \<in> c_index ` set cs then Some r else rs ! i)"
  unfolding mark_all_def by (induction cs arbitrary: rs) (auto simp: nth_list_update)

lemma verdicts_mono: "verdicts entries tr rs \<Longrightarrow> set tr \<subseteq> set tr' \<Longrightarrow> verdicts entries tr' rs"
  unfolding verdicts_def deleted_def by (meson subsetD)

lemma verdicts_update:
  "verdicts entries tr rs \<Longrightarrow> \<not> rr_released r \<Longrightarrow> verdicts entries tr (rs[i := Some r])"
  unfolding verdicts_def by (cases "i < length rs") (auto simp: nth_list_update)

lemma verdicts_failed: "verdicts entries tr rs \<Longrightarrow> verdicts entries tr (mark_all cs (failed_release e) rs)"
  unfolding verdicts_def by (auto simp: nth_mark_all split: if_split_asm)

lemma open_update: "open_only (c # cs) rs \<Longrightarrow> open_only cs (rs[c_index c := Some r])"
  unfolding open_only_def by (cases "c_index c < length rs") (auto simp: nth_list_update)

lemma open_failed: "open_only cs rs \<Longrightarrow> None \<notin> set (mark_all cs (failed_release e) rs)"
  unfolding open_only_def by (auto simp: in_set_conv_nth nth_mark_all split: if_split_asm)

lemma split_round_sets:
  assumes "length released = length cs" "split_round cs released = (won, raced)"
  shows "set won \<union> set raced = set cs"
    "c \<in> set won \<Longrightarrow> (c, Number 1) \<in> set (zip cs released)"
proof -
  have "fst ` set (zip cs released) = set cs" using assms(1) by (metis list.set_map map_fst_zip)
  moreover have "set won \<union> set raced =
      fst ` ({x \<in> set (zip cs released). snd x = Number 1} \<union> {x \<in> set (zip cs released). snd x \<noteq> Number 1})"
    using assms(2) [symmetric] by (simp add: split_round_def split_def image_Un)
  moreover have "{x \<in> Z. P x} \<union> {x \<in> Z. \<not> P x} = Z" for Z and P :: "candidate \<times> reply \<Rightarrow> bool" by auto
  ultimately show "set won \<union> set raced = set cs" by simp
  show "c \<in> set won \<Longrightarrow> (c, Number 1) \<in> set (zip cs released)" using assms(2) by (auto simp: split_round_def)
qed

text \<open>One round of the loop: the requests it sends and what the results say after it.\<close>

lemma always_deletes:
  assumes "cs \<noteq> []"
    and "\<And>a e. Q [(Pipeline (map (\<lambda>c. delifeq (c_key c) (c_raw c)) cs), a)] (Throw e)"
    and "\<And>released. length released = length cs \<Longrightarrow>
      Q [(Pipeline (map (\<lambda>c. delifeq (c_key c) (c_raw c)) cs), Many released)] (Ok released)"
  shows "always (delete_round cs) Q"
  using assms
  by (auto simp: delete_round_def delIfEqMany_def execPipeline_def comp_def split_def split: reply.split sum.split)

lemma always_rereads:
  assumes "cs \<noteq> []"
    and "\<And>a e. Q [(Pipeline (map (\<lambda>k. [''GET'', k]) (map c_key cs)), a)] (Throw e)"
    and "\<And>a owners. length owners = length cs \<Longrightarrow> Q [(Pipeline (map (\<lambda>k. [''GET'', k]) (map c_key cs)), a)] (Ok owners)"
  shows "always (reread_round cs) Q"
  using assms by (auto simp: reread_round_def getMany_def execPipeline_def comp_def split: reply.split sum.split)

lemma judge_entry_cases:
  "judge_entry p i entry raw = Inl r \<Longrightarrow> \<not> rr_released r"
  "judge_entry p i entry raw = Inr c \<Longrightarrow> c_index c = i \<and> c_key c = fst entry \<and> raw = Some (c_raw c)
    \<and> (\<exists>owner. p (Some (c_raw c)) (snd entry) = Ok owner \<and> ownerFenceMatches owner (Some (snd entry)))"
  by (auto simp: judge_entry_def split: sum.split_asm option.split_asm if_split_asm)

lemma race_round_keeps:
  assumes "race_round p entries attempt raced owners rs cs = (rs', cs')" "length owners = length raced"
    and "\<forall>c \<in> set (raced @ cs). cand_ok p entries c" "verdicts entries tr rs" "open_only (raced @ cs) rs"
  shows "(\<forall>c \<in> set cs'. cand_ok p entries c) \<and> verdicts entries tr rs' \<and> open_only cs' rs'"
  using assms
proof (induction p entries attempt raced owners rs cs rule: race_round.induct)
  case (1 p entries attempt c raced rawOwner owners rs cs)
  have c: "cand_ok p entries c" using "1.prems"(3) by simp
  show ?case
  proof (cases "judge_entry p (c_index c) (entries ! c_index c) rawOwner")
    case (Inl r)
    with "1.prems" show ?thesis
      by (intro "1.IH"(1)) (auto intro!: open_update verdicts_update dest: judge_entry_cases(1))
  next
    case (Inr c')
    note j = judge_entry_cases(2) [OF Inr]
    show ?thesis
    proof (cases "attempt + 1 \<ge> OWNER_RELEASE_ATTEMPTS")
      case True
      with "1.prems" Inr show ?thesis
        by (intro "1.IH"(2) [of c']) (auto intro!: open_update verdicts_update)
    next
      case False
      with "1.prems" Inr j c show ?thesis
        by (intro "1.IH"(3) [of c']) (auto simp: open_only_def cand_ok_def)
    qed
  qed
qed auto

abbreviation (input) delete_request :: "candidate list \<Rightarrow> req" where
  "delete_request cs \<equiv> Pipeline (map (\<lambda>c. delifeq (c_key c) (c_raw c)) cs)"

lemma delete_request_ok: "\<forall>c \<in> set cs. cand_ok p entries c \<Longrightarrow> release_request p entries (delete_request cs)"
  unfolding release_request_def
  by (intro disjI2 exI [of _ "map (\<lambda>c. (c_key c, c_raw c)) cs"]) (auto simp: comp_def intro: cand_fenced)

lemma reread_request_ok:
  "\<forall>c \<in> set cs. cand_ok p entries c \<Longrightarrow> release_request p entries (Pipeline (map (\<lambda>k. [''GET'', k]) (map c_key cs)))"
  unfolding release_request_def by (intro disjI1 exI [of _ "map c_key cs"]) (auto simp: cand_ok_def)

lemma delete_round_verdicts:
  assumes "length released = length cs" "split_round cs released = (won, raced)"
    and "\<forall>c \<in> set cs. cand_ok p entries c" "verdicts entries tr rs" "open_only cs rs"
  defines "rs' \<equiv> mark_all won done_release rs" and "tr' \<equiv> tr @ [(delete_request cs, Many released)]"
  shows "verdicts entries tr' rs' \<and> open_only raced rs' \<and> (\<forall>c \<in> set raced. cand_ok p entries c)"
proof -
  note sp = split_round_sets [OF assms(1,2)]
  have deleted: "deleted tr' (c_key c)" if "c \<in> set won" for c
    unfolding deleted_def
  proof (intro exI conjI)
    show "(Pipeline (map (\<lambda>(k, v). delifeq k v) (map (\<lambda>c. (c_key c, c_raw c)) cs)), Many released) \<in> set tr'"
      by (simp add: tr'_def comp_def)
    show "((c_key c, c_raw c), Number 1) \<in> set (zip (map (\<lambda>c. (c_key c, c_raw c)) cs) released)"
      using sp(2) [OF that] by (force simp: zip_map1)
  qed
  have old: "verdicts entries tr' rs" using assms(4) by (rule verdicts_mono) (auto simp: tr'_def)
  have "deleted tr' (fst (entries ! i))" if "i \<in> c_index ` set won" for i
    using that deleted sp(1) assms(3) unfolding cand_ok_def by (metis UnI1 imageE)
  then have "verdicts entries tr' rs'"
    using old unfolding verdicts_def rs'_def by (auto simp: nth_mark_all split: if_split_asm)
  moreover have "open_only raced rs'"
    using assms(5) unfolding open_only_def rs'_def sp(1) [symmetric]
    by (auto simp: nth_mark_all image_Un split: if_split_asm)
  ultimately show ?thesis using assms(3) sp(1) by blast
qed

definition release_done :: "release_parser \<Rightarrow> release_entry list \<Rightarrow> (req \<times> reply) list \<Rightarrow> nat \<Rightarrow> (req \<times> reply) list
    \<Rightarrow> release_results result \<Rightarrow> bool" where
  "release_done p entries tr0 bound tr r \<longleftrightarrow> (\<exists>rs. r = Ok rs \<and> None \<notin> set rs \<and> verdicts entries (tr0 @ tr) rs)
     \<and> (\<forall>(q, a) \<in> set tr. release_request p entries q) \<and> length tr \<le> bound"

lemma release_done_failed:
  "open_only cs rs \<Longrightarrow> verdicts entries tr0 rs \<Longrightarrow> \<forall>(q, a) \<in> set tr. release_request p entries q \<Longrightarrow> length tr \<le> bound
   \<Longrightarrow> release_done p entries tr0 bound tr (Ok (mark_all cs (failed_release e) rs))"
  using open_failed [of cs rs e] verdicts_mono [OF verdicts_failed, of entries tr0 rs "tr0 @ tr" cs e]
  by (simp add: release_done_def)

lemma release_done_closed:
  "open_only [] rs \<Longrightarrow> verdicts entries tr0 rs \<Longrightarrow> release_done p entries tr0 bound [] (Ok rs)"
  by (auto simp: release_done_def open_only_def in_set_conv_nth)

lemma release_done_Cons:
  "release_request p entries q \<Longrightarrow> release_done p entries (tr0 @ [(q, a)]) bound tr r \<Longrightarrow> Suc bound \<le> bound'
   \<Longrightarrow> release_done p entries tr0 bound' ((q, a) # tr) r"
  by (simp add: release_done_def)

abbreviation (input) after_delete :: "release_parser \<Rightarrow> release_entry list \<Rightarrow> nat \<Rightarrow> release_results \<Rightarrow> candidate list \<Rightarrow> release_results io" where
  "after_delete p entries attempt rs raced \<equiv>
     if raced = [] then io_return rs
     else io_try (reread_round raced) (\<lambda>r. case r of
         Inl e \<Rightarrow> io_return (mark_all raced (failed_release e) rs)
       | Inr currentOwners \<Rightarrow>
           release_loop p entries (attempt + 1)
             (snd (race_round p entries attempt raced currentOwners rs []))
             (fst (race_round p entries attempt raced currentOwners rs [])))"

lemma after_delete_always:
  assumes d: "verdicts entries tr1 rs" "open_only raced rs" "\<forall>c \<in> set raced. cand_ok p entries c"
    and rec: "\<And>rs' cs' tr'. \<lbrakk>raced \<noteq> []; \<forall>c \<in> set cs'. cand_ok p entries c; verdicts entries tr' rs'; open_only cs' rs';
        cs' \<noteq> [] \<Longrightarrow> attempt + 1 < OWNER_RELEASE_ATTEMPTS; \<exists>owners. race_round p entries attempt raced owners rs [] = (rs', cs')\<rbrakk>
      \<Longrightarrow> always (release_loop p entries (attempt + 1) cs' rs') (release_done p entries tr' n)"
  shows "always (after_delete p entries attempt rs raced) (release_done p entries tr1 (Suc n))"
proof (cases "raced = []")
  case True
  with d show ?thesis by (simp add: release_done_closed)
next
  case False
  let ?get = "Pipeline (map (\<lambda>k. [''GET'', k]) (map c_key raced))"
  have get: "release_request p entries ?get" by (rule reread_request_ok [OF d(3)])
  have again: "always (release_loop p entries (attempt + 1) (snd (race_round p entries attempt raced owners rs []))
        (fst (race_round p entries attempt raced owners rs [])))
      (\<lambda>t. release_done p entries tr1 (Suc n) ((?get, a) # t))" if "length owners = length raced" for owners a
  proof -
    obtain rs2 cs2 where rr: "race_round p entries attempt raced owners rs [] = (rs2, cs2)" by force
    have "(\<forall>c \<in> set cs2. cand_ok p entries c) \<and> verdicts entries (tr1 @ [(?get, a)]) rs2 \<and> open_only cs2 rs2"
      using race_round_keeps [OF rr that, of "tr1 @ [(?get, a)]"] d verdicts_mono [OF d(1), of "tr1 @ [(?get, a)]"] by auto
    moreover have "cs2 \<noteq> [] \<Longrightarrow> attempt + 1 < OWNER_RELEASE_ATTEMPTS"
      using race_round_continues [of p entries attempt raced owners rs] rr by simp
    ultimately have "always (release_loop p entries (attempt + 1) cs2 rs2) (release_done p entries (tr1 @ [(?get, a)]) n)"
      using rec [OF False, of cs2 "tr1 @ [(?get, a)]" rs2] rr by blast
    then show ?thesis unfolding rr fst_conv snd_conv
      by (rule always_mono) (erule release_done_Cons [OF get], simp)
  qed
  show ?thesis
    unfolding if_not_P [OF False] always_try
    using d get
    by (intro always_rereads [OF False], simp add: release_done_failed del: map_map)
       (simp only: sum.case append_Cons append_Nil again)
qed

lemma release_loop_always:
  assumes "\<forall>c \<in> set cs. cand_ok p entries c" "verdicts entries tr0 rs" "open_only cs rs"
    "cs \<noteq> [] \<Longrightarrow> attempt < OWNER_RELEASE_ATTEMPTS"
  shows "always (release_loop p entries attempt cs rs) (release_done p entries tr0 (2 * (OWNER_RELEASE_ATTEMPTS - attempt)))"
  using assms
proof (induction p entries attempt cs rs arbitrary: tr0 rule: release_loop.induct)
  case (1 p entries attempt cs rs)
  let ?n = "OWNER_RELEASE_ATTEMPTS - attempt"
  show ?case
  proof (cases "cs = []")
    case True
    with "1.prems" show ?thesis by (simp add: release_loop.simps release_done_closed)
  next
    case False
    define m where "m = 2 * (OWNER_RELEASE_ATTEMPTS - (attempt + 1))"
    have n: "2 * ?n = Suc (Suc m)" using "1.prems"(4) [OF False] by (simp add: m_def)
    have req: "release_request p entries (delete_request cs)" by (rule delete_request_ok [OF "1.prems"(1)])
    have step: "always (after_delete p entries attempt (mark_all (fst (split_round cs released)) done_release rs) (snd (split_round cs released)))
          (\<lambda>tr. release_done p entries tr0 (2 * ?n) ((delete_request cs, Many released) # tr))"
      if len: "length released = length cs" for released
    proof -
      note d = delete_round_verdicts [OF len _ "1.prems"(1,2,3), of "fst (split_round cs released)" "snd (split_round cs released)", simplified]
      have ih: "always (release_loop p entries (attempt + 1) cs' rs') (release_done p entries tr' m)"
        if "snd (split_round cs released) \<noteq> []" "\<forall>c \<in> set cs'. cand_ok p entries c" "verdicts entries tr' rs'" "open_only cs' rs'"
          "cs' \<noteq> [] \<Longrightarrow> attempt + 1 < OWNER_RELEASE_ATTEMPTS"
          "\<exists>owners. race_round p entries attempt (snd (split_round cs released)) owners
            (mark_all (fst (split_round cs released)) done_release rs) [] = (rs', cs')" for cs' rs' tr'
        using "1.IH" [OF False refl refl that(1), of _ tr'] that unfolding m_def by (metis fst_conv snd_conv)
      have "always (after_delete p entries attempt (mark_all (fst (split_round cs released)) done_release rs) (snd (split_round cs released)))
          (release_done p entries (tr0 @ [(delete_request cs, Many released)]) (Suc m))"
        using d by (intro after_delete_always ih) auto
      then show ?thesis by (rule always_mono) (auto simp: n intro: release_done_Cons [OF req])
    qed
    have "release_done p entries tr0 (2 * ?n) [(delete_request cs, a)] (Ok (mark_all cs (failed_release e) rs))" for a e
      using "1.prems" req n by (intro release_done_failed) auto
    then show ?thesis
      unfolding release_loop.simps [of p entries attempt cs rs] if_not_P [OF False] always_try Let_def
      by (intro always_deletes [OF False]) (simp_all add: step)
  qed
qed

text \<open>A batch, and the batches one after the other.\<close>

lemma first_round_keeps:
  assumes "first_round p i es owners rs cs = (rs', cs')" "length owners = length es" "drop i entries = es"
    and "\<forall>c \<in> set cs. cand_ok p entries c" "verdicts entries tr rs" "\<forall>j < length rs. rs ! j = None \<longrightarrow> i \<le> j \<or> j \<in> c_index ` set cs"
  shows "(\<forall>c \<in> set cs'. cand_ok p entries c) \<and> verdicts entries tr rs' \<and> open_only cs' rs'"
  using assms
proof (induction p i es owners rs cs rule: first_round.induct)
  case (1 p i entry es rawOwner owners rs cs)
  have i: "i < length entries" "entry = entries ! i" "drop (i + 1) entries = es"
    using "1.prems"(3) by (metis drop_eq_Nil list.discI not_le, metis nth_via_drop, metis Suc_eq_plus1 drop_Suc drop_tl list.sel(3))
  have n: "length rs = length entries" using "1.prems"(5) by (simp add: verdicts_def)
  show ?case
  proof (cases "judge_entry p i entry rawOwner")
    case (Inl r)
    with "1.prems" i n show ?thesis
      by (intro "1.IH"(1)) (auto simp: nth_list_update Suc_le_eq less_le intro!: verdicts_update dest: judge_entry_cases(1))
  next
    case (Inr c)
    with "1.prems" i n judge_entry_cases(2) [OF Inr] show ?thesis
      by (intro "1.IH"(2)) (auto simp: cand_ok_def Suc_le_eq less_le)
  qed
qed (auto simp: open_only_def verdicts_def)

lemma always_getMany:
  assumes "keys \<noteq> []" "\<And>a e. Q [(Pipeline (map (\<lambda>k. [''GET'', k]) keys), a)] (Throw e)"
    and "\<And>a vs. length vs = length keys \<Longrightarrow> Q [(Pipeline (map (\<lambda>k. [''GET'', k]) keys), a)] (Ok vs)"
  shows "always (getMany keys) Q"
  using assms by (auto simp: getMany_def execPipeline_def split: reply.split sum.split)

lemma batch_always:
  "always (releaseOwnerRecordBatch p entries) (\<lambda>tr r. (\<exists>e. r = Throw e) \<and> length tr \<le> 1 \<and> (\<forall>(q, a) \<in> set tr. release_request p entries q)
     \<or> release_done p entries [] (Suc (2 * OWNER_RELEASE_ATTEMPTS)) tr r)"
proof (cases "entries = []")
  case True
  then show ?thesis by (simp add: releaseOwnerRecordBatch_def release_done_def verdicts_def)
next
  case False
  let ?get = "Pipeline (map (\<lambda>k. [''GET'', k]) (map fst entries))"
  have get: "release_request p entries ?get" unfolding release_request_def by (rule disjI1) (auto simp del: map_map)
  have loop: "always (let (results, candidates) = first_round p 0 entries owners (replicate (length entries) None) [] in
        release_loop p entries 0 candidates results)
      (\<lambda>t. release_done p entries [] (Suc (2 * OWNER_RELEASE_ATTEMPTS)) ((?get, a) # t))"
    if "length owners = length entries" for owners a
  proof -
    obtain rs cs where fr: "first_round p 0 entries owners (replicate (length entries) None) [] = (rs, cs)" by force
    have "(\<forall>c \<in> set cs. cand_ok p entries c) \<and> verdicts entries [(?get, a)] rs \<and> open_only cs rs"
      by (rule first_round_keeps [OF fr that]) (auto simp: verdicts_def)
    then have "always (release_loop p entries 0 cs rs) (release_done p entries ([] @ [(?get, a)]) (2 * OWNER_RELEASE_ATTEMPTS))"
      using release_loop_always [of cs p entries "[(?get, a)]" rs 0] by (simp add: OWNER_RELEASE_ATTEMPTS_def)
    then show ?thesis unfolding fr Let_def prod.case
      by (rule always_mono) (erule release_done_Cons [OF get], simp)
  qed
  have keys: "map fst entries \<noteq> []" using False by simp
  show ?thesis
    unfolding releaseOwnerRecordBatch_def if_not_P [OF False] always_bind
  proof (rule always_getMany [OF keys], goal_cases)
    case (2 a owners)
    then have len: "length owners = length entries" by simp
    show ?case
      unfolding sum.case append_Cons append_Nil using len by (simp only: simp_thms if_False) (rule always_mono [OF loop [OF len, of a]], erule disjI2)
  qed (use get in \<open>simp del: map_map\<close>)
qed

lemma release_request_mono: "release_request p es q \<Longrightarrow> set es \<subseteq> set entries \<Longrightarrow> release_request p entries q"
  unfolding release_request_def fenced_def by (elim disjE exE conjE) (auto 4 4)

lemma verdicts_append:
  assumes "verdicts es1 t1 rs1" "verdicts es2 t2 rs2"
  shows "verdicts (es1 @ es2) (t1 @ t2) (rs1 @ rs2)"
  using verdicts_mono [OF assms(1), of "t1 @ t2"] verdicts_mono [OF assms(2), of "t1 @ t2"]
  unfolding verdicts_def by (auto simp: nth_append)

lemma release_done_append:
  assumes "release_done p es1 [] n1 t1 (Ok rs1)" "release_done p es2 [] n2 t2 (Ok rs2)"
  shows "release_done p (es1 @ es2) [] (n1 + n2) (t1 @ t2) (Ok (rs1 @ rs2))"
  using assms verdicts_append [of es1 t1 rs1 es2 t2 rs2] release_request_mono [of p _ _ "es1 @ es2"]
  unfolding release_done_def by (fastforce simp: case_prod_beta)

definition release_rounds :: "nat \<Rightarrow> nat" where
  "release_rounds n = Suc (2 * OWNER_RELEASE_ATTEMPTS) * ((n + OWNER_RELEASE_BATCH_SIZE - 1) div OWNER_RELEASE_BATCH_SIZE)"

lemma release_rounds_step:
  "0 < n \<Longrightarrow> release_rounds n = Suc (2 * OWNER_RELEASE_ATTEMPTS) + release_rounds (n - OWNER_RELEASE_BATCH_SIZE)"
  unfolding release_rounds_def OWNER_RELEASE_BATCH_SIZE_def
  by (cases "n \<ge> 256") (auto simp: le_div_geq div_if algebra_simps)

lemma records_always: "always (releaseOwnerRecords p entries) (release_done p entries [] (release_rounds (length entries)))"
proof (induction p entries rule: releaseOwnerRecords.induct)
  case (1 p entries)
  show ?case
  proof (cases "entries = []")
    case True
    then show ?thesis by (simp add: releaseOwnerRecords.simps release_done_def verdicts_def)
  next
    case False
    let ?batch = "take OWNER_RELEASE_BATCH_SIZE entries" and ?rest = "drop OWNER_RELEASE_BATCH_SIZE entries"
    note bound = release_rounds_step [of "length entries"]
    have batch: "always (io_catch (releaseOwnerRecordBatch p ?batch) (\<lambda>e. io_return (map (\<lambda>_. Some (failed_release e)) ?batch)))
        (\<lambda>t r. \<exists>rs. r = Ok rs \<and> release_done p ?batch [] (Suc (2 * OWNER_RELEASE_ATTEMPTS)) t (Ok rs))"
      unfolding always_catch
      by (rule always_mono [OF batch_always]) (auto simp: release_done_def verdicts_def split: sum.split)
    have "always (io_map (\<lambda>rest. rs @ rest) (releaseOwnerRecords p ?rest))
        (\<lambda>t'. release_done p entries [] (release_rounds (length entries)) (t @ t'))"
      if "release_done p ?batch [] (Suc (2 * OWNER_RELEASE_ATTEMPTS)) t (Ok rs)" for t rs
      unfolding always_bind
    proof (rule always_mono [OF "1.IH" [OF False refl]], goal_cases)
      case (1 t' r)
      then obtain rest where "r = Ok rest" by (auto simp: release_done_def)
      with 1 release_done_append [OF that, of ?rest "release_rounds (length ?rest)" t' rest] False bound
      show ?case by simp
    qed
    then show ?thesis
      unfolding releaseOwnerRecords.simps [of p entries] if_not_P [OF False] Let_def always_bind
      by (intro always_mono [OF batch]) auto
  qed
qed

lemma round_settles: "settles (delete_round cs)" "settles (reread_round cs)" "settles (getMany ks)"
  unfolding delete_round_def reread_round_def delIfEqMany_def getMany_def execPipeline_def
  by (auto intro!: settles_bind split: reply.split)

lemma loop_settles: "settles (release_loop p entries attempt cs rs)"
proof (induction p entries attempt cs rs rule: release_loop.induct)
  case (1 p entries attempt cs rs)
  then show ?case
    by (subst release_loop.simps) (auto simp: Let_def round_settles intro!: settles_try split: sum.split)
qed

lemma batch_settles: "settles (releaseOwnerRecordBatch p entries)"
  unfolding releaseOwnerRecordBatch_def by (auto simp: round_settles loop_settles intro!: settles_bind split: prod.split)

lemma records_settle: "settles (releaseOwnerRecords p entries)"
proof (induction p entries rule: releaseOwnerRecords.induct)
  case (1 p entries)
  then show ?case by (subst releaseOwnerRecords.simps) (auto simp: batch_settles Let_def intro!: settles_bind settles_catch)
qed

text \<open>
  C14: a batched release of owner records ends for every environment, after at most seven
  pipelines for every 256 entries, and gives a verdict on every entry.
\<close>

theorem releases_end:
  "\<exists>tr rs. outcome (releaseOwnerRecords p entries) tr (Ok rs) \<and> answered env [] tr
     \<and> length rs = length entries \<and> None \<notin> set rs \<and> length tr \<le> 7 * ((length entries + 255) div 256)"
proof -
  from settles_outcome [OF records_settle] obtain tr r
    where r: "outcome (releaseOwnerRecords p entries) tr r" "answered env [] tr" by blast
  from alwaysD [OF records_always r(1)] obtain rs
    where "r = Ok rs" "None \<notin> set rs" "length rs = length entries" "length tr \<le> release_rounds (length entries)"
    by (auto simp: release_done_def verdicts_def)
  with r show ?thesis
    by (intro exI [of _ tr] exI [of _ rs])
       (simp add: release_rounds_def OWNER_RELEASE_ATTEMPTS_def OWNER_RELEASE_BATCH_SIZE_def add.commute)
qed

text \<open>
  C13: a release only deletes records of the expected owner: each request of it reads entries or
  deletes a record on the condition that it is still the text that was read, a text that parses to
  a record with the fence of the entry; and an entry is reported released only when such a
  conditional delete of its key replied 1.
\<close>

theorem releases_fenced:
  assumes "outcome (releaseOwnerRecords p entries) tr (Ok rs)"
  shows "(\<forall>(q, a) \<in> set tr. release_request p entries q)
    \<and> (\<forall>i < length entries. \<forall>r. rs ! i = Some r \<longrightarrow> rr_released r \<longrightarrow> deleted tr (fst (entries ! i)))"
  using alwaysD [OF records_always assms] by (simp add: release_done_def verdicts_def)

theorem releases_fenced_witness: "\<exists>tr. deleted tr ''k'' \<and> length tr = 2"
proof -
  let ?owner = "JObj [(''taskId'', JStr ''t''), (''generation'', JNum (num 1))]"
  let ?run = "run_io (releaseOwnerRecords (\<lambda>raw expected. Ok (parseOwnerRecord raw)) [(''k'', ?owner)])
    [Many [Text (stringify ?owner)], Many [Number 1]]"
  have "(case ?run of Some (tr, Inr rs) \<Rightarrow> rs = [Some done_release] \<and> length tr = 2 | _ \<Rightarrow> False)" by code_simp
  then obtain tr where run: "?run = Some (tr, Ok [Some done_release])" and "length tr = 2"
    by (cases ?run) (auto split: sum.split_asm)
  with releases_fenced [OF run_io_outcome [OF run]] show ?thesis by auto
qed

section \<open>Fencing\<close>

text \<open>
  The two keys of a resource, and as history the claims written so far, newest first. A step is
  one write of the protocol, applied to the values it was computed from: Redis aborts a watched
  transaction whose keys have changed, and compares before a conditional write. \<open>vanish\<close> is a
  release or the expiry of the record. The steps of any number of tasks interleave freely.
\<close>

record owner_store =
  st_owner :: "string option"
  st_counter :: "string option"
  st_claims :: "(int \<times> jsval) list"

definition storable :: "jsval \<Rightarrow> bool" where
  "storable r \<longleftrightarrow> parseOwnerRecord (Some (stringify r)) = Some r \<and> is_string (jget r ''taskId'')"

definition claimed :: "owner_parser \<Rightarrow> string option \<Rightarrow> string option \<Rightarrow> jsval \<Rightarrow> bool" where
  "claimed parse rawOwner rawCounter r \<longleftrightarrow> storable r
     \<and> (\<exists>current. parse rawOwner = Ok current
        \<and> nextOwnerGenerationFromSnapshot rawCounter (case current of None \<Rightarrow> 0 | Some c \<Rightarrow> generation_of c) = Ok (generation_of r))"

inductive owner_step :: "owner_parser \<Rightarrow> owner_store \<Rightarrow> owner_store \<Rightarrow> bool" for parse where
  claim: "claimed parse (st_owner s) (st_counter s) r \<Longrightarrow>
    owner_step parse s (s\<lparr>st_owner := Some (stringify r), st_counter := Some (show_int (generation_of r)),
      st_claims := (generation_of r, jget r ''taskId'') # st_claims s\<rparr>)"
| renew: "st_owner s = Some raw \<Longrightarrow> parse (Some raw) = Ok (Some c) \<Longrightarrow> storable r \<Longrightarrow> ownerFenceMatches (Some r) (Some c) \<Longrightarrow>
    owner_step parse s (s\<lparr>st_owner := Some (stringify r)\<rparr>)"
| vanish: "owner_step parse s (s\<lparr>st_owner := None\<rparr>)"
| repair: "parseOwnerGenerationCounter (st_counter s) = Ok n \<Longrightarrow> n < g \<Longrightarrow> isSafeInt g \<Longrightarrow>
    owner_step parse s (s\<lparr>st_counter := Some (show_int g)\<rparr>)"

inductive_cases owner_stepE: "owner_step parse s s'"

definition fence_of :: "jsval \<Rightarrow> int \<times> jsval" where
  "fence_of r = (generation_of r, jget r ''taskId'')"

definition owner_inv :: "owner_store \<Rightarrow> bool" where
  "owner_inv s \<longleftrightarrow> (\<exists>n. parseOwnerGenerationCounter (st_counter s) = Ok n
       \<and> (\<forall>(g, t) \<in> set (st_claims s). g \<le> n) \<and> sorted_wrt (>) (map fst (st_claims s))
       \<and> (\<forall>raw. st_owner s = Some raw \<longrightarrow>
            (\<exists>r. parseOwnerRecord (Some raw) = Some r \<and> st_claims s \<noteq> [] \<and> hd (st_claims s) = fence_of r)))"

definition owner_start :: "owner_store \<Rightarrow> bool" where
  "owner_start s \<longleftrightarrow> st_owner s = None \<and> st_claims s = [] \<and> (\<exists>n. parseOwnerGenerationCounter (st_counter s) = Ok n)"

lemma fence_matches_iff:
  assumes "parseOwnerRecord raw = Some c" "parseOwnerRecord raw' = Some r"
  shows "ownerFenceMatches (Some r) (Some c) \<longleftrightarrow> is_string (jget r ''taskId'') \<and> fence_of r = fence_of c"
  using parsed_generation(1) [OF assms(1)] parsed_generation(1) [OF assms(2)]
  by (auto simp: ownerFenceMatches_def fence_of_def)

text \<open>What the protocol relies on of the parser of a registry.\<close>

locale owner_scope =
  fixes parse :: owner_parser
  assumes parse_None: "parse None = Ok None"
    and parse_Some: "parse (Some raw) = Ok (Some r) \<Longrightarrow> parseOwnerRecord (Some raw) = Some r"
begin

lemma parsed: "parse raw = Ok (Some r) \<Longrightarrow> parseOwnerRecord raw = Some r"
  using parse_None parse_Some by (cases raw) auto

lemma inv_start: "owner_start s \<Longrightarrow> owner_inv s"
  by (auto simp: owner_start_def owner_inv_def)

lemma claimed_generation:
  assumes "owner_inv s" "claimed parse (st_owner s) (st_counter s) r"
  shows "\<forall>(g, t) \<in> set (st_claims s). g < generation_of r"
    "parseOwnerGenerationCounter (Some (show_int (generation_of r))) = Ok (generation_of r)"
proof -
  from assms(2) obtain current where c: "storable r"
    "nextOwnerGenerationFromSnapshot (st_counter s) (case current of None \<Rightarrow> 0 | Some c \<Rightarrow> generation_of c) = Ok (generation_of r)"
    by (auto simp: claimed_def)
  from c(2) obtain n where n: "parseOwnerGenerationCounter (st_counter s) = Ok n" "n < generation_of r"
    by (rule next_generation_range) auto
  with assms(1) show "\<forall>(g, t) \<in> set (st_claims s). g < generation_of r" by (force simp: owner_inv_def)
  from c(2) have "0 < generation_of r" "isSafeInt (generation_of r)" by (rule next_generation_range, simp)+
  then show "parseOwnerGenerationCounter (Some (show_int (generation_of r))) = Ok (generation_of r)"
    by (simp add: parse_counter_show)
qed

lemma step_inv: "owner_step parse s s' \<Longrightarrow> owner_inv s \<Longrightarrow> owner_inv s'"
proof (induction rule: owner_step.induct)
  case (claim s r)
  note g = claimed_generation [OF claim(2,1)]
  have "parseOwnerRecord (Some (stringify r)) = Some r" using claim(1) by (simp add: claimed_def storable_def)
  moreover have "sorted_wrt (>) (map fst (st_claims s))" using claim(2) by (auto simp: owner_inv_def)
  ultimately show ?case using g by (force simp: owner_inv_def fence_of_def)
next
  case (renew s raw c r)
  have r: "parseOwnerRecord (Some (stringify r)) = Some r" using renew(3) by (simp add: storable_def)
  with renew(4) fence_matches_iff [OF parse_Some [OF renew(2)] r] have "fence_of r = fence_of c" by simp
  with renew(1,5) parse_Some [OF renew(2)] r show ?case by (fastforce simp: owner_inv_def)
next
  case (vanish s)
  then show ?case by (auto simp: owner_inv_def)
next
  case (repair s n g)
  have "0 \<le> n" using repair(1) by (auto dest: parse_counter_range)
  with repair(2,3) have "parseOwnerGenerationCounter (Some (show_int g)) = Ok g" by (simp add: parse_counter_show)
  with repair(1,2,4) show ?case by (fastforce simp: owner_inv_def)
qed

theorem fencing:
  assumes "owner_start s0" "(owner_step parse)\<^sup>*\<^sup>* s0 s"
  shows "distinct (map fst (st_claims s)) \<and> sorted_wrt (>) (map fst (st_claims s))
    \<and> (\<forall>raw r. st_owner s = Some raw \<longrightarrow> parse (Some raw) = Ok (Some r) \<longrightarrow> hd (st_claims s) = fence_of r)"
proof -
  from assms(2) inv_start [OF assms(1)] have "owner_inv s" by (induction rule: rtranclp_induct) (auto intro: step_inv)
  moreover have "sorted_wrt (>) xs \<Longrightarrow> distinct xs" for xs :: "int list" by (induction xs) auto
  ultimately show ?thesis using parse_Some by (fastforce simp: owner_inv_def)
qed

end

end
