(* ===== verification/Redis_Watch.thy ===== *)
theory Redis_Watch
  imports Redis_Commands
begin

text \<open>
  What a transaction may rely on. A session that watches keys and then reads them holds values
  that are current when its transaction commits, because Redis aborts the transaction otherwise.
  The view of a trace is what the session knows at a point: the watched keys and the values read
  since. \<open>guarded P\<close> says that every transaction of a trace satisfies \<open>P\<close> under the view it was
  sent with; \<open>guards P\<close> says it of every trace of a program, from any view. The rules
  \<open>guards_intros\<close> follow the structure of a program, so a program is checked by applying them
  down to the bodies that send a transaction.
\<close>

lemma outcome_pipeline_Ok:
  "commands \<noteq> [] \<Longrightarrow> outcome (execPipeline commands) tr (Ok rs) \<longleftrightarrow> tr = [(Pipeline commands, Many rs)] \<and> length rs = length commands"
proof -
  assume "commands \<noteq> []"
  moreover have "outcome (case a of Many rs \<Rightarrow> if length rs = length commands then io_return rs else io_throw JsError
          | Failed e \<Rightarrow> io_throw e | _ \<Rightarrow> io_throw JsError) t (Ok rs) \<longleftrightarrow> t = [] \<and> a = Many rs \<and> length rs = length commands" for a t
    by (cases a) auto
  ultimately show ?thesis by (auto simp: execPipeline_def outcome_Ask)
qed

lemma outcome_exec_Ok: "outcome (exec args) tr (Ok a) \<longleftrightarrow> tr = [(Command args, a)] \<and> (\<forall>e. a \<noteq> Failed e)"
  by (simp add: exec_def outcome_ask_Ok)

named_theorems guards_intros \<open>structural rules for guarded programs\<close>

record view =
  v_watched :: "string list"
  v_reads :: "(string \<times> string option) list"

definition blind :: view where
  "blind = \<lparr>v_watched = [], v_reads = []\<rparr>"

fun read_of :: "cmd \<Rightarrow> reply \<Rightarrow> (string \<times> string option) list" where
  "read_of [c, k] a = (if c = ''GET'' then [(k, decodeBulk a)] else [])"
| "read_of _ a = []"

fun reads_of :: "req \<Rightarrow> reply \<Rightarrow> (string \<times> string option) list" where
  "reads_of (Command c) a = read_of c a"
| "reads_of (Pipeline cs) (Many rs) = concat (map (\<lambda>(c, a). read_of c a) (zip cs rs))"
| "reads_of _ _ = []"

fun view_after :: "view \<Rightarrow> req \<times> reply \<Rightarrow> view" where
  "view_after v (Transaction cmds, a) = blind"
| "view_after v (Command (c # ks), a) =
     (if c = ''WATCH'' then \<lparr>v_watched = ks, v_reads = []\<rparr>
      else if c = ''UNWATCH'' then blind
      else v\<lparr>v_reads := reads_of (Command (c # ks)) a @ v_reads v\<rparr>)"
| "view_after v (q, a) = v\<lparr>v_reads := reads_of q a @ v_reads v\<rparr>"

definition seen :: "view \<Rightarrow> string \<Rightarrow> string option option" where
  "seen v k = (if k \<in> set (v_watched v) then map_of (v_reads v) k else None)"

fun guarded :: "(view \<Rightarrow> cmd list \<Rightarrow> bool) \<Rightarrow> view \<Rightarrow> (req \<times> reply) list \<Rightarrow> bool" where
  "guarded P v [] = True"
| "guarded P v ((q, a) # tr) =
     ((case q of Transaction cmds \<Rightarrow> P v cmds | _ \<Rightarrow> True) \<and> guarded P (view_after v (q, a)) tr)"

lemma guarded_append: "guarded P v (t1 @ t2) \<longleftrightarrow> guarded P v t1 \<and> guarded P (foldl view_after v t1) t2"
  by (induction P v t1 rule: guarded.induct) auto

definition guards :: "(view \<Rightarrow> cmd list \<Rightarrow> bool) \<Rightarrow> 'a io \<Rightarrow> bool" where
  "guards P p \<longleftrightarrow> (\<forall>v. always p (\<lambda>tr r. guarded P v tr))"

lemma guards_Done [guards_intros]: "guards P (Done r)"
  by (simp add: guards_def)

lemma guards_Spin [guards_intros]: "guards P Spin"
  by (simp add: guards_def)

lemma guards_Ask:
  assumes "\<And>cmds. q \<noteq> Transaction cmds" "\<And>a. guards P (k a)"
  shows "guards P (Ask q k)"
  using assms by (auto simp: guards_def split: req.split)

lemma guards_try [guards_intros]:
  assumes "guards P m" "\<And>x. guards P (f x)"
  shows "guards P (io_try m f)"
  using assms unfolding guards_def always_try by (fastforce simp: always_def guarded_append)

lemma guards_bind [guards_intros]: "guards P m \<Longrightarrow> (\<And>x. guards P (f x)) \<Longrightarrow> guards P (io_bind m f)"
  unfolding io_bind_def by (rule guards_try) (auto intro: guards_Done split: sum.split)

lemma guards_lift: "(\<And>x. r = Ok x \<Longrightarrow> guards P (f x)) \<Longrightarrow> guards P (io_bind (io_lift r) f)"
  by (cases r) (auto simp: guards_def)

text \<open>What a program returns when it returns.\<close>

definition returns :: "'a io \<Rightarrow> ('a \<Rightarrow> bool) \<Rightarrow> bool" where
  "returns p Q \<longleftrightarrow> (\<forall>tr x. outcome p tr (Ok x) \<longrightarrow> Q x)"

lemma returns_Done [simp]: "returns (Done r) Q \<longleftrightarrow> (\<forall>x. r = Ok x \<longrightarrow> Q x)"
  by (auto simp: returns_def)

lemma returns_bind: "returns m Q \<Longrightarrow> (\<And>x. Q x \<Longrightarrow> returns (f x) R) \<Longrightarrow> returns (io_bind m f) R"
  unfolding returns_def outcome_bind_Ok by blast

lemma returns_anything: "returns p (\<lambda>_. True)"
  by (simp add: returns_def)

named_theorems returns_intros \<open>structural rules for what a program returns\<close>

lemma returns_then [returns_intros]: "(\<And>x. returns (f x) R) \<Longrightarrow> returns (io_bind m f) R"
  by (rule returns_bind [OF returns_anything])

lemma returns_lift: "(\<And>x. r = Ok x \<Longrightarrow> returns (f x) R) \<Longrightarrow> returns (io_bind (io_lift r) f) R"
  by (rule returns_bind [where Q = "\<lambda>x. r = Ok x"]) auto

lemma returns_if [returns_intros]: "(b \<Longrightarrow> returns p R) \<Longrightarrow> (\<not> b \<Longrightarrow> returns q R) \<Longrightarrow> returns (if b then p else q) R"
  by simp

lemma returns_option [returns_intros]:
  "(x = None \<Longrightarrow> returns p R) \<Longrightarrow> (\<And>y. x = Some y \<Longrightarrow> returns (f y) R) \<Longrightarrow> returns (case x of None \<Rightarrow> p | Some y \<Rightarrow> f y) R"
  by (cases x) auto

lemma returns_prod [returns_intros]: "(\<And>a b. x = (a, b) \<Longrightarrow> returns (f a b) R) \<Longrightarrow> returns (case x of (a, b) \<Rightarrow> f a b) R"
  by (cases x) auto

lemma guards_bind_returns:
  assumes "guards P m" "returns m Q" "\<And>x. Q x \<Longrightarrow> guards P (f x)"
  shows "guards P (io_bind m f)"
  unfolding guards_def always_def
proof (intro allI impI)
  fix v tr r
  assume "outcome (io_bind m f) tr r"
  then consider e where "r = Throw e" "outcome m tr (Throw e)"
    | t1 t2 x where "tr = t1 @ t2" "outcome m t1 (Ok x)" "outcome (f x) t2 r"
    unfolding io_bind_def outcome_try_iff split_sum_ex by auto
  then show "guarded P v tr"
  proof cases
    case 1
    with assms(1) show ?thesis by (auto simp: guards_def always_def)
  next
    case 2
    with assms(2) have "Q x" by (auto simp: returns_def)
    with 2 assms(1) assms(3) [OF this] show ?thesis unfolding guards_def always_def by (metis guarded_append)
  qed
qed

lemma guards_catch [guards_intros]: "guards P m \<Longrightarrow> (\<And>e. guards P (h e)) \<Longrightarrow> guards P (io_catch m h)"
  unfolding io_catch_def by (rule guards_try) (auto intro: guards_Done split: sum.split)

lemma guards_if [guards_intros]: "(b \<Longrightarrow> guards P p) \<Longrightarrow> (\<not> b \<Longrightarrow> guards P q) \<Longrightarrow> guards P (if b then p else q)"
  by simp

lemma guards_option [guards_intros]:
  "(x = None \<Longrightarrow> guards P p) \<Longrightarrow> (\<And>y. x = Some y \<Longrightarrow> guards P (f y)) \<Longrightarrow> guards P (case x of None \<Rightarrow> p | Some y \<Rightarrow> f y)"
  by (cases x) auto

lemma guards_prod [guards_intros]: "(\<And>a b. x = (a, b) \<Longrightarrow> guards P (f a b)) \<Longrightarrow> guards P (case x of (a, b) \<Rightarrow> f a b)"
  by (cases x) auto

lemma guards_ask: "(\<And>cmds. q \<noteq> Transaction cmds) \<Longrightarrow> guards P (ask q)"
  unfolding ask_def by (rule guards_Ask) (auto intro: guards_Done split: reply.split)

lemma guards_exec [guards_intros]: "guards P (exec args)"
  unfolding exec_def by (rule guards_ask) simp

lemma guards_pipeline [guards_intros]: "guards P (execPipeline commands)"
  unfolding execPipeline_def by (auto intro!: guards_Done guards_Ask split: reply.split)

lemma guards_reads [guards_intros]:
  "guards P redis_time" "guards P (redis_get k)" "guards P (getMany ks)" "guards P (getManyWithTime ks)"
  "guards P (getWithTime k)" "guards P (watch ks)" "guards P unwatch" "guards P (redis_set k s opts)"
  unfolding redis_time_def redis_get_def getMany_def getManyWithTime_def getWithTime_def watch_def unwatch_def redis_set_def
  by (auto intro!: guards_intros)

lemma guards_retries [guards_intros]:
  assumes "\<And>i. guards P (operation i)" "guards P onExhausted"
  shows "guards P (withOptimisticRetries operation attempts retryable again onExhausted attempt)"
proof (induction "attempts - attempt" arbitrary: attempt)
  case 0
  with assms(2) show ?case by (simp add: withOptimisticRetries.simps)
next
  case (Suc n)
  then have "guards P (withOptimisticRetries operation attempts retryable again onExhausted (attempt + 1))" by simp
  with assms show ?case
    by (subst withOptimisticRetries.simps) (auto simp: Let_def intro!: guards_try guards_Done split: sum.split)
qed

lemma guards_local [guards_intros]: "guards P (local_call f args)"
  unfolding local_call_def by (rule guards_Ask) (auto intro: guards_Done split: reply.split)

section \<open>Sessions that have read watched keys\<close>

definition guards_seeing :: "(view \<Rightarrow> cmd list \<Rightarrow> bool) \<Rightarrow> (string \<times> string option) list \<Rightarrow> 'a io \<Rightarrow> bool" where
  "guards_seeing P S p \<longleftrightarrow> (\<forall>v. (\<forall>(k, x) \<in> set S. seen v k = Some x) \<longrightarrow> always p (\<lambda>tr r. guarded P v tr))"

lemma guards_seeingI: "guards P p \<Longrightarrow> guards_seeing P S p"
  by (simp add: guards_def guards_seeing_def)

lemma seeing_if: "(b \<Longrightarrow> guards_seeing P S p) \<Longrightarrow> (\<not> b \<Longrightarrow> guards_seeing P S q) \<Longrightarrow> guards_seeing P S (if b then p else q)"
  by simp

lemma seeing_lift:
  assumes "\<And>x. r = Ok x \<Longrightarrow> guards_seeing P S (f x)"
  shows "guards_seeing P S (io_bind (io_lift r) f)"
  using assms by (cases r) (auto simp: guards_seeing_def)

lemma seeing_local:
  assumes "\<And>x. guards_seeing P S (f x)"
  shows "guards_seeing P S (io_bind (local_call g args) f)"
proof -
  have "view_after v (Local g args, a) = v" for v a by simp
  with assms show ?thesis by (auto simp: guards_seeing_def local_call_def split: reply.split)
qed

lemma seeing_exec:
  assumes "\<And>v. (\<forall>(k, x) \<in> set S. seen v k = Some x) \<Longrightarrow> P v cmds" "\<And>r. guards P (f r)"
  shows "guards_seeing P S (io_bind (multi_exec cmds) f)"
  using assms by (auto simp: guards_seeing_def guards_def multi_exec_def ask_def split: reply.split)

end
