(* ===== verification/Owner_Writes.thy ===== *)
theory Owner_Writes
  imports Owner_Protocol Redis_Watch
begin

text \<open>
  The writes a registry may commit on the two keys of a resource, judged by what its session has
  read under watch (\<open>owner_write\<close>), and what they do: on a store that still holds the values the
  session has read, which the watch guarantees, a committed write is a sequence of steps of the
  ownership protocol (\<open>owner_step\<close>).
\<close>

section \<open>Writes\<close>

definition claim_write :: "owner_parser \<Rightarrow> owner_keys \<Rightarrow> string option \<Rightarrow> string option \<Rightarrow> cmd list \<Rightarrow> bool" where
  "claim_write parse keys rawOwner rawCounter cmds \<longleftrightarrow>
     (\<exists>r ttl. claimed parse rawOwner rawCounter r \<and> stageOwnerClaim keys r ttl [] = Ok cmds)"

text \<open>Raising the counter of a resource to a generation above it.\<close>

definition raise_write :: "owner_keys \<Rightarrow> string option \<Rightarrow> int \<Rightarrow> cmd list \<Rightarrow> bool" where
  "raise_write keys rawCounter g cmds \<longleftrightarrow> isSafeInt g
     \<and> (\<exists>n. parseOwnerGenerationCounter rawCounter = Ok n \<and> n < g) \<and> cmds = [[''SET'', generationKey keys, show_int g]]"

text \<open>Extending the lease of the record that was read, under the same fence.\<close>

definition renew_write :: "owner_parser \<Rightarrow> owner_keys \<Rightarrow> string option \<Rightarrow> cmd list \<Rightarrow> bool" where
  "renew_write parse keys rawOwner cmds \<longleftrightarrow>
     (\<exists>c r ttl. parse rawOwner = Ok (Some c) \<and> storable r \<and> ownerFenceMatches (Some r) (Some c)
        \<and> stageOwnerRenew (ownerKey keys) r ttl [] = Ok cmds)"

definition owner_write :: "owner_parser \<Rightarrow> owner_keys \<Rightarrow> view \<Rightarrow> cmd list \<Rightarrow> bool" where
  "owner_write parse keys v cmds \<longleftrightarrow>
     (\<exists>rawCounter g. seen v (generationKey keys) = Some rawCounter \<and> raise_write keys rawCounter g cmds)
     \<or> (\<exists>rawOwner rawCounter. seen v (ownerKey keys) = Some rawOwner \<and> seen v (generationKey keys) = Some rawCounter
        \<and> (claim_write parse keys rawOwner rawCounter cmds
           \<or> cmds = [[''DEL'', ownerKey keys]] \<and> (\<exists>c. parse rawOwner = Ok (Some c))
           \<or> renew_write parse keys rawOwner cmds
           \<or> (\<exists>g raise renew. raise_write keys rawCounter g raise \<and> renew_write parse keys rawOwner renew \<and> cmds = raise @ renew)))"

section \<open>Sessions\<close>

lemma reads_of_gets:
  "length rs = length ks \<Longrightarrow> reads_of (Pipeline (map (\<lambda>k. [''GET'', k]) ks @ [[''TIME'']])) (Many (rs @ [t])) = zip ks (map decodeBulk rs)"
  by (induction rs ks rule: list_induct2) auto

lemma map_of_seen:
  assumes "distinct ks" "length vals = length ks"
  shows "\<forall>(k, x) \<in> set (zip ks vals). seen \<lparr>v_watched = ks, v_reads = zip ks vals\<rparr> k = Some x"
  using assms by (auto simp: seen_def dest: set_zip_leftD)

lemma guards_bind_view:
  assumes "guards P m" "\<And>v tr x. outcome m tr (Ok x) \<Longrightarrow> always (f x) (\<lambda>tr' r. guarded P (foldl view_after v tr) tr')"
  shows "guards P (io_bind m f)"
  unfolding guards_def always_bind
proof
  fix v
  have "always m (\<lambda>tr r. guarded P v tr)" using assms(1) by (simp add: guards_def)
  then show "always m (\<lambda>t x. case x of Inl e \<Rightarrow> guarded P v t | Inr y \<Rightarrow> always (f y) (\<lambda>t' r. guarded P v (t @ t')))"
  proof (rule always_mono)
    fix tr r
    assume "outcome m tr r" "guarded P v tr"
    then show "case r of Inl e \<Rightarrow> guarded P v tr | Inr y \<Rightarrow> always (f y) (\<lambda>t' r. guarded P v (tr @ t'))"
      using assms(2) [of tr _ v] by (cases r) (auto simp: guarded_append)
  qed
qed

lemma snapshot_outcome:
  assumes "outcome (readOwnerSnapshotWithRedisTime k gs parse) tr (Ok (owner, raw, vals, now))"
  obtains rs t where "tr = [(Pipeline (map (\<lambda>k. [''GET'', k]) (k # gs) @ [[''TIME'']]), Many (rs @ [t]))]"
    "map decodeBulk rs = raw # vals" "length vals = length gs" "parse raw = Ok owner" "decodeRedisTimeMs t = Ok now"
proof -
  from assms obtain t1 t2 vs now' where t: "tr = t1 @ t2" "outcome (getManyWithTime (k # gs)) t1 (Ok (vs, now'))"
      "outcome (io_bind (io_lift (parseTimedOwnerRead (vs ! 0) now' parse)) (\<lambda>(owner, rawOwner, nowMs). io_return (owner, rawOwner, drop 1 vs, nowMs)))
        t2 (Ok (owner, raw, vals, now))"
    unfolding readOwnerSnapshotWithRedisTime_def outcome_bind_Ok [of "getManyWithTime _"] by auto
  from t(3) have rest: "t2 = []" "raw = vs ! 0" "now' = now" "parse raw = Ok owner" "vals = drop 1 vs"
    by (auto simp: outcome_bind_Ok parseTimedOwnerRead_def bind_result_eq_Inr split: if_split_asm dest!: sym [of "Inr _"])
  from t(2) obtain rs where rs: "t1 = [(Pipeline (map (\<lambda>k. [''GET'', k]) (k # gs) @ [[''TIME'']]), Many rs)]" "length rs = Suc (Suc (length gs))"
      "decodeRedisTimeMs (last rs) = Ok now'" "vs = map decodeBulk (butlast rs)"
    by (auto simp: getManyWithTime_def outcome_bind_Ok outcome_pipeline_Ok dest!: sym [of "Inr _"])
  then have "rs = butlast rs @ [last rs]" by (metis append_butlast_last_id list.size(3) nat.distinct(1))
  moreover have "length vs = Suc (length gs)" using rs by simp
  then have "vs = vs ! 0 # drop 1 vs" by (cases vs) auto
  then have "map decodeBulk (butlast rs) = raw # vals" using rs(4) rest by metis
  moreover have "length vals = length gs" using rs rest by simp
  ultimately show thesis using that [of "butlast rs" "last rs"] t(1) rs rest by simp
qed

lemma guards_snapshot [guards_intros]: "guards P (readOwnerSnapshotWithRedisTime k gs parse)"
  unfolding readOwnerSnapshotWithRedisTime_def by (intro guards_intros)

lemma snapshot_seeing:
  assumes "distinct (k # gs)"
    and "\<And>raw vals owner now. parse raw = Ok owner \<Longrightarrow> length vals = length gs \<Longrightarrow>
      guards_seeing P (zip (k # gs) (raw # vals)) (cont (owner, raw, vals, now))"
  shows "guards P (io_then (watch (k # gs)) (io_bind (readOwnerSnapshotWithRedisTime k gs parse) cont))"
proof -
  have read: "guards P (io_bind (watch (k # gs)) (\<lambda>_. readOwnerSnapshotWithRedisTime k gs parse))"
    by (intro guards_intros)
  have "guards P (io_bind (io_bind (watch (k # gs)) (\<lambda>_. readOwnerSnapshotWithRedisTime k gs parse)) cont)"
  proof (rule guards_bind_view [OF read], goal_cases)
    case (1 v tr x)
    obtain owner raw vals now where x: "x = (owner, raw, vals, now)" by (cases x)
    from 1 obtain t1 t2 a where t: "tr = t1 @ t2" "t1 = [(Command (''WATCH'' # k # gs), a)]"
        "outcome (readOwnerSnapshotWithRedisTime k gs parse) t2 (Ok (owner, raw, vals, now))"
      by (auto simp: outcome_bind_Ok watch_def outcome_exec_Ok x)
    from t(3) obtain rs t' where r: "t2 = [(Pipeline (map (\<lambda>k. [''GET'', k]) (k # gs) @ [[''TIME'']]), Many (rs @ [t']))]"
        "map decodeBulk rs = raw # vals" "length vals = length gs" "parse raw = Ok owner" by (rule snapshot_outcome)
    have "length rs = length (k # gs)" using r(2,3) by (metis length_Cons length_map)
    then have "foldl view_after v tr = \<lparr>v_watched = k # gs, v_reads = zip (k # gs) (raw # vals)\<rparr>"
      unfolding t r(1) using reads_of_gets [of rs "k # gs" t'] r(2) by simp
    with assms(2) [OF r(4,3)] map_of_seen [OF assms(1), of "raw # vals"] r(3) show ?case
      by (simp add: guards_seeing_def x)
  qed
  then show ?thesis by (simp add: io_bind_assoc)
qed

section \<open>Refinement\<close>

text \<open>The string keys of a Redis database, and the commands of the writes on them.\<close>

type_synonym database = "string \<Rightarrow> string option"

fun exec_cmd :: "cmd \<Rightarrow> database \<Rightarrow> database" where
  "exec_cmd [c, k] m = (if c = ''DEL'' then m(k := None) else m)"
| "exec_cmd (c # k # v # opts) m = (if c = ''SET'' then m(k \<mapsto> v) else m)"
| "exec_cmd _ m = m"

definition exec_cmds :: "cmd list \<Rightarrow> database \<Rightarrow> database" where
  "exec_cmds cmds m = foldl (\<lambda>m c. exec_cmd c m) m cmds"

definition store_of :: "owner_keys \<Rightarrow> database \<Rightarrow> (int \<times> jsval) list \<Rightarrow> owner_store" where
  "store_of keys m claims = \<lparr>st_owner = m (ownerKey keys), st_counter = m (generationKey keys), st_claims = claims\<rparr>"

text \<open>The values a session has seen are those of the database.\<close>

definition agrees_with :: "view \<Rightarrow> database \<Rightarrow> bool" where
  "agrees_with v m \<longleftrightarrow> (\<forall>k x. seen v k = Some x \<longrightarrow> m k = x)"

lemma staged_claim:
  "stageOwnerClaim keys r ttl [] = Ok cmds \<Longrightarrow>
   \<exists>t. cmds = [[''SET'', generationKey keys, show_int (generation_of r)], [''SET'', ownerKey keys, stringify r, ''EX'', t]]"
  by (auto simp: stageOwnerClaim_def multi_set_def buildSetArgs_def no_options_def bind_result_eq_Inr)

lemma staged_renew:
  "stageOwnerRenew key r ttl [] = Ok cmds \<Longrightarrow> \<exists>t. cmds = [[''SET'', key, stringify r, ''EX'', t]]"
  by (auto simp: stageOwnerRenew_def multi_set_def buildSetArgs_def no_options_def bind_result_eq_Inr)

context owner_scope
begin

lemma claim_refines:
  assumes "ownerKey keys \<noteq> generationKey keys" "claim_write parse keys (m (ownerKey keys)) (m (generationKey keys)) cmds"
  shows "\<exists>claims'. owner_step parse (store_of keys m claims) (store_of keys (exec_cmds cmds m) claims')"
proof -
  from assms(2) obtain r ttl where r: "claimed parse (m (ownerKey keys)) (m (generationKey keys)) r" "stageOwnerClaim keys r ttl [] = Ok cmds"
    by (auto simp: claim_write_def)
  from staged_claim [OF r(2)] owner_step.claim [of parse "store_of keys m claims" r] r(1) assms(1) show ?thesis
    by (auto simp: store_of_def exec_cmds_def)
qed

lemma raise_refines:
  assumes "ownerKey keys \<noteq> generationKey keys" "raise_write keys (m (generationKey keys)) g cmds"
  shows "owner_step parse (store_of keys m claims) (store_of keys (exec_cmds cmds m) claims)"
  using assms owner_step.repair [of "store_of keys m claims" _ g parse] by (auto simp: raise_write_def store_of_def exec_cmds_def)

lemma renew_refines:
  assumes "ownerKey keys \<noteq> generationKey keys" "renew_write parse keys (m (ownerKey keys)) cmds"
  shows "owner_step parse (store_of keys m claims) (store_of keys (exec_cmds cmds m) claims)"
proof -
  from assms(2) obtain c r ttl where r: "parse (m (ownerKey keys)) = Ok (Some c)" "storable r" "ownerFenceMatches (Some r) (Some c)"
      "stageOwnerRenew (ownerKey keys) r ttl [] = Ok cmds"
    by (auto simp: renew_write_def)
  from r(1) obtain raw where "m (ownerKey keys) = Some raw" by (cases "m (ownerKey keys)") (auto simp: parse_None)
  with staged_renew [OF r(4)] owner_step.renew [of "store_of keys m claims" raw parse c r] r assms(1) show ?thesis
    by (auto simp: store_of_def exec_cmds_def)
qed

lemma exec_raise: "raise_write keys n g cmds \<Longrightarrow> ownerKey keys \<noteq> generationKey keys \<Longrightarrow> exec_cmds cmds m (ownerKey keys) = m (ownerKey keys)"
  by (auto simp: raise_write_def exec_cmds_def)

lemma write_refines:
  assumes "ownerKey keys \<noteq> generationKey keys" "owner_write parse keys v cmds" "agrees_with v m"
  shows "\<exists>claims'. (owner_step parse)\<^sup>*\<^sup>* (store_of keys m claims) (store_of keys (exec_cmds cmds m) claims')"
proof -
  have m: "m k = x" if "seen v k = Some x" for k x using assms(3) that by (simp add: agrees_with_def)
  from assms(2) consider g where "raise_write keys (m (generationKey keys)) g cmds"
    | "claim_write parse keys (m (ownerKey keys)) (m (generationKey keys)) cmds"
    | "cmds = [[''DEL'', ownerKey keys]]"
    | "renew_write parse keys (m (ownerKey keys)) cmds"
    | g raise renew where "raise_write keys (m (generationKey keys)) g raise" "renew_write parse keys (m (ownerKey keys)) renew" "cmds = raise @ renew"
    unfolding owner_write_def using m by metis
  then show ?thesis
  proof cases
    case 1
    then show ?thesis using raise_refines [OF assms(1)] by blast
  next
    case 2
    then show ?thesis using claim_refines [OF assms(1)] by blast
  next
    case 3
    then show ?thesis
      using owner_step.vanish [of parse "store_of keys m claims"] assms(1) by (auto simp: store_of_def exec_cmds_def)
  next
    case 4
    then show ?thesis using renew_refines [OF assms(1)] by blast
  next
    case (5 g raise renew)
    have "exec_cmds cmds m = exec_cmds renew (exec_cmds raise m)" by (simp add: 5 exec_cmds_def)
    moreover have "renew_write parse keys (exec_cmds raise m (ownerKey keys)) renew" using 5 exec_raise [OF 5(1) assms(1)] by simp
    ultimately show ?thesis
      using raise_refines [OF assms(1), of m g raise claims] 5(1) renew_refines [OF assms(1), of "exec_cmds raise m" renew claims]
      by (metis r_into_rtranclp rtranclp.rtrancl_into_rtrancl)
  qed
qed

end

end
