(* ===== verification/Owner_Endpoint.thy ===== *)
theory Owner_Endpoint
  imports Wdl_Regex
begin

text \<open>
  The endpoints owner records may point at, \<open>shared/owner-endpoint.js\<close>. A stored endpoint is
  the target of forwarded requests, so only names of the owner's service and private addresses
  pass. The URL parser of the platform is a parameter; what the properties use of it is the
  composition of \<open>host\<close> from \<open>hostname\<close> and \<open>port\<close> in the URL standard.
\<close>

record url_parts =
  u_host :: string
  u_username :: string
  u_password :: string
  u_pathname :: string
  u_search :: string
  u_hash :: string
  u_port :: string
  u_hostname :: string

type_synonym url_parser = "string \<Rightarrow> url_parts option"

definition service_suffix :: rx where
  "service_suffix = ROpt (RSeq (RCh CHR ''-'') (RPlus (Cls [(CHR ''a'', CHR ''z''), (CHR ''0'', CHR ''9''), (CHR ''-'', CHR ''-'')])))"

definition OWNER_ENDPOINT_SERVICE_RE :: "string \<Rightarrow> rx option" where
  "OWNER_ENDPOINT_SERVICE_RE serviceName =
     (if serviceName = ''d1-runtime'' then Some (RSeq (RLit ''d1-runtime'') service_suffix)
      else if serviceName = ''do-runtime'' then Some (RSeq (RLit ''do-runtime'') service_suffix)
      else None)"

definition headless_rx :: "string \<Rightarrow> string \<Rightarrow> rx" where
  "headless_rx pod svc =
     RSeq (RLit pod) (RSeq (RPlus (Cls [(CHR ''0'', CHR ''9'')])) (RSeq (RLit svc)
       (ROpt (RSeq (RCh CHR ''.'') (RSeq (RPlus (Cls [(CHR ''a'', CHR ''z''), (CHR ''0'', CHR ''9''), (CHR ''-'', CHR ''-'')]))
         (RSeq (RLit ''.svc'') (ROpt (RLit ''.cluster.local''))))))))"

definition OWNER_ENDPOINT_HEADLESS_RE :: "string \<Rightarrow> rx option" where
  "OWNER_ENDPOINT_HEADLESS_RE serviceName =
     (if serviceName = ''d1-runtime'' then Some (headless_rx ''d1-runtime-'' ''.d1-runtime-headless'')
      else if serviceName = ''do-runtime'' then Some (headless_rx ''do-runtime-'' ''.do-runtime-headless'')
      else None)"

text \<open>\<open>/[/?#@[\]\\]/\<close>, a search without anchors.\<close>

definition INVALID_OWNER_ENDPOINT_RE :: "char list" where
  "INVALID_OWNER_ENDPOINT_RE = [CHR ''/'', CHR ''?'', CHR ''#'', CHR 0x40, CHR ''['', CHR '']'', CHR 0x5C]"

definition IPV4_OCTET_RE :: rx where
  "IPV4_OCTET_RE = RAlt (RCh CHR ''0'') (RSeq (Cls [(CHR ''1'', CHR ''9'')]) (RRep 0 2 (Cls [(CHR ''0'', CHR ''9'')])))"

fun ipv4_octets :: "string list \<Rightarrow> nat list option" where
  "ipv4_octets [] = Some []"
| "ipv4_octets (part # parts) =
     (if \<not> rx_test IPV4_OCTET_RE part then None
      else if digits_val part > 255 then None
      else map_option (Cons (digits_val part)) (ipv4_octets parts))"

definition acceptablePrivateIpv4 :: "string \<Rightarrow> bool" where
  "acceptablePrivateIpv4 hostname =
     (let parts = split_char CHR ''.'' hostname in
      if length parts \<noteq> 4 then False
      else
        (case ipv4_octets parts of
           None \<Rightarrow> False
         | Some octets \<Rightarrow>
             let a = octets ! 0; b = octets ! 1 in
             a = 10 \<or> (a = 100 \<and> b \<ge> 64 \<and> b \<le> 127) \<or> (a = 172 \<and> b \<ge> 16 \<and> b \<le> 31) \<or> (a = 192 \<and> b = 168)))"

definition validOwnerEndpointForService :: "url_parser \<Rightarrow> jsval \<Rightarrow> int \<Rightarrow> string \<Rightarrow> bool result" where
  "validOwnerEndpointForService parse_url endpoint port serviceName =
     (if \<not> is_string endpoint \<or> str_of endpoint = [] then Ok False
      else
        (case OWNER_ENDPOINT_SERVICE_RE serviceName of
           None \<Rightarrow> Throw JsError
         | Some serviceRe \<Rightarrow>
             if \<exists>c \<in> set (str_of endpoint). c \<in> set INVALID_OWNER_ENDPOINT_RE then Ok False
             else
               (case parse_url (''http://'' @ str_of endpoint) of
                  None \<Rightarrow> Ok False
                | Some url \<Rightarrow>
                    if u_host url \<noteq> str_of endpoint \<or> u_username url \<noteq> [] \<or> u_password url \<noteq> []
                       \<or> u_pathname url \<noteq> ''/'' \<or> u_search url \<noteq> [] \<or> u_hash url \<noteq> []
                    then Ok False
                    else if u_port url \<noteq> show_int port then Ok False
                    else Ok (rx_test serviceRe (u_hostname url)
                      \<or> (case OWNER_ENDPOINT_HEADLESS_RE serviceName of None \<Rightarrow> False | Some re \<Rightarrow> rx_test re (u_hostname url))
                      \<or> acceptablePrivateIpv4 (u_hostname url)))))"

section \<open>What passes\<close>

text \<open>The host of a URL: the host name, followed by the port if there is one.\<close>

definition url_hosts :: "url_parser \<Rightarrow> bool" where
  "url_hosts parse_url \<longleftrightarrow> (\<forall>s u. parse_url s = Some u \<longrightarrow>
     u_host u = u_hostname u @ (if u_port u = [] then [] else CHR '':'' # u_port u))"

definition private_ipv4 :: "string \<Rightarrow> bool" where
  "private_ipv4 h \<longleftrightarrow> (\<exists>a b c d. h = show_nat a @ ''.'' @ show_nat b @ ''.'' @ show_nat c @ ''.'' @ show_nat d
     \<and> c \<le> 255 \<and> d \<le> 255
     \<and> (a = 10 \<and> b \<le> 255 \<or> a = 100 \<and> 64 \<le> b \<and> b \<le> 127 \<or> a = 172 \<and> 16 \<le> b \<and> b \<le> 31 \<or> a = 192 \<and> b = 168))"

lemma rx_test_ch: "rx_test (RCh c) w \<longleftrightarrow> w = [c]"
  by (auto simp: rx_test_iff RCh_def)

lemma octet_show: "rx_test IPV4_OCTET_RE s \<Longrightarrow> show_nat (digits_val s) = s"
proof -
  assume "rx_test IPV4_OCTET_RE s"
  then consider "s = ''0''" | "s \<noteq> []" "in_cls [(CHR ''1'', CHR ''9'')] (hd s)" "\<forall>c \<in> set (tl s). in_cls [(CHR ''0'', CHR ''9'')] c"
    unfolding IPV4_OCTET_RE_def rx_test_alt rx_test_seq_cls rx_test_rep_cls rx_test_ch
    by (cases s) auto
  then show ?thesis
  proof cases
    case 1
    moreover have "digits_val ''0'' = 0" by code_simp
    ultimately show ?thesis by (simp add: show_nat_zero)
  next
    case 2
    moreover have "CHR ''1'' \<le> c \<and> c \<le> CHR ''9'' \<Longrightarrow> is_digit c \<and> c \<noteq> CHR ''0''" for c
      by (auto simp: is_digit_def less_eq_char_def)
    ultimately have "s \<noteq> []" "\<forall>c \<in> set s. is_digit c" "hd s \<noteq> CHR ''0''"
      by (cases s; auto simp: is_digit_def)+
    then show ?thesis by (simp add: show_nat_digits_val)
  qed
qed

lemma ipv4_octets_Some:
  "ipv4_octets parts = Some octets \<Longrightarrow> parts = map show_nat octets \<and> (\<forall>n \<in> set octets. n \<le> 255)"
  by (induction parts arbitrary: octets) (auto simp: octet_show split: if_split_asm)

lemma acceptable_private: "acceptablePrivateIpv4 h \<Longrightarrow> private_ipv4 h"
proof -
  assume acc: "acceptablePrivateIpv4 h"
  then obtain octets where o: "ipv4_octets (split_char CHR ''.'' h) = Some octets" "length (split_char CHR ''.'' h) = 4"
    by (auto simp: acceptablePrivateIpv4_def Let_def split: if_split_asm option.split_asm)
  note parts = ipv4_octets_Some [OF o(1)]
  with o(2) have "length octets = 4" by simp
  then obtain a b c d where abcd: "octets = [a, b, c, d]"
    by (auto simp: numeral_eq_Suc length_Suc_conv)
  have "h = join CHR ''.'' (map show_nat octets)" using parts join_split by metis
  then have "h = show_nat a @ ''.'' @ show_nat b @ ''.'' @ show_nat c @ ''.'' @ show_nat d" by (simp add: abcd)
  moreover have "a = 10 \<and> b \<le> 255 \<or> a = 100 \<and> 64 \<le> b \<and> b \<le> 127 \<or> a = 172 \<and> 16 \<le> b \<and> b \<le> 31 \<or> a = 192 \<and> b = 168"
    using acc [unfolded acceptablePrivateIpv4_def Let_def o] conjunct2 [OF parts] by (auto simp: abcd)
  ultimately show ?thesis using parts unfolding private_ipv4_def abcd by auto
qed

section \<open>Properties\<close>

text \<open>
  C39: an accepted owner endpoint stays inside the cluster: it is a host name and the expected
  port, and the host is a name of the service, a pod of its headless service or a private IPv4
  address in canonical notation.
\<close>

theorem endpoint_internal:
  assumes "url_hosts parse_url" "validOwnerEndpointForService parse_url endpoint port svc = Ok True"
  shows "\<exists>h. endpoint = JStr (h @ '':'' @ show_int port)
    \<and> ((\<exists>re. OWNER_ENDPOINT_SERVICE_RE svc = Some re \<and> rx_test re h)
      \<or> (\<exists>re. OWNER_ENDPOINT_HEADLESS_RE svc = Some re \<and> rx_test re h) \<or> private_ipv4 h)"
proof -
  from assms(2) obtain e url re where e: "endpoint = JStr e" and re: "OWNER_ENDPOINT_SERVICE_RE svc = Some re"
    and url: "parse_url (''http://'' @ e) = Some url" "u_host url = e" "u_port url = show_int port"
    and h: "rx_test re (u_hostname url)
      \<or> (case OWNER_ENDPOINT_HEADLESS_RE svc of None \<Rightarrow> False | Some re \<Rightarrow> rx_test re (u_hostname url))
      \<or> acceptablePrivateIpv4 (u_hostname url)"
    by (cases endpoint) (auto simp: validOwnerEndpointForService_def split: if_split_asm option.split_asm)
  from assms(1) url have "e = u_hostname url @ '':'' @ show_int port" by (auto simp: url_hosts_def show_int_def)
  with h e re acceptable_private show ?thesis by (auto split: option.split_asm)
qed

definition sample_url :: url_parser where
  "sample_url s = Some \<lparr>u_host = ''10.0.3.7:8787'', u_username = [], u_password = [], u_pathname = ''/'', u_search = [],
     u_hash = [], u_port = ''8787'', u_hostname = ''10.0.3.7''\<rparr>"

theorem endpoint_internal_witness:
  "\<exists>h. JStr ''10.0.3.7:8787'' = JStr (h @ '':'' @ show_int 8787)
    \<and> ((\<exists>re. OWNER_ENDPOINT_SERVICE_RE ''d1-runtime'' = Some re \<and> rx_test re h)
      \<or> (\<exists>re. OWNER_ENDPOINT_HEADLESS_RE ''d1-runtime'' = Some re \<and> rx_test re h) \<or> private_ipv4 h)"
proof (rule endpoint_internal)
  show "url_hosts sample_url" by (simp add: url_hosts_def sample_url_def)
  show "validOwnerEndpointForService sample_url (JStr ''10.0.3.7:8787'') 8787 ''d1-runtime'' = Ok True" by code_simp
qed

end
