(* ===== verification/D1_Registry.thy ===== *)
theory D1_Registry
  imports Owner_Writes Owner_Endpoint Ns_Pattern
begin

text \<open>
  The owner registry of the D1 runtime, \<open>d1-runtime/owner-registry.js\<close>, with the database keys
  of \<open>d1-runtime/protocol.js\<close>: which task owns a database, claimed, renewed, taken over, moved
  and released under the ownership protocol. The maps of \<open>d1-runtime/state.js\<close> are the record
  \<open>d1_state\<close>; the functions over them are synchronous and appear in the asynchronous programs as
  calls (\<open>local_call\<close>), which \<open>d1_local\<close> interprets. The numbers of the environment that go
  through \<open>Number\<close> and the URL parser are fields of \<open>d1_env\<close>. Metrics, log lines and the delays
  between retries are left out, and so are \<open>renewOwnedDbs\<close> and \<open>drainOwnedDbs\<close>, the loops over
  the owned databases; the renewal and the release they call are here.
\<close>

section \<open>Databases\<close>

definition SLOT_COUNT :: nat where "SLOT_COUNT = 4096"

definition dbKeyOf :: "jsval \<Rightarrow> jsval \<Rightarrow> string result" where
  "dbKeyOf namespace databaseId =
     (if \<not> isValidRuntimeLoadNs namespace then Throw (CodedError 400 ''invalid-namespace'')
      else if \<not> is_string databaseId \<or> \<not> rx_test D1_DATABASE_ID_RE (str_of databaseId)
      then Throw (CodedError 400 ''invalid-database-id'')
      else Ok (str_of namespace @ '':'' @ str_of databaseId))"

definition slotOf :: "jsval \<Rightarrow> jsval \<Rightarrow> nat result" where
  "slotOf namespace databaseId =
     bind_result (dbKeyOf namespace databaseId) (\<lambda>key. Ok (unat (fnv1a32CodeUnits key) mod SLOT_COUNT))"

section \<open>Configuration and keys\<close>

record d1_env =
  e_vars :: jsval
  e_url :: url_parser
  e_observedOwnerTtlMs :: rat
  e_observedOwnerMaxEntries :: nat
  e_ownerLeaseGuardMs :: rat

record d1_target =
  t_taskId :: string
  t_endpoint :: string

definition DEFAULT_OWNER_TTL_SECONDS :: int where "DEFAULT_OWNER_TTL_SECONDS = 120"

definition OWNER_PREFIX :: string where "OWNER_PREFIX = ''d1:owner:db:''"

definition OWNER_CLAIM_RETRIES :: nat where "OWNER_CLAIM_RETRIES = 3"

definition OWNER_CLAIM_WINNER_READ_DELAYS_MS :: "nat list" where
  "OWNER_CLAIM_WINNER_READ_DELAYS_MS = [0, 10, 25, 50, 100]"

definition D1_OWNER_PORT :: int where "D1_OWNER_PORT = 8787"

definition ownerTtlSeconds :: "d1_env \<Rightarrow> int" where
  "ownerTtlSeconds env = ownerTtlSecondsEnv (e_vars env) ''D1_OWNER_TTL_SECONDS'' DEFAULT_OWNER_TTL_SECONDS"

definition d1_keys :: "string \<Rightarrow> owner_keys" where
  "d1_keys dbKey = ownerProtocolKeys OWNER_PREFIX dbKey"

definition ownerKeyOf :: "string \<Rightarrow> string" where
  "ownerKeyOf dbKey = ownerKey (d1_keys dbKey)"

definition ownerGenerationKeyOf :: "string \<Rightarrow> string" where
  "ownerGenerationKeyOf dbKey = generationKey (d1_keys dbKey)"

section \<open>Owner records\<close>

definition ownerMatchesScope :: "jsval option \<Rightarrow> string \<Rightarrow> bool" where
  "ownerMatchesScope owner expectedDbKey =
     (case owner of
        None \<Rightarrow> False
      | Some r \<Rightarrow>
          is_string (jget r ''namespace'') \<and> is_string (jget r ''databaseId'') \<and> is_string (jget r ''dbKey'')
          \<and> (case jget r ''slot'' of JNum n \<Rightarrow> isSafeInteger n \<and> \<not> num_lt n (num 0) | _ \<Rightarrow> False)
          \<and> jget r ''dbKey'' = JStr expectedDbKey
          \<and> dbKeyOf (jget r ''namespace'') (jget r ''databaseId'') = Ok expectedDbKey)"

definition parseOwner :: "url_parser \<Rightarrow> string \<Rightarrow> owner_parser" where
  "parseOwner url expectedDbKey raw =
     (case raw of
        None \<Rightarrow> Ok None
      | Some s \<Rightarrow>
          (case parseOwnerRecord (Some s) of
             None \<Rightarrow> Throw (CodedError 503 ''owner-record-invalid'')
           | Some r \<Rightarrow>
               if \<not> ownerMatchesScope (Some r) expectedDbKey
                  \<or> \<not> is_string (jget r ''taskId'') \<or> str_of (jget r ''taskId'') = []
               then Throw (CodedError 503 ''owner-record-invalid'')
               else bind_result (validOwnerEndpointForService url (jget r ''endpoint'') D1_OWNER_PORT ''d1-runtime'') (\<lambda>valid.
                 if valid then Ok (Some r) else Throw (CodedError 503 ''owner-record-invalid''))))"

definition readOwnerFromClient :: "d1_env \<Rightarrow> string \<Rightarrow> jsval option io" where
  "readOwnerFromClient env dbKey = readOwnerRecord (ownerKeyOf dbKey) (parseOwner (e_url env) dbKey)"

definition readOwnerWithTimeFromClient :: "d1_env \<Rightarrow> string \<Rightarrow> (jsval option \<times> string option \<times> int) io" where
  "readOwnerWithTimeFromClient env dbKey = readOwnerRecordWithRedisTime (ownerKeyOf dbKey) (parseOwner (e_url env) dbKey)"

text \<open>A few reads, each after its delay, until the winner of a race is visible.\<close>

primrec read_after_race :: "d1_env \<Rightarrow> string \<Rightarrow> nat list \<Rightarrow> (jsval \<times> int) option io" where
  "read_after_race env dbKey [] = io_return None"
| "read_after_race env dbKey (delayMs # delays) =
     io_bind (readOwnerWithTimeFromClient env dbKey) (\<lambda>(owner, raw, nowMs).
       case owner of Some r \<Rightarrow> io_return (Some (r, nowMs)) | None \<Rightarrow> read_after_race env dbKey delays)"

definition readOwnerWithTimeAfterClaimRace :: "d1_env \<Rightarrow> string \<Rightarrow> (jsval \<times> int) option io" where
  "readOwnerWithTimeAfterClaimRace env dbKey = read_after_race env dbKey OWNER_CLAIM_WINNER_READ_DELAYS_MS"

definition ownerRecordFor :: "d1_env \<Rightarrow> jsval \<Rightarrow> int \<Rightarrow> d1_target \<Rightarrow> int \<Rightarrow> jsval result" where
  "ownerRecordFor env identity generation target nowMs =
     bind_result (validOwnerEndpointForService (e_url env) (JStr (t_endpoint target)) D1_OWNER_PORT ''d1-runtime'') (\<lambda>valid.
       if \<not> valid then Throw (CodedError 503 ''owner-record-invalid'')
       else bind_result (ownerLeaseExpiresAt nowMs (ownerTtlSeconds env)) (\<lambda>lease.
         Ok (JObj [(''namespace'', jget identity ''namespace''), (''databaseId'', jget identity ''databaseId''),
           (''dbKey'', jget identity ''dbKey''), (''slot'', jget identity ''slot''),
           (''taskId'', JStr (t_taskId target)), (''endpoint'', JStr (t_endpoint target)),
           (''generation'', JNum (num generation)), (''leaseExpiresAt'', JNum (num lease))])))"

section \<open>The state of the process\<close>

record observed_entry =
  oe_owner :: jsval
  oe_expiresAt :: rat

record d1_state =
  d_ownedDbs :: "(string, jsval) omap"
  d_observedD1Owners :: "(string, observed_entry) omap"
  d_storageSizeByDb :: "(string, jsval) omap"
  d_draining :: bool

abbreviation dbKey_of :: "jsval \<Rightarrow> string" where
  "dbKey_of r \<equiv> str_of (jget r ''dbKey'')"

definition rememberOwner :: "jsval \<Rightarrow> d1_state \<Rightarrow> d1_state" where
  "rememberOwner owner s = s\<lparr>d_ownedDbs := omap_set (dbKey_of owner) owner (d_ownedDbs s)\<rparr>"

definition forgetOwnedDb :: "string \<Rightarrow> d1_state \<Rightarrow> d1_state" where
  "forgetOwnedDb dbKey s =
     s\<lparr>d_ownedDbs := omap_delete dbKey (d_ownedDbs s), d_storageSizeByDb := omap_delete dbKey (d_storageSizeByDb s)\<rparr>"

definition forgetObservedOwner :: "string \<Rightarrow> d1_state \<Rightarrow> d1_state" where
  "forgetObservedOwner dbKey s = s\<lparr>d_observedD1Owners := omap_delete dbKey (d_observedD1Owners s)\<rparr>"

text \<open>Dropping the oldest entries until at most \<open>limit\<close> are left.\<close>

function trim_oldest :: "nat \<Rightarrow> ('k, 'v) omap \<Rightarrow> ('k, 'v) omap" where
  "trim_oldest limit m = (if length m > limit then (case m of [] \<Rightarrow> m | (k, _) # _ \<Rightarrow> trim_oldest limit (omap_delete k m)) else m)"
  by pat_completeness auto
termination
  by (relation "measure (\<lambda>(_, m). length m)") (auto simp: omap_delete_def le_imp_less_Suc intro: length_filter_le)

declare trim_oldest.simps [simp del]

text \<open>\<open>now\<close> is the reading of the local monotonic clock, \<open>redisNowMs\<close> the server time of the read if there was one.\<close>

definition rememberObservedOwner :: "d1_env \<Rightarrow> rat \<Rightarrow> jsval option \<Rightarrow> int option \<Rightarrow> d1_state \<Rightarrow> d1_state" where
  "rememberObservedOwner env now owner redisNowMs s =
     (case owner of
        None \<Rightarrow> s
      | Some r \<Rightarrow>
          if \<not> truthy (jget r ''dbKey'') then s
          else
            (case (redisNowMs, lease_number (jget r ''leaseExpiresAt'')) of
               (Some t, Fin lease) \<Rightarrow>
                 if e_observedOwnerTtlMs env \<le> 0 \<or> e_observedOwnerMaxEntries env = 0 \<or> \<not> isSafeInt t \<or> t < 0 \<or> ownerLeaseExpired owner t
                 then forgetObservedOwner (dbKey_of r) s
                 else
                   let ttlExpiresAt = now + e_observedOwnerTtlMs env;
                       leaseRemainingMs = max 0 (lease - of_int t);
                       expiresAt = min ttlExpiresAt (now + leaseRemainingMs);
                       kept = omap_delete (dbKey_of r) (d_observedD1Owners s) in
                   s\<lparr>d_observedD1Owners := trim_oldest (e_observedOwnerMaxEntries env)
                        (omap_set (dbKey_of r) \<lparr>oe_owner = r, oe_expiresAt = expiresAt\<rparr> kept)\<rparr>
             | _ \<Rightarrow> forgetObservedOwner (dbKey_of r) s))"

definition cachedObservedOwner :: "d1_env \<Rightarrow> rat \<Rightarrow> jsval \<Rightarrow> string \<Rightarrow> bool \<Rightarrow> d1_state \<Rightarrow> jsval option result \<times> d1_state" where
  "cachedObservedOwner env now identity localTaskId refresh s =
     (if refresh \<or> e_observedOwnerTtlMs env \<le> 0 \<or> e_observedOwnerMaxEntries env = 0 then (Ok None, s)
      else
        (case map_of (d_observedD1Owners s) (dbKey_of identity) of
           None \<Rightarrow> (Ok None, forgetObservedOwner (dbKey_of identity) s)
         | Some entry \<Rightarrow>
             if oe_expiresAt entry \<le> now then (Ok None, forgetObservedOwner (dbKey_of identity) s)
             else if jget (oe_owner entry) ''taskId'' = JStr localTaskId \<and> d_draining s
             then (Throw (CodedError 503 ''task-draining''), s)
             else
               let s = (if jget (oe_owner entry) ''taskId'' = JStr localTaskId then rememberOwner (oe_owner entry) s
                        else forgetOwnedDb (dbKey_of identity) s) in
               (Ok (Some (oe_owner entry)),
                s\<lparr>d_observedD1Owners := omap_set (dbKey_of identity) entry (omap_delete (dbKey_of identity) (d_observedD1Owners s))\<rparr>)))"

text \<open>The calls of the programs below, by name.\<close>

definition num_arg :: "jsval \<Rightarrow> int option" where
  "num_arg v = (case v of JNum n \<Rightarrow> if isSafeInteger n then Some (toInt n) else None | _ \<Rightarrow> None)"

definition d1_local :: "d1_env \<Rightarrow> rat \<Rightarrow> string \<Rightarrow> jsval list \<Rightarrow> d1_state \<Rightarrow> reply \<times> d1_state" where
  "d1_local env now f args s =
     (if f = ''rememberOwner'' then (NoReply, rememberOwner (args ! 0) s)
      else if f = ''forgetOwnedDb'' then (NoReply, forgetOwnedDb (str_of (args ! 0)) s)
      else if f = ''forgetObservedOwner'' then (NoReply, forgetObservedOwner (str_of (args ! 0)) s)
      else if f = ''rememberObservedOwner'' then (NoReply, rememberObservedOwner env now (Some (args ! 0)) (num_arg (args ! 1)) s)
      else if f = ''isDraining'' then (Value (JBool (d_draining s)), s)
      else if f = ''ownedDbs.has'' then (Value (JBool (map_of (d_ownedDbs s) (str_of (args ! 0)) \<noteq> None)), s)
      else if f = ''cachedObservedOwner'' then
        (case cachedObservedOwner env now (args ! 0) (str_of (args ! 1)) (args ! 2 = JBool True) s of
           (Inl e, s) \<Rightarrow> (Failed e, s)
         | (Inr None, s) \<Rightarrow> (Value JNull, s)
         | (Inr (Some r), s) \<Rightarrow> (Value r, s))
      else (NoReply, s))"

abbreviation call_rememberOwner :: "jsval \<Rightarrow> jsval io" where
  "call_rememberOwner owner \<equiv> local_call ''rememberOwner'' [owner]"

abbreviation call_forgetOwnedDb :: "string \<Rightarrow> jsval io" where
  "call_forgetOwnedDb dbKey \<equiv> local_call ''forgetOwnedDb'' [JStr dbKey]"

abbreviation call_forgetObservedOwner :: "string \<Rightarrow> jsval io" where
  "call_forgetObservedOwner dbKey \<equiv> local_call ''forgetObservedOwner'' [JStr dbKey]"

abbreviation call_rememberObservedOwner :: "jsval \<Rightarrow> int option \<Rightarrow> jsval io" where
  "call_rememberObservedOwner owner now \<equiv>
     local_call ''rememberObservedOwner'' [owner, case now of None \<Rightarrow> JNull | Some t \<Rightarrow> JNum (num t)]"

abbreviation unless_draining :: "'a io \<Rightarrow> 'a io" where
  "unless_draining p \<equiv> io_bind (local_call ''isDraining'' []) (\<lambda>b.
     if truthy b then io_throw (CodedError 503 ''task-draining'') else p)"

text \<open>The identity of the task comes from the environment or the metadata service; resolving it may fail.\<close>

definition resolveTaskIdentity :: "d1_target io" where
  "resolveTaskIdentity = io_bind (local_call ''resolveTaskIdentity'' []) (\<lambda>v.
     case (jget v ''taskId'', jget v ''endpoint'') of
       (JStr t, JStr e) \<Rightarrow> io_return \<lparr>t_taskId = t, t_endpoint = e\<rparr>
     | _ \<Rightarrow> io_throw (CodedError 503 ''task-identity-unavailable''))"

section \<open>Claims\<close>

definition withWatchRetries :: "'a io \<Rightarrow> string \<Rightarrow> 'a io" where
  "withWatchRetries operation exhaustedCode = withOwnerWatchRetries operation OWNER_CLAIM_RETRIES (CodedError 503 exhaustedCode)"

definition repairGenerationCounterIfStale :: "jsval \<Rightarrow> jsval io" where
  "repairGenerationCounterIfStale owner =
     (let key = ownerGenerationKeyOf (dbKey_of owner) in
      withWatchRetries
        (io_then (watch [key])
         (io_bind (currentOwnerGenerationCounter key) (\<lambda>currentCounter.
           if currentCounter \<ge> generation_of owner then io_then unwatch (io_return owner)
           else io_bind (io_lift (multi_set key (show_int (generation_of owner)) no_options [])) (\<lambda>cmds.
             io_then (multi_exec cmds) (io_return owner)))))
        ''owner-claim-raced'')"

text \<open>Staging a claim of a new generation and committing it.\<close>

definition commit_claim :: "d1_env \<Rightarrow> string \<Rightarrow> jsval \<Rightarrow> reply io" where
  "commit_claim env dbKey owner =
     io_bind (io_lift (stageOwnerClaim (d1_keys dbKey) owner (ownerTtlSeconds env) [])) multi_exec"

abbreviation read_snapshot :: "d1_env \<Rightarrow> string \<Rightarrow> (jsval option \<times> string option \<times> string option list \<times> int) io" where
  "read_snapshot env dbKey \<equiv>
     readOwnerSnapshotWithRedisTime (ownerKeyOf dbKey) [ownerGenerationKeyOf dbKey] (parseOwner (e_url env) dbKey)"

text \<open>
  \<open>takeoverExpiredOwner\<close> and \<open>resolveDbOwner\<close> call each other when the record disappears or
  expires between their reads; \<open>resolve\<close> is the other function, and the depth of the calls is
  bounded by the fuel of \<open>resolveDbOwner\<close>.
\<close>

definition takeover_session :: "(jsval \<Rightarrow> jsval io) \<Rightarrow> d1_env \<Rightarrow> d1_target \<Rightarrow> jsval \<Rightarrow> jsval io" where
  "takeover_session resolve env localTask staleOwner =
     (let dbKey = dbKey_of staleOwner in
      io_then (watch [ownerKeyOf dbKey, ownerGenerationKeyOf dbKey])
      (io_bind (read_snapshot env dbKey) (\<lambda>(current, rawOwner, relatedValues, nowMs).
        case current of
          None \<Rightarrow> io_then unwatch (io_then (call_forgetObservedOwner dbKey) (resolve staleOwner))
        | Some c \<Rightarrow>
            if \<not> ownerFenceMatches current (Some staleOwner) then
              io_then unwatch
              (io_then (if jget c ''taskId'' = JStr (t_taskId localTask) then call_rememberOwner c else io_return JUndef)
              (io_then (call_rememberObservedOwner c None) (io_return c)))
            else if \<not> ownerLeaseExpired current nowMs then
              io_then unwatch (io_then (call_rememberObservedOwner c (Some nowMs)) (io_return c))
            else
              io_bind (io_lift (nextOwnerGenerationFromSnapshot (relatedValues ! 0) (generation_of c))) (\<lambda>generation.
              io_bind (io_lift (ownerRecordFor env c generation localTask nowMs)) (\<lambda>owner.
              io_then (commit_claim env dbKey owner)
              (io_then (call_rememberOwner owner)
              (io_then (call_rememberObservedOwner owner (Some nowMs)) (io_return owner))))))))"

definition takeover_with :: "(jsval \<Rightarrow> jsval io) \<Rightarrow> d1_env \<Rightarrow> jsval \<Rightarrow> jsval io" where
  "takeover_with resolve env staleOwner =
     io_bind resolveTaskIdentity (\<lambda>localTask.
       unless_draining (withWatchRetries (takeover_session resolve env localTask staleOwner) ''owner-takeover-raced''))"

definition claim_session :: "(jsval \<Rightarrow> jsval io) \<Rightarrow> d1_env \<Rightarrow> d1_target \<Rightarrow> jsval \<Rightarrow> jsval io" where
  "claim_session takeover env localTask identity =
     (let dbKey = dbKey_of identity in
      io_then (watch [ownerKeyOf dbKey, ownerGenerationKeyOf dbKey])
      (io_bind (read_snapshot env dbKey) (\<lambda>(racedOwner, rawOwner, relatedValues, nowMs).
        case racedOwner of
          Some r \<Rightarrow>
            io_then unwatch
            (if ownerLeaseExpired racedOwner nowMs then
               io_then (call_forgetOwnedDb dbKey) (io_then (call_forgetObservedOwner dbKey) (takeover r))
             else
               io_then (if jget r ''taskId'' = JStr (t_taskId localTask) then call_rememberOwner r else io_return JUndef)
               (io_then (call_rememberObservedOwner r (Some nowMs)) (io_return r)))
        | None \<Rightarrow>
            io_bind (io_lift (nextOwnerGenerationFromSnapshot (relatedValues ! 0) 0)) (\<lambda>generation.
            io_bind (io_lift (ownerRecordFor env identity generation localTask nowMs)) (\<lambda>owner.
            io_then (commit_claim env dbKey owner)
            (io_then (call_rememberOwner owner)
            (io_then (call_rememberObservedOwner owner (Some nowMs)) (io_return owner))))))))"

definition has_code :: "string \<Rightarrow> js_error \<Rightarrow> bool" where
  "has_code code e = (case e of CodedError _ c \<Rightarrow> c = code | _ \<Rightarrow> False)"

text \<open>A live record of the registry: a remote owner is remembered, a local one is adopted.\<close>

definition adopt_existing :: "d1_target \<Rightarrow> jsval \<Rightarrow> jsval \<Rightarrow> int \<Rightarrow> jsval io" where
  "adopt_existing localTask identity existing nowMs =
     (let dbKey = dbKey_of identity in
      if jget existing ''taskId'' \<noteq> JStr (t_taskId localTask) then
        io_then (call_forgetOwnedDb dbKey) (io_then (call_rememberObservedOwner existing (Some nowMs)) (io_return existing))
      else
        unless_draining
          (io_bind (local_call ''ownedDbs.has'' [JStr dbKey]) (\<lambda>alreadyLocal.
           io_then (call_rememberOwner existing)
           (io_then (call_rememberObservedOwner existing (Some nowMs))
           (if truthy alreadyLocal then io_return existing
            else io_then (io_catch (repairGenerationCounterIfStale existing) (\<lambda>_. io_return existing)) (io_return existing))))))"

definition after_claim_race :: "(jsval \<Rightarrow> jsval io) \<Rightarrow> d1_env \<Rightarrow> d1_target \<Rightarrow> jsval \<Rightarrow> js_error \<Rightarrow> jsval io" where
  "after_claim_race takeover env localTask identity err =
     (let dbKey = dbKey_of identity in
      if \<not> has_code ''owner-claim-raced'' err then io_throw err
      else io_bind (readOwnerWithTimeAfterClaimRace env dbKey) (\<lambda>race.
        case race of
          Some (owner, nowMs) \<Rightarrow>
            if ownerLeaseExpired (Some owner) nowMs then
              io_then (call_forgetOwnedDb dbKey) (io_then (call_forgetObservedOwner dbKey) (takeover owner))
            else
              io_then (if jget owner ''taskId'' = JStr (t_taskId localTask) then call_rememberOwner owner else io_return JUndef)
              (io_then (call_rememberObservedOwner owner (Some nowMs)) (io_return owner))
        | None \<Rightarrow> io_throw err))"

primrec resolveDbOwner :: "nat \<Rightarrow> d1_env \<Rightarrow> jsval \<Rightarrow> bool \<Rightarrow> jsval io" where
  "resolveDbOwner 0 env identity refresh = Spin"
| "resolveDbOwner (Suc fuel) env identity refresh =
     (let dbKey = dbKey_of identity; takeover = takeover_with (\<lambda>i. resolveDbOwner fuel env i True) env in
      io_bind resolveTaskIdentity (\<lambda>localTask.
      io_bind (local_call ''cachedObservedOwner'' [identity, JStr (t_taskId localTask), JBool refresh]) (\<lambda>observed.
        if truthy observed then io_return observed
        else io_bind (readOwnerWithTimeFromClient env dbKey) (\<lambda>(existing, raw, existingNowMs).
          case existing of
            Some r \<Rightarrow>
              if ownerLeaseExpired existing existingNowMs then
                io_then (call_forgetOwnedDb dbKey) (io_then (call_forgetObservedOwner dbKey) (takeover r))
              else adopt_existing localTask identity r existingNowMs
          | None \<Rightarrow>
              unless_draining
                (io_catch (withWatchRetries (claim_session takeover env localTask identity) ''owner-claim-raced'')
                  (after_claim_race takeover env localTask identity))))))"

definition takeoverExpiredOwner :: "nat \<Rightarrow> d1_env \<Rightarrow> jsval \<Rightarrow> jsval io" where
  "takeoverExpiredOwner fuel env staleOwner = takeover_with (\<lambda>i. resolveDbOwner fuel env i True) env staleOwner"

section \<open>Renewal and release\<close>





text \<open>Releasing, and what the process remembers of each release.\<close>

fun settle_releases :: "jsval list \<Rightarrow> release_results \<Rightarrow> (jsval \<times> release_result) list io" where
  "settle_releases (expected # owners) (Some r # rs) =
     io_then
       (if rr_error r \<noteq> None then io_return JUndef
        else io_then (call_forgetOwnedDb (dbKey_of expected))
          (case rr_owner r of
             Some c \<Rightarrow> call_rememberObservedOwner c None
           | None \<Rightarrow> call_forgetObservedOwner (dbKey_of expected)))
       (io_map (Cons (expected, r)) (settle_releases owners rs))"
| "settle_releases (expected # owners) (None # rs) = io_throw JsTypeError"
| "settle_releases _ _ = io_return []"

definition releaseOwners :: "d1_env \<Rightarrow> jsval list \<Rightarrow> (jsval \<times> release_result) list io" where
  "releaseOwners env owners =
     io_bind (releaseOwnerRecords (\<lambda>raw expected. parseOwner (e_url env) (dbKey_of expected) raw)
         (map (\<lambda>owner. (ownerKeyOf (dbKey_of owner), owner)) owners)) (\<lambda>results.
       settle_releases owners results)"

text \<open>The counts of a drain, and the databases whose release failed.\<close>

definition releaseOwnersForDrain :: "d1_env \<Rightarrow> jsval list \<Rightarrow> (nat \<times> nat \<times> string list) io" where
  "releaseOwnersForDrain env owners =
     io_catch
       (io_map (\<lambda>outcomes.
          (length (filter (\<lambda>(_, r). rr_error r = None \<and> rr_released r) outcomes),
           length (filter (\<lambda>(_, r). rr_error r = None \<and> \<not> rr_released r) outcomes),
           map (\<lambda>(expected, _). dbKey_of expected) (filter (\<lambda>(_, r). rr_error r \<noteq> None) outcomes)))
         (releaseOwners env owners))
       (\<lambda>_. io_return (0, 0, map dbKey_of owners))"

definition ownerLeaseExpiredByRedisClient :: "jsval option \<Rightarrow> bool io" where
  "ownerLeaseExpiredByRedisClient owner = io_map (ownerLeaseExpired owner) redisServerTimeMs"

section \<open>Moving databases\<close>

definition normalize_database :: "jsval \<Rightarrow> jsval result" where
  "normalize_database database =
     (case database of
        JObj ps \<Rightarrow>
          bind_result (dbKeyOf (jget database ''namespace'') (jget database ''databaseId'')) (\<lambda>dbKey.
          bind_result (slotOf (jget database ''namespace'') (jget database ''databaseId'')) (\<lambda>slot.
            Ok (JObj [(''namespace'', jget database ''namespace''), (''databaseId'', jget database ''databaseId''),
              (''dbKey'', JStr dbKey), (''slot'', JNum (num (int slot)))])))
      | _ \<Rightarrow> Throw (CodedError 400 ''invalid-database''))"

fun map_result :: "('a \<Rightarrow> 'b result) \<Rightarrow> 'a list \<Rightarrow> 'b list result" where
  "map_result f [] = Ok []"
| "map_result f (x # xs) = bind_result (f x) (\<lambda>y. bind_result (map_result f xs) (\<lambda>ys. Ok (y # ys)))"

definition normalizeDatabases :: "jsval \<Rightarrow> jsval list result" where
  "normalizeDatabases databases =
     (case databases of
        JArr (d # ds) \<Rightarrow> map_result normalize_database (d # ds)
      | _ \<Rightarrow> Throw (CodedError 400 ''invalid-databases''))"

definition normalizeTarget :: "url_parser \<Rightarrow> jsval \<Rightarrow> d1_target option result" where
  "normalizeTarget url target =
     (if nullish target then Ok None
      else
        (case target of
           JObj ps \<Rightarrow>
             if \<not> is_string (jget target ''taskId'') \<or> str_of (jget target ''taskId'') = []
                \<or> \<not> is_string (jget target ''endpoint'') \<or> str_of (jget target ''endpoint'') = []
             then Throw (CodedError 400 ''invalid-target'')
             else bind_result (validOwnerEndpointForService url (jget target ''endpoint'') D1_OWNER_PORT ''d1-runtime'') (\<lambda>valid.
               if valid then Ok (Some \<lparr>t_taskId = str_of (jget target ''taskId''), t_endpoint = str_of (jget target ''endpoint'')\<rparr>)
               else Throw (CodedError 400 ''invalid-target''))
         | _ \<Rightarrow> Throw (CodedError 400 ''invalid-target'')))"

datatype rebalance_outcome = NotOwner "jsval option" | Released | Unchanged jsval | Moved jsval

definition rebalance_session :: "d1_env \<Rightarrow> d1_target \<Rightarrow> jsval \<Rightarrow> d1_target option \<Rightarrow> rebalance_outcome io" where
  "rebalance_session env localTask database target =
     (let dbKey = dbKey_of database in
      io_then (watch [ownerKeyOf dbKey, ownerGenerationKeyOf dbKey])
      (io_bind (read_snapshot env dbKey) (\<lambda>(current, rawOwner, relatedValues, nowMs).
        case current of
          None \<Rightarrow> io_then unwatch (io_then (call_forgetOwnedDb dbKey) (io_then (call_forgetObservedOwner dbKey) (io_return (NotOwner None))))
        | Some c \<Rightarrow>
            if jget c ''taskId'' \<noteq> JStr (t_taskId localTask) then
              io_then unwatch (io_then (call_forgetOwnedDb dbKey) (io_then (call_rememberObservedOwner c None) (io_return (NotOwner current))))
            else
              (case target of
                 None \<Rightarrow>
                   io_then (multi_exec (stageOwnerRelease (ownerKeyOf dbKey) []))
                   (io_then (call_forgetOwnedDb dbKey) (io_then (call_forgetObservedOwner dbKey) (io_return Released)))
               | Some t \<Rightarrow>
                   if JStr (t_taskId t) = jget c ''taskId'' \<and> JStr (t_endpoint t) = jget c ''endpoint'' then
                     io_then unwatch (io_then (call_rememberOwner c) (io_then (call_rememberObservedOwner c None) (io_return (Unchanged c))))
                   else
                     io_bind (io_lift (nextOwnerGenerationFromSnapshot (relatedValues ! 0) (generation_of c))) (\<lambda>generation.
                     io_bind (io_lift (ownerRecordFor env database generation t nowMs)) (\<lambda>nextOwner.
                     io_then (commit_claim env dbKey nextOwner)
                     (io_then (call_forgetOwnedDb dbKey)
                     (io_then (call_rememberObservedOwner nextOwner (Some nowMs)) (io_return (Moved nextOwner))))))))))"

definition rebalanceDatabase :: "d1_env \<Rightarrow> jsval \<Rightarrow> d1_target option \<Rightarrow> rebalance_outcome io" where
  "rebalanceDatabase env database target =
     io_bind resolveTaskIdentity (\<lambda>localTask.
       withWatchRetries (rebalance_session env localTask database target) ''owner-rebalance-raced'')"

fun rebalance_all :: "d1_env \<Rightarrow> d1_target option \<Rightarrow> jsval list \<Rightarrow> rebalance_outcome list io" where
  "rebalance_all env target [] = io_return []"
| "rebalance_all env target (d # ds) =
     io_bind (rebalanceDatabase env d target) (\<lambda>r. io_map (Cons r) (rebalance_all env target ds))"

definition rebalanceOwnedDbs :: "d1_env \<Rightarrow> jsval \<Rightarrow> (string \<times> d1_target option \<times> rebalance_outcome list) io" where
  "rebalanceOwnedDbs env body =
     io_bind resolveTaskIdentity (\<lambda>localTask.
     io_bind (io_lift (normalizeDatabases (jget body ''databases''))) (\<lambda>databases.
     io_bind (io_lift (normalizeTarget (e_url env) (jget body ''target''))) (\<lambda>target.
     io_bind (rebalance_all env target databases) (\<lambda>results.
       io_return (t_taskId localTask, target, results)))))"

section \<open>Asserting ownership before a query\<close>






section \<open>The registry under the ownership protocol\<close>

lemma parseOwner_Some:
  assumes "parseOwner url k (Some raw) = Ok owner"
  obtains r where "owner = Some r" "parseOwnerRecord (Some raw) = Some r" "ownerMatchesScope (Some r) k"
    "is_string (jget r ''taskId'')" "validOwnerEndpointForService url (jget r ''endpoint'') D1_OWNER_PORT ''d1-runtime'' = Ok True"
proof -
  from assms obtain r where r: "parseOwnerRecord (Some raw) = Some r" by (auto simp: parseOwner_def split: option.split_asm)
  with assms that [OF _ r] show thesis by (auto simp: parseOwner_def bind_result_eq_Inr split: if_split_asm)
qed

interpretation d1: owner_scope "parseOwner url dbKey" for url dbKey
proof
  show "parseOwner url dbKey None = Ok None" by (simp add: parseOwner_def)
  show "parseOwnerRecord (Some raw) = Some r" if "parseOwner url dbKey (Some raw) = Ok (Some r)" for raw r
    using that by (rule parseOwner_Some) auto
qed

text \<open>A record of the registry can be stored and is accepted when it is read back.\<close>

lemma scope_fields:
  assumes "ownerMatchesScope (Some i) k"
  obtains ns db slot where "jget i ''namespace'' = JStr ns" "jget i ''databaseId'' = JStr db" "jget i ''dbKey'' = JStr k"
    "jget i ''slot'' = JNum (num slot)" "0 \<le> slot" "isSafeInt slot" "dbKeyOf (JStr ns) (JStr db) = Ok k"
proof -
  from assms obtain n where n: "jget i ''slot'' = JNum n" "isSafeInteger n" "\<not> num_lt n (num 0)"
    by (auto simp: ownerMatchesScope_def split: jsval.split_asm)
  from n(2) obtain m where m: "n = num m" "isSafeInt m" by (rule isSafeInteger_cases)
  have "0 \<le> m" using n(3) unfolding m(1) num_lt.simps of_int_less_iff by simp
  moreover obtain ns db where "jget i ''namespace'' = JStr ns" "jget i ''databaseId'' = JStr db" "jget i ''dbKey'' = JStr k"
    "dbKeyOf (JStr ns) (JStr db) = Ok k"
    using assms by (auto simp: ownerMatchesScope_def is_string_iff)
  ultimately show thesis using n(1) m that by blast
qed

lemma owner_record:
  assumes "ownerMatchesScope (Some i) k" "0 < g" "isSafeInt g" "ownerRecordFor env i g target now = Ok r"
  shows "storable r" "fence_of r = (g, JStr (t_taskId target))" "ownerMatchesScope (Some r) k"
    "t_taskId target \<noteq> [] \<Longrightarrow> parseOwner (e_url env) k (Some (stringify r)) = Ok (Some r)"
proof -
  from assms(1) obtain ns db slot where f: "jget i ''namespace'' = JStr ns" "jget i ''databaseId'' = JStr db" "jget i ''dbKey'' = JStr k"
    "jget i ''slot'' = JNum (num slot)" "0 \<le> slot" "isSafeInt slot" "dbKeyOf (JStr ns) (JStr db) = Ok k"
    by (rule scope_fields)
  from assms(4) obtain lease where lease: "ownerLeaseExpiresAt now (ownerTtlSeconds env) = Ok lease"
    and valid: "validOwnerEndpointForService (e_url env) (JStr (t_endpoint target)) D1_OWNER_PORT ''d1-runtime'' = Ok True"
    and r: "r = JObj [(''namespace'', JStr ns), (''databaseId'', JStr db), (''dbKey'', JStr k), (''slot'', JNum (num slot)),
      (''taskId'', JStr (t_taskId target)), (''endpoint'', JStr (t_endpoint target)),
      (''generation'', JNum (num g)), (''leaseExpiresAt'', JNum (num lease))]"
    by (auto simp: ownerRecordFor_def bind_result_eq_Inr f split: if_split_asm)
  have "positive_generation (JNum (num g))" using assms(2,3) by (simp add: positive_generation_def num_le_num [of g 0, simplified])
  then have parse: "parseOwnerRecord (Some (stringify r)) = Some r"
    unfolding r by (intro parse_stored_record) (simp_all add: lease_field_ok_def)
  then show "storable r" by (simp add: storable_def r)
  show "fence_of r = (g, JStr (t_taskId target))" by (simp add: fence_of_def generation_of_def r)
  show scope: "ownerMatchesScope (Some r) k"
    using f by (simp add: ownerMatchesScope_def r)
  have fields: "jget r ''taskId'' = JStr (t_taskId target)" "jget r ''endpoint'' = JStr (t_endpoint target)" by (simp_all add: r)
  show "parseOwner (e_url env) k (Some (stringify r)) = Ok (Some r)" if "t_taskId target \<noteq> []"
    using that scope valid by (simp add: parseOwner_def parse fields)
qed

text \<open>The writes of the registry, under what the session has seen.\<close>

abbreviation d1_write :: "d1_env \<Rightarrow> string \<Rightarrow> view \<Rightarrow> cmd list \<Rightarrow> bool" where
  "d1_write env dbKey \<equiv> owner_write (parseOwner (e_url env) dbKey) (d1_keys dbKey)"

lemma keys_differ: "distinct [ownerKeyOf k, ownerGenerationKeyOf k]" "ownerKey (d1_keys k) \<noteq> generationKey (d1_keys k)"
  by (simp_all add: ownerKeyOf_def ownerGenerationKeyOf_def d1_keys_def ownerProtocolKeys_def ownerGenerationScopedKey_def)

lemma d1_snapshot:
  assumes "\<And>raw cnt owner now. parse raw = Ok owner \<Longrightarrow>
    guards_seeing P [(ownerKeyOf k, raw), (ownerGenerationKeyOf k, cnt)] (cont (owner, raw, [cnt], now))"
  shows "guards P (io_then (watch [ownerKeyOf k, ownerGenerationKeyOf k])
    (io_bind (readOwnerSnapshotWithRedisTime (ownerKeyOf k) [ownerGenerationKeyOf k] parse) cont))"
proof (rule snapshot_seeing [OF keys_differ(1)], goal_cases)
  case (1 raw vals owner now)
  then obtain cnt where "vals = [cnt]" by (auto simp: length_Suc_conv)
  with assms [OF 1(1)] show ?case by simp
qed

lemma seeing_commit:
  assumes "parseOwner (e_url env) k raw = Ok current"
    and "nextOwnerGenerationFromSnapshot cnt (case current of None \<Rightarrow> 0 | Some c \<Rightarrow> generation_of c) = Ok g"
    and "ownerMatchesScope (Some i) k" "ownerRecordFor env i g target now = Ok r" "\<And>x. guards (d1_write env k) (f x)"
  shows "guards_seeing (d1_write env k) [(ownerKeyOf k, raw), (ownerGenerationKeyOf k, cnt)] (io_bind (commit_claim env k r) f)"
  unfolding commit_claim_def io_bind_assoc
proof (intro seeing_lift seeing_exec assms(5))
  fix cmds v
  assume stage: "stageOwnerClaim (d1_keys k) r (ownerTtlSeconds env) [] = Ok cmds"
    and v: "\<forall>(k', x) \<in> set [(ownerKeyOf k, raw), (ownerGenerationKeyOf k, cnt)]. seen v k' = Some x"
  from assms(2) have "0 < g" "isSafeInt g" by (rule next_generation_range, simp)+
  note r = owner_record [OF assms(3) this assms(4)]
  then have "claimed (parseOwner (e_url env) k) raw cnt r"
    using assms(1,2) by (auto simp: claimed_def fence_of_def)
  with stage v show "d1_write env k v cmds"
    by (auto simp: owner_write_def claim_write_def ownerKeyOf_def ownerGenerationKeyOf_def)
qed

lemma scope_key: "ownerMatchesScope (Some i) k \<Longrightarrow> dbKey_of i = k"
  by (auto simp: ownerMatchesScope_def)

lemma parsed_scope: "parseOwner url k raw = Ok (Some c) \<Longrightarrow> ownerMatchesScope (Some c) k"
  by (cases raw) (auto simp: parseOwner_def [of _ _ None] elim: parseOwner_Some)

lemma seeing_claim:
  assumes "parseOwner (e_url env) k raw = Ok current" "gen = (case current of None \<Rightarrow> 0 | Some c \<Rightarrow> generation_of c)"
    and "ownerMatchesScope (Some i) k" "\<And>owner. guards (d1_write env k) (f owner)"
  shows "guards_seeing (d1_write env k) [(ownerKeyOf k, raw), (ownerGenerationKeyOf k, cnt)]
    (io_bind (io_lift (nextOwnerGenerationFromSnapshot ([cnt] ! 0) gen)) (\<lambda>generation.
     io_bind (io_lift (ownerRecordFor env i generation target now)) (\<lambda>owner.
     io_then (commit_claim env k owner) (f owner))))"
  using assms by (intro seeing_lift seeing_commit) (auto simp: nth_Cons_0)

lemma guards_takeover_session:
  assumes "ownerMatchesScope (Some stale) k" "\<And>i. ownerMatchesScope (Some i) k \<Longrightarrow> guards (d1_write env k) (resolve i)"
  shows "guards (d1_write env k) (takeover_session resolve env task stale)"
  unfolding takeover_session_def Let_def scope_key [OF assms(1)]
proof (rule d1_snapshot, goal_cases)
  case (1 raw cnt current now)
  show ?case
  proof (cases current)
    case None
    then show ?thesis using assms unfolding prod.case None option.case by (intro guards_seeingI guards_intros)
  next
    case (Some c)
    note p = 1 [unfolded Some]
    show ?thesis unfolding prod.case Some option.case
      by (intro seeing_if; (rule seeing_claim [OF p _ parsed_scope [OF p]] | rule guards_seeingI); (intro guards_intros)?) simp
  qed
qed

lemma get_seeing:
  assumes "\<And>raw. guards_seeing P [(g, raw)] (cont raw)"
  shows "guards P (io_then (watch [g]) (io_bind (redis_get g) cont))"
proof -
  have "seen \<lparr>v_watched = [g], v_reads = [(g, x)]\<rparr> g = Some x" for x by (simp add: seen_def)
  with assms show ?thesis
    by (auto simp: guards_def guards_seeing_def watch_def exec_def ask_def redis_get_def io_bind_assoc split: reply.split)
qed

lemma guards_watch_retries [guards_intros]: "guards P p \<Longrightarrow> guards P (withWatchRetries p code)"
  unfolding withWatchRetries_def withOwnerWatchRetries_def by (intro guards_intros)

lemma guards_identity [guards_intros]: "guards P resolveTaskIdentity"
  unfolding resolveTaskIdentity_def by (intro guards_intros) (auto intro!: guards_Done split: jsval.split)

lemma guards_owner_reads [guards_intros]: "guards P (readOwnerWithTimeFromClient env k)"
  unfolding readOwnerWithTimeFromClient_def readOwnerRecordWithRedisTime_def
  by (intro guards_bind guards_reads) (auto intro: guards_Done split: prod.split)

lemma guards_race_reads [guards_intros]: "guards P (read_after_race env k delays)"
  by (induction delays) (auto intro!: guards_intros split: option.split)

lemma guards_repair:
  assumes "dbKey_of owner = k" "isSafeInt (generation_of owner)"
  shows "guards (d1_write env k) (repairGenerationCounterIfStale owner)"
  unfolding repairGenerationCounterIfStale_def Let_def currentOwnerGenerationCounter_def io_bind_assoc assms(1)
proof (intro guards_watch_retries get_seeing seeing_lift seeing_if, goal_cases)
  case (1 raw n)
  show ?case by (intro guards_seeingI guards_intros)
next
  case (2 raw n cmds)
  have "cmds = [[''SET'', ownerGenerationKeyOf k, show_int (generation_of owner)]]"
    using 2(3) by (simp add: multi_set_def buildSetArgs_def no_options_def)
  with 2(1,2) assms(2) have "raise_write (d1_keys k) raw (generation_of owner) cmds"
    by (simp add: raise_write_def ownerGenerationKeyOf_def)
  then have "d1_write env k v cmds" if "seen v (ownerGenerationKeyOf k) = Some raw" for v
    using that unfolding owner_write_def ownerGenerationKeyOf_def by blast
  then show ?case by (intro seeing_exec guards_intros) auto
qed

lemma guards_takeover:
  assumes "ownerMatchesScope (Some stale) k" "\<And>i. ownerMatchesScope (Some i) k \<Longrightarrow> guards (d1_write env k) (resolve i)"
  shows "guards (d1_write env k) (takeover_with resolve env stale)"
  unfolding takeover_with_def using assms by (intro guards_intros guards_takeover_session)

lemma guards_claim_session:
  assumes "ownerMatchesScope (Some identity) k" "\<And>i. ownerMatchesScope (Some i) k \<Longrightarrow> guards (d1_write env k) (takeover i)"
  shows "guards (d1_write env k) (claim_session takeover env task identity)"
  unfolding claim_session_def Let_def scope_key [OF assms(1)]
proof (rule d1_snapshot, goal_cases)
  case (1 raw cnt current now)
  show ?case
  proof (cases current)
    case None
    show ?thesis unfolding prod.case None option.case
      by (rule seeing_claim [OF 1 [unfolded None] _ assms(1)]; (intro guards_intros)?) simp
  next
    case (Some c)
    show ?thesis unfolding prod.case Some option.case
      by (intro guards_seeingI guards_intros assms(2) parsed_scope [OF 1 [unfolded Some]])
  qed
qed

lemma guards_adopt:
  assumes "ownerMatchesScope (Some identity) k" "ownerMatchesScope (Some existing) k" "isSafeInt (generation_of existing)"
  shows "guards (d1_write env k) (adopt_existing task identity existing now)"
  unfolding adopt_existing_def Let_def by (intro guards_intros guards_repair scope_key [OF assms(2)] assms(3))

lemma read_owner_returns:
  "returns (readOwnerWithTimeFromClient env k) (\<lambda>(owner, raw, now). parseOwner (e_url env) k raw = Ok owner \<and> isSafeInt now \<and> 0 \<le> now)"
  unfolding readOwnerWithTimeFromClient_def readOwnerRecordWithRedisTime_def
  by (rule returns_bind [OF returns_anything]) (auto simp: parseTimedOwnerRead_def bind_result_eq_Inr split: if_split_asm)

lemma read_after_race_returns:
  "returns (read_after_race env k delays) (\<lambda>race. \<forall>owner now. race = Some (owner, now) \<longrightarrow> ownerMatchesScope (Some owner) k)"
proof (induction delays)
  case (Cons d ds)
  show ?case
    unfolding read_after_race.simps
    by (rule returns_bind [OF read_owner_returns]) (use Cons parsed_scope in \<open>auto split: option.split\<close>)
qed simp

lemma guards_after_race:
  assumes "ownerMatchesScope (Some identity) k" "\<And>i. ownerMatchesScope (Some i) k \<Longrightarrow> guards (d1_write env k) (takeover i)"
  shows "guards (d1_write env k) (after_claim_race takeover env task identity err)"
  unfolding after_claim_race_def Let_def scope_key [OF assms(1)] readOwnerWithTimeAfterClaimRace_def
proof (intro guards_if guards_bind_returns [OF guards_race_reads read_after_race_returns], goal_cases)
  case (2 race)
  then show ?case using assms(2) by (auto intro!: guards_intros split: option.split)
qed (intro guards_intros)

lemma guards_resolve:
  "ownerMatchesScope (Some identity) k \<Longrightarrow> guards (d1_write env k) (resolveDbOwner fuel env identity refresh)"
proof (induction fuel arbitrary: identity refresh)
  case (Suc fuel)
  let ?takeover = "takeover_with (\<lambda>i. resolveDbOwner fuel env i True) env"
  have t: "guards (d1_write env k) (?takeover i)" if "ownerMatchesScope (Some i) k" for i
    using that Suc.IH by (intro guards_takeover)
  have found: "guards (d1_write env k)
      (case existing of
         Some r \<Rightarrow> if ownerLeaseExpired existing now then
              io_then (call_forgetOwnedDb k) (io_then (call_forgetObservedOwner k) (?takeover r))
            else adopt_existing task identity r now
       | None \<Rightarrow> unless_draining
            (io_catch (withWatchRetries (claim_session ?takeover env task identity) ''owner-claim-raced'')
              (after_claim_race ?takeover env task identity)))"
    if "parseOwner (e_url env) k raw = Ok existing" for existing raw now task
  proof (cases existing)
    case None
    show ?thesis unfolding None option.case
      by (intro guards_intros guards_claim_session guards_after_race t Suc.prems)
  next
    case (Some r)
    note p = that [unfolded Some]
    show ?thesis unfolding Some option.case
      by (intro guards_intros t guards_adopt Suc.prems parsed_scope [OF p] parsed_generation(3) [OF d1.parsed [OF p]])
  qed
  show ?case
    unfolding resolveDbOwner.simps Let_def scope_key [OF Suc.prems]
    by (rule guards_bind [OF guards_identity], rule guards_bind [OF guards_local], rule guards_if, rule guards_Done,
        rule guards_bind_returns [OF guards_owner_reads read_owner_returns]) (auto intro: found)
qed (simp add: guards_Spin)

lemma seeing_release:
  assumes "parseOwner (e_url env) k raw = Ok (Some c)" "\<And>x. guards (d1_write env k) (f x)"
  shows "guards_seeing (d1_write env k) [(ownerKeyOf k, raw), (ownerGenerationKeyOf k, cnt)]
    (io_bind (multi_exec (stageOwnerRelease (ownerKeyOf k) [])) f)"
  using assms by (intro seeing_exec)
    (auto simp: owner_write_def stageOwnerRelease_def multi_del_def ownerKeyOf_def ownerGenerationKeyOf_def)

lemma guards_rebalance:
  assumes "ownerMatchesScope (Some database) k"
  shows "guards (d1_write env k) (rebalanceDatabase env database target)"
proof -
  have "guards (d1_write env k) (rebalance_session env task database target)" for task
    unfolding rebalance_session_def Let_def scope_key [OF assms]
  proof (rule d1_snapshot, goal_cases)
    case (1 raw cnt current now)
    show ?case
    proof (cases current)
      case None
      show ?thesis unfolding prod.case None option.case by (intro guards_seeingI guards_intros)
    next
      case (Some c)
      note p = 1 [unfolded Some]
      show ?thesis unfolding prod.case Some option.case
        by (cases target) (simp only: option.case, (intro seeing_if; (rule seeing_release [OF p] | rule seeing_claim [OF p _ assms] | rule guards_seeingI); (intro guards_intros)?; simp))+
    qed
  qed
  then show ?thesis unfolding rebalanceDatabase_def by (intro guards_intros)
qed




lemma fence_trans: "ownerFenceMatches (Some a) (Some b) \<Longrightarrow> ownerFenceMatches (Some b) (Some c) \<Longrightarrow> ownerFenceMatches (Some a) (Some c)"
  by (auto simp: ownerFenceMatches_def split: jsval.split_asm elim: num_eq.elims)










section \<open>The cache of observed owners\<close>

text \<open>The calls of all requests of the process in the order they happen, each with the local clock.\<close>

fun d1_calls :: "d1_env \<Rightarrow> (rat \<times> string \<times> jsval list) list \<Rightarrow> d1_state \<Rightarrow> d1_state" where
  "d1_calls env [] s = s"
| "d1_calls env ((now, f, args) # calls) s = d1_calls env calls (snd (d1_local env now f args s))"

text \<open>
  An entry is backed by a call when the call brought its owner with a time of the server, and the
  entry ends, on the local clock, before the lease does and before the time to live is over.
\<close>

definition backed :: "d1_env \<Rightarrow> (rat \<times> string \<times> jsval list) list \<Rightarrow> string \<Rightarrow> observed_entry \<Rightarrow> bool" where
  "backed env calls k e \<longleftrightarrow> dbKey_of (oe_owner e) = k
     \<and> (\<exists>now0 args t lease. (now0, ''rememberObservedOwner'', args) \<in> set calls \<and> args ! 0 = oe_owner e \<and> num_arg (args ! 1) = Some t
        \<and> lease_number (jget (oe_owner e) ''leaseExpiresAt'') = Fin lease \<and> of_int t < lease
        \<and> oe_expiresAt e \<le> now0 + e_observedOwnerTtlMs env \<and> oe_expiresAt e \<le> now0 + (lease - of_int t))"

definition cache_inv :: "d1_env \<Rightarrow> (rat \<times> string \<times> jsval list) list \<Rightarrow> d1_state \<Rightarrow> bool" where
  "cache_inv env calls s \<longleftrightarrow> omap_wf (d_observedD1Owners s) \<and> length (d_observedD1Owners s) \<le> e_observedOwnerMaxEntries env
     \<and> (\<forall>k e. map_of (d_observedD1Owners s) k = Some e \<longrightarrow> backed env calls k e)"

lemma backed_mono: "backed env calls k e \<Longrightarrow> set calls \<subseteq> set calls' \<Longrightarrow> backed env calls' k e"
  unfolding backed_def by blast

lemma backed_Cons: "backed env calls k e \<Longrightarrow> backed env (c # calls) k e"
  by (erule backed_mono) auto

lemma cache_inv_delete:
  "cache_inv env calls s \<Longrightarrow> set calls \<subseteq> set calls' \<Longrightarrow> cache_inv env calls' (forgetObservedOwner k s)"
  using length_omap_delete [of k "d_observedD1Owners s"] backed_mono
  by (fastforce simp: cache_inv_def forgetObservedOwner_def split: if_split_asm)

lemma cache_inv_other:
  "cache_inv env calls s \<Longrightarrow> set calls \<subseteq> set calls' \<Longrightarrow> d_observedD1Owners s' = d_observedD1Owners s \<Longrightarrow> cache_inv env calls' s'"
  using backed_mono by (fastforce simp: cache_inv_def)

lemma trim_oldest_inv:
  "omap_wf m \<Longrightarrow> omap_wf (trim_oldest n m) \<and> length (trim_oldest n m) \<le> n
    \<and> (\<forall>k e. map_of (trim_oldest n m) k = Some e \<longrightarrow> map_of m k = Some e)"
proof (induction n m rule: trim_oldest.induct)
  case (1 n m)
  show ?case
  proof (cases "length m > n")
    case True
    then obtain k v m' where m: "m = (k, v) # m'" by (cases m) auto
    with True have trim: "trim_oldest n m = trim_oldest n (omap_delete k m)" by (subst trim_oldest.simps) simp
    from 1(1) [OF True m refl] 1(2) show ?thesis unfolding trim by (fastforce split: if_split_asm)
  qed (use 1(2) in \<open>simp add: trim_oldest.simps\<close>)
qed

lemma remember_inv:
  assumes "cache_inv env calls s"
  shows "cache_inv env ((now, ''rememberObservedOwner'', args) # calls) (rememberObservedOwner env now (Some (args ! 0)) (num_arg (args ! 1)) s)"
proof -
  let ?r = "args ! 0" and ?calls = "(now, ''rememberObservedOwner'', args) # calls"
  have forget: "cache_inv env ?calls (forgetObservedOwner k s)" "cache_inv env ?calls s" for k
    using assms by (auto intro: cache_inv_delete cache_inv_other)
  show ?thesis
  proof (cases "\<exists>t lease. num_arg (args ! 1) = Some t \<and> lease_number (jget ?r ''leaseExpiresAt'') = Fin lease \<and> \<not> ownerLeaseExpired (Some ?r) t")
    case False
    then have "rememberObservedOwner env now (Some ?r) (num_arg (args ! 1)) s \<in> {s, forgetObservedOwner (dbKey_of ?r) s}"
      by (auto simp: rememberObservedOwner_def split: option.split jsnum.split)
    with forget show ?thesis by auto
  next
    case True
    then obtain t lease where t: "num_arg (args ! 1) = Some t" "lease_number (jget ?r ''leaseExpiresAt'') = Fin lease" "of_int t < lease"
      by (auto simp: ownerLeaseExpired_def leaseExpiresAt_of_def num_le_def)
    let ?e = "\<lparr>oe_owner = ?r, oe_expiresAt = min (now + e_observedOwnerTtlMs env) (now + max 0 (lease - of_int t))\<rparr>"
    let ?m = "omap_set (dbKey_of ?r) ?e (omap_delete (dbKey_of ?r) (d_observedD1Owners s))"
    have "backed env ?calls (dbKey_of ?r) ?e" using t unfolding backed_def by (intro conjI exI [of _ now] exI [of _ args]) auto
    moreover have "backed env ?calls k e" if "map_of (d_observedD1Owners s) k = Some e" for k e
      using assms that by (auto simp: cache_inv_def intro: backed_Cons)
    ultimately have m: "backed env ?calls k e" if "map_of ?m k = Some e" for k e
      using that by (auto split: if_split_asm)
    have "omap_wf ?m" using assms by (simp add: cache_inv_def)
    note trim = trim_oldest_inv [OF this, of "e_observedOwnerMaxEntries env"]
    have "cache_inv env ?calls (s\<lparr>d_observedD1Owners := trim_oldest (e_observedOwnerMaxEntries env) ?m\<rparr>)"
      using trim m by (simp add: cache_inv_def del: map_of_omap_set)
    moreover have "rememberObservedOwner env now (Some ?r) (num_arg (args ! 1)) s
        \<in> {s, forgetObservedOwner (dbKey_of ?r) s, s\<lparr>d_observedD1Owners := trim_oldest (e_observedOwnerMaxEntries env) ?m\<rparr>}"
      unfolding rememberObservedOwner_def t by (simp add: t Let_def)
    ultimately show ?thesis using forget by auto
  qed
qed

lemma cached_inv:
  assumes "cache_inv env calls s"
  shows "cache_inv env (c # calls) (snd (cachedObservedOwner env now identity task refresh s))"
proof -
  let ?k = "dbKey_of identity" and ?m = "d_observedD1Owners s"
  have "length (omap_set k e (omap_delete k m)) = length m" if "map_of m k = Some e" "omap_wf m" for k e and m :: "(string, observed_entry) omap"
  proof -
    from that have "length (filter (\<lambda>(k', _). k' = k) m) = 1"
      by (induction m) (auto simp: omap_wf_def filter_empty_conv rev_image_eqI split: if_split_asm)
    moreover have "length m = length (filter (\<lambda>(k', _). k' = k) m) + length (omap_delete k m)"
      unfolding omap_delete_def by (induction m) auto
    ultimately show ?thesis by (simp add: length_omap_set)
  qed
  then have "cache_inv env (c # calls) (s'\<lparr>d_observedD1Owners := omap_set ?k e (omap_delete ?k ?m)\<rparr>)" if "map_of ?m ?k = Some e" for e s'
    using that assms by (auto simp: cache_inv_def intro: backed_Cons split: if_split_asm)
  then show ?thesis
    using cache_inv_delete [OF assms, of "c # calls" ?k] cache_inv_other [OF assms, of "c # calls"]
    by (auto simp: cachedObservedOwner_def Let_def rememberOwner_def forgetOwnedDb_def split: option.split)
qed

lemma local_inv:
  assumes "cache_inv env calls s"
  shows "cache_inv env ((now, f, args) # calls) (snd (d1_local env now f args s))"
proof -
  define cs where "cs = (now, f, args) # calls"
  have other: "cache_inv env cs s'" if "d_observedD1Owners s' = d_observedD1Owners s" for s'
    by (rule cache_inv_other [OF assms _ that]) (auto simp: cs_def)
  have forget: "cache_inv env cs (forgetObservedOwner k s)" for k by (rule cache_inv_delete [OF assms]) (auto simp: cs_def)
  have remember: "f = ''rememberObservedOwner'' \<Longrightarrow> cache_inv env cs (rememberObservedOwner env now (Some (args ! 0)) (num_arg (args ! 1)) s)"
    using remember_inv [OF assms] by (simp add: cs_def)
  obtain x s' where x: "cachedObservedOwner env now (args ! 0) (str_of (args ! 1)) (args ! 2 = JBool True) s = (x, s')" by fastforce
  with cached_inv [OF assms, of "(now, f, args)" now "args ! 0" "str_of (args ! 1)" "args ! 2 = JBool True"]
  have "cache_inv env cs (snd (case x of Inl e \<Rightarrow> (Failed e, s') | Inr None \<Rightarrow> (Value JNull, s') | Inr (Some r) \<Rightarrow> (Value r, s')))"
    by (simp add: cs_def split: sum.split option.split)
  moreover have "cache_inv env cs (rememberOwner (args ! 0) s)" "cache_inv env cs (forgetOwnedDb k s)" "cache_inv env cs s" for k
    by (rule other, simp add: rememberOwner_def forgetOwnedDb_def)+
  ultimately have "cache_inv env cs (snd (d1_local env now f args s))"
    using remember forget unfolding d1_local_def x prod.case by simp
  then show ?thesis by (simp add: cs_def)
qed

lemma calls_inv: "cache_inv env before s \<Longrightarrow> cache_inv env (rev calls @ before) (d1_calls env calls s)"
  by (induction env calls s arbitrary: before rule: d1_calls.induct) (auto dest: local_inv)

section \<open>Properties\<close>

lemma registry_guarded:
  assumes "ownerMatchesScope (Some identity) dbKey"
    and "outcome (resolveDbOwner fuel env identity refresh) tr r \<or> outcome (takeoverExpiredOwner fuel env identity) tr r
      \<or> (\<exists>r'. outcome (rebalanceDatabase env identity target) tr r')"
  shows "guarded (d1_write env dbKey) v tr"
proof -
  have "guards (d1_write env dbKey) (takeoverExpiredOwner fuel env identity)"
    unfolding takeoverExpiredOwner_def by (intro guards_takeover guards_resolve assms(1))
  with guards_resolve [OF assms(1)] guards_rebalance [OF assms(1)] assms(2) show ?thesis
    unfolding guards_def always_def by blast
qed


text \<open>
  C6: the transactions of the registry refine the ownership protocol. When the database holds
  the values the session has seen under watch, which is when Redis commits the transaction, its
  commands take the two keys of the database through steps of the protocol.
\<close>

theorem registry_refines:
  assumes "ownerMatchesScope (Some identity) dbKey"
    and "outcome (resolveDbOwner fuel env identity refresh) tr r \<or> outcome (takeoverExpiredOwner fuel env identity) tr r
      \<or> (\<exists>r'. outcome (rebalanceDatabase env identity target) tr r')"
    and "tr = before @ (Transaction cmds, a) # after" "agrees_with (foldl view_after blind before) m"
  shows "\<exists>claims'. (owner_step (parseOwner (e_url env) dbKey))\<^sup>*\<^sup>* (store_of (d1_keys dbKey) m claims)
    (store_of (d1_keys dbKey) (exec_cmds cmds m) claims')"
proof -
  have "d1_write env dbKey (foldl view_after blind before) cmds"
    using registry_guarded [OF assms(1,2), of blind] assms(3) by (simp add: guarded_append)
  from d1.write_refines [OF keys_differ(2) this assms(4)] show ?thesis .
qed

definition sample_env :: d1_env where
  "sample_env = \<lparr>e_vars = JObj [], e_url = sample_url, e_observedOwnerTtlMs = 30000, e_observedOwnerMaxEntries = 2,
     e_ownerLeaseGuardMs = 1000\<rparr>"

definition sample_db :: jsval where
  "sample_db = JObj [(''namespace'', JStr ''acme''), (''databaseId'', JStr ''main''), (''dbKey'', JStr ''acme:main''), (''slot'', JNum (num 7))]"

definition sample_task :: jsval where
  "sample_task = JObj [(''taskId'', JStr ''t1''), (''endpoint'', JStr ''10.0.3.7:8787'')]"

definition claim_replies :: "reply list" where
  "claim_replies = [Value sample_task, Value JNull, Many [NoReply, Many [Text ''5'', Text ''0'']], Value (JBool False), Text ''OK'',
     Many [NoReply, NoReply, Many [Text ''5'', Text ''0'']], Many [], NoReply, NoReply]"


text \<open>A database where the claim of the sample run commits: both keys are absent.\<close>

theorem registry_refines_witness:
  "\<exists>before cmds (a :: reply) claims'. (Transaction cmds, a) \<in> set before \<and> length cmds = 2
    \<and> (owner_step (parseOwner sample_url ''acme:main''))\<^sup>*\<^sup>* (store_of (d1_keys ''acme:main'') Map.empty [])
        (store_of (d1_keys ''acme:main'') (exec_cmds cmds Map.empty) claims')"
proof -
  obtain tr x where run: "run_io (resolveDbOwner 1 sample_env sample_db False) claim_replies = Some (tr, Ok x)"
    and tx: "case tr ! 6 of (Transaction cmds, _) \<Rightarrow> length cmds = 2 | _ \<Rightarrow> False" "6 < length tr"
    and seen: "list_all (\<lambda>(k, x). x = None) (v_reads (foldl view_after blind (take 6 tr)))"
  proof -
    have "(case run_io (resolveDbOwner 1 sample_env sample_db False) claim_replies of
        Some (tr, Inr x) \<Rightarrow> (case tr ! 6 of (Transaction cmds, _) \<Rightarrow> length cmds = 2 | _ \<Rightarrow> False) \<and> 6 < length tr
          \<and> list_all (\<lambda>(k, x). x = None) (v_reads (foldl view_after blind (take 6 tr))) | _ \<Rightarrow> False)"
      by code_simp
    then show ?thesis using that by (auto split: option.split_asm prod.split_asm sum.split_asm)
  qed
  from tx(1) obtain cmds a where q: "tr ! 6 = (Transaction cmds, a)" "length cmds = 2"
    by (auto split: prod.split_asm req.split_asm)
  have split: "tr = take 6 tr @ (Transaction cmds, a) # drop 7 tr" using id_take_nth_drop [OF tx(2)] q(1) by simp
  have scope: "ownerMatchesScope (Some sample_db) ''acme:main''" by code_simp
  have "agrees_with (foldl view_after blind (take 6 tr)) Map.empty"
    using seen by (auto simp: agrees_with_def seen_def list_all_iff dest!: map_of_SomeD split: if_split_asm)
  from registry_refines [OF scope disjI1 [OF run_io_outcome [OF run]] split this, of "[]"] q(2) split
  show ?thesis by (metis (no_types, lifting) in_set_conv_decomp sample_env_def d1_env.select_convs(2))
qed


definition sample_owner :: "int \<Rightarrow> string \<Rightarrow> jsval" where
  "sample_owner g t = JObj [(''namespace'', JStr ''acme''), (''databaseId'', JStr ''main''), (''dbKey'', JStr ''acme:main''),
     (''slot'', JNum (num 7)), (''taskId'', JStr t), (''endpoint'', JStr ''10.0.3.7:8787''),
     (''generation'', JNum (num g)), (''leaseExpiresAt'', JNum (num 125000))]"

lemma sample_storable:
  assumes "0 < g" "isSafeInt g"
  shows "storable (sample_owner g t)" "generation_of (sample_owner g t) = g" "jget (sample_owner g t) ''taskId'' = JStr t"
proof -
  have "positive_generation (JNum (num g))" using assms by (simp add: positive_generation_def num_le_num [of g 0, simplified])
  then have "parseOwnerRecord (Some (stringify (sample_owner g t))) = Some (sample_owner g t)"
    unfolding sample_owner_def by (intro parse_stored_record) (simp_all add: lease_field_ok_def)
  then show "storable (sample_owner g t)" by (simp add: storable_def sample_owner_def)
qed (simp_all add: sample_owner_def generation_of_def)


text \<open>
  C38: a record the registry writes is one it accepts: for a database and a task with a valid
  endpoint, the stored text parses back to the record, it carries the generation and the task,
  and its lease ends after the time of the server that was read, at most the configured seconds later.
\<close>

theorem owner_record_round_trip:
  assumes "ownerMatchesScope (Some identity) dbKey" "0 < generation" "isSafeInt generation" "t_taskId target \<noteq> []"
    and "ownerRecordFor env identity generation target now = Ok r"
  shows "parseOwner (e_url env) dbKey (Some (stringify r)) = Ok (Some r)
    \<and> fence_of r = (generation, JStr (t_taskId target))
    \<and> (\<exists>lease. jget r ''leaseExpiresAt'' = JNum (num lease) \<and> isSafeInt lease \<and> lease \<le> now + ownerTtlSeconds env * 1000
        \<and> (now < lease \<or> now = MAX_SAFE_INTEGER))"
proof -
  from assms(5) obtain lease where lease: "ownerLeaseExpiresAt now (ownerTtlSeconds env) = Ok lease"
    and r: "jget r ''leaseExpiresAt'' = JNum (num lease)"
    by (auto simp: ownerRecordFor_def bind_result_eq_Inr split: if_split_asm)
  have "isSafeInt now" using lease by (auto simp: ownerLeaseExpiresAt_def split: if_split_asm)
  then have "now < lease \<or> now = MAX_SAFE_INTEGER" using lease_range(1) [OF lease] by (auto simp: isSafeInt_def)
  then show ?thesis
    using owner_record [OF assms(1-3,5)] assms(4) lease_range(2) [OF lease] r by auto
qed

theorem owner_record_round_trip_witness:
  "\<exists>r. ownerRecordFor sample_env sample_db 3 \<lparr>t_taskId = ''t1'', t_endpoint = ''10.0.3.7:8787''\<rparr> 5000 = Ok r
    \<and> parseOwner (e_url sample_env) ''acme:main'' (Some (stringify r)) = Ok (Some r) \<and> fence_of r = (3, JStr ''t1'')"
proof -
  let ?t = "\<lparr>t_taskId = ''t1'', t_endpoint = ''10.0.3.7:8787''\<rparr>"
  have scope: "ownerMatchesScope (Some sample_db) ''acme:main''" by code_simp
  have "(case ownerRecordFor sample_env sample_db 3 ?t 5000 of Inr r \<Rightarrow> True | _ \<Rightarrow> False)" by code_simp
  then obtain r where r: "ownerRecordFor sample_env sample_db 3 ?t 5000 = Ok r" by (auto split: sum.split_asm)
  from owner_record_round_trip [OF scope _ _ _ r] show ?thesis using r by (auto simp: isSafeInt_def MAX_SAFE_INTEGER_def)
qed


text \<open>
  C15: the cache of observed owners is sound on the local clock. After any sequence of calls on
  an empty cache, an owner the cache returns was brought by a call that had read it with a time
  of the server, and by the local clock neither its lease nor the time to live has run out since;
  the cache never holds more entries than configured.
\<close>

theorem cached_within_lease:
  assumes "d_observedD1Owners s0 = []" and "s = d1_calls env calls s0"
    and "fst (cachedObservedOwner env now identity task refresh s) = Ok (Some r)"
  shows "(\<exists>now0 args t lease. (now0, ''rememberObservedOwner'', args) \<in> set calls \<and> args ! 0 = r \<and> num_arg (args ! 1) = Some t
      \<and> dbKey_of r = dbKey_of identity \<and> lease_number (jget r ''leaseExpiresAt'') = Fin lease
      \<and> of_int t + (now - now0) < lease \<and> now < now0 + e_observedOwnerTtlMs env)
    \<and> length (d_observedD1Owners s) \<le> e_observedOwnerMaxEntries env"
proof -
  have "cache_inv env [] s0" using assms(1) by (simp add: cache_inv_def)
  from calls_inv [OF this, of calls] have inv: "cache_inv env (rev calls) s" by (simp add: assms(2))
  from assms(3) obtain e where e: "map_of (d_observedD1Owners s) (dbKey_of identity) = Some e" "now < oe_expiresAt e" "oe_owner e = r"
    by (auto simp: cachedObservedOwner_def Let_def split: if_split_asm option.split_asm)
  with inv have "backed env (rev calls) (dbKey_of identity) e" by (simp add: cache_inv_def)
  with e inv show ?thesis by (force simp: backed_def cache_inv_def)
qed

definition sample_calls :: "(rat \<times> string \<times> jsval list) list" where
  "sample_calls = [(10, ''rememberObservedOwner'', [sample_owner 1 ''t1'', JNum (num 100000)])]"

definition sample_state :: d1_state where
  "sample_state = \<lparr>d_ownedDbs = [], d_observedD1Owners = [], d_storageSizeByDb = [], d_draining = False\<rparr>"

theorem cached_within_lease_witness:
  "fst (cachedObservedOwner sample_env 25009 sample_db ''t2'' False (d1_calls sample_env sample_calls sample_state)) = Ok (Some (sample_owner 1 ''t1''))
   \<and> (\<exists>now0 t. of_int t + (25009 - now0) < (125000 :: rat) \<and> 25009 < now0 + e_observedOwnerTtlMs sample_env)
   \<and> length (d_observedD1Owners (d1_calls sample_env sample_calls sample_state)) \<le> e_observedOwnerMaxEntries sample_env"
proof -
  have hit: "fst (cachedObservedOwner sample_env 25009 sample_db ''t2'' False (d1_calls sample_env sample_calls sample_state)) = Ok (Some (sample_owner 1 ''t1''))"
    by code_simp
  have "d_observedD1Owners sample_state = []" by (simp add: sample_state_def)
  note res = cached_within_lease [OF this refl hit]
  have lease: "lease_number (jget (sample_owner 1 ''t1'') ''leaseExpiresAt'') = Fin 125000" by (simp add: sample_owner_def lease_number_def)
  from res obtain now0 t where "of_int t + (25009 - now0) < (125000 :: rat)" "25009 < now0 + e_observedOwnerTtlMs sample_env"
    unfolding lease by blast
  with res hit show ?thesis by blast
qed

lemma sample_parse: "parseOwner sample_url ''acme:main'' (Some (stringify (sample_owner 1 ''t1''))) = Ok (Some (sample_owner 1 ''t1''))"
proof -
  have safe: "isSafeInt 1" by code_simp
  have "ownerMatchesScope (Some (sample_owner 1 ''t1'')) ''acme:main''"
    "validOwnerEndpointForService sample_url (JStr ''10.0.3.7:8787'') D1_OWNER_PORT ''d1-runtime'' = Ok True" by code_simp+
  moreover have "jget (sample_owner 1 ''t1'') ''endpoint'' = JStr ''10.0.3.7:8787''" by (simp add: sample_owner_def)
  ultimately show ?thesis
    using sample_storable [of 1 "''t1''"] safe unfolding parseOwner_def by (simp add: storable_def)
qed


text \<open>The declared type of an owner, \<open>D1Owner\<close>, of the database with the given key.\<close>

definition D1Owner :: "string \<Rightarrow> jsval \<Rightarrow> bool" where
  "D1Owner k r \<longleftrightarrow> (\<exists>ns db slot task endpoint g.
     jget r ''namespace'' = JStr ns \<and> jget r ''databaseId'' = JStr db \<and> jget r ''dbKey'' = JStr k \<and> jget r ''slot'' = JNum (num slot)
     \<and> jget r ''taskId'' = JStr task \<and> jget r ''endpoint'' = JStr endpoint \<and> jget r ''generation'' = JNum (num g)
     \<and> k = ns @ '':'' @ db \<and> CHR '':'' \<notin> set ns \<and> 0 \<le> slot \<and> isSafeInt slot \<and> task \<noteq> [] \<and> 0 < g \<and> isSafeInt g
     \<and> lease_field_ok (jget r ''leaseExpiresAt''))"

lemma scope_typed:
  assumes "ownerMatchesScope (Some r) k"
  obtains ns db slot where "jget r ''namespace'' = JStr ns" "jget r ''databaseId'' = JStr db" "jget r ''dbKey'' = JStr k"
    "jget r ''slot'' = JNum (num slot)" "k = ns @ '':'' @ db" "CHR '':'' \<notin> set ns" "0 \<le> slot" "isSafeInt slot"
proof -
  from assms obtain ns db n where r: "jget r ''namespace'' = JStr ns" "jget r ''databaseId'' = JStr db" "jget r ''dbKey'' = JStr k"
      "jget r ''slot'' = JNum n" "isSafeInteger n" "\<not> num_lt n (num 0)" "dbKeyOf (JStr ns) (JStr db) = Ok k"
    by (auto simp: ownerMatchesScope_def is_string_iff split: jsval.split_asm)
  from r(5) obtain slot where slot: "n = num slot" "isSafeInt slot" by (rule isSafeInteger_cases)
  have "0 \<le> slot" using r(6) unfolding slot(1) by simp
  moreover from r(7) have "k = ns @ '':'' @ db" "CHR '':'' \<notin> set ns"
    by (auto simp: dbKeyOf_def clean_def delimiters_def dest!: runtime_load_ns_clean split: if_split_asm)
  ultimately show thesis using that r slot by blast
qed

text \<open>
  C40: what the cast of a parsed record to \<open>D1Owner\<close> relies on: every field an owner is used
  for has its declared type and range, and the key is the one of its namespace and database.
\<close>

theorem parsed_owner_typed:
  assumes "parseOwner url k (Some raw) = Ok owner"
  shows "\<exists>r. owner = Some r \<and> D1Owner k r"
proof -
  from assms obtain r where r: "owner = Some r" "parseOwnerRecord (Some raw) = Some r" "ownerMatchesScope (Some r) k"
    "validOwnerEndpointForService url (jget r ''endpoint'') D1_OWNER_PORT ''d1-runtime'' = Ok True"
    by (rule parseOwner_Some)
  from assms r(1,2) obtain task where "jget r ''taskId'' = JStr task" "task \<noteq> []"
    by (auto simp: parseOwner_def is_string_iff split: if_split_asm jsval.split_asm)
  moreover from r(4) obtain endpoint where "jget r ''endpoint'' = JStr endpoint"
    by (auto simp: validOwnerEndpointForService_def is_string_iff split: if_split_asm jsval.split_asm)
  moreover have "lease_field_ok (jget r ''leaseExpiresAt'')"
    using r(2) by (auto simp: parseOwnerRecord_def split: option.split_asm if_split_asm jsval.split_asm)
  moreover note parsed_generation [OF r(2)]
  moreover from r(3) obtain ns db slot where "jget r ''namespace'' = JStr ns" "jget r ''databaseId'' = JStr db" "jget r ''dbKey'' = JStr k"
      "jget r ''slot'' = JNum (num slot)" "k = ns @ '':'' @ db" "CHR '':'' \<notin> set ns" "0 \<le> slot" "isSafeInt slot"
    by (rule scope_typed)
  ultimately have "D1Owner k r" unfolding D1Owner_def by blast
  with r(1) show ?thesis by simp
qed

theorem parsed_owner_typed_witness: "D1Owner ''acme:main'' (sample_owner 1 ''t1'')"
  using parsed_owner_typed [OF sample_parse] by simp

end
