(* ===== verification/Do_Registry.thy ===== *)
theory Do_Registry
  imports Owner_Writes Owner_Endpoint Ns_Pattern Worker_Contract
begin

text \<open>
  The owner registry of the Durable Object runtime, \<open>do-runtime/owner-registry.js\<close>, with the host
  identities of \<open>do-runtime/protocol/identity.js\<close> and \<open>wire-grammar.js\<close>. A host shard of a
  Durable Object class is owned by one task under the ownership protocol; a claim or renewal also
  depends on the delete lock, the storage pointer and the session policy of the worker, which are
  read in the same snapshot. The map \<open>ownedScopes\<close> of \<open>do-runtime/state.js\<close> is the record
  \<open>do_state\<close>, the calls on it are requests interpreted by \<open>do_local\<close>. The lease guard (a number
  of the environment read through \<open>Number\<close>) and the URL parser are fields of \<open>do_env\<close>. Metrics
  and log lines are left out, and so is \<open>renewOwnedScopes\<close>, the loop over the owned scopes.
\<close>

section \<open>Host identities\<close>

definition MAX_ID_BYTES :: nat where "MAX_ID_BYTES = 512"

definition CLASS_NAME_RE :: rx where
  "CLASS_NAME_RE = RSeq (Cls cls_js_start) (RStar (Cls cls_js_part))"

definition cls_storage :: ranges where
  "cls_storage = az @ d09 @ one CHR ''_'' @ one CHR ''-''"

definition STORAGE_ID_RE :: rx where
  "STORAGE_ID_RE = RPlus (Cls cls_storage)"

definition HOST_ID_RE :: rx where
  "HOST_ID_RE = RSeq STORAGE_ID_RE (RSeq (RCh CHR '':'') (RSeq CLASS_NAME_RE (RSeq (RLit '':shard'') OWNER_GENERATION_COUNTER)))"

definition DO_HOST_SHARD_COUNT :: int where "DO_HOST_SHARD_COUNT = 16"

text \<open>Strings are sequences of code units below 256, so every one of them is well-formed Unicode.\<close>

definition requireIdentityString :: "jsval \<Rightarrow> rx option \<Rightarrow> unit result" where
  "requireIdentityString v pattern =
     (if \<not> is_string v \<or> str_of v = [] then Throw (CodedError 400 ''invalid_request'')
      else if utf8ByteLength (str_of v) > MAX_ID_BYTES then Throw (CodedError 400 ''invalid_request'')
      else if list_ex (\<lambda>c. (of_char c :: nat) < 32 \<or> c = CHR 0x7F) (str_of v) then Throw (CodedError 400 ''invalid_request'')
      else case pattern of
        None \<Rightarrow> Ok ()
      | Some re \<Rightarrow> if rx_test re (str_of v) then Ok () else Throw (CodedError 400 ''invalid_request''))"

definition doHostShardForObjectName :: "string \<Rightarrow> int \<Rightarrow> int" where
  "doHostShardForObjectName objectName shardCount = int (unat (fnv1a32Utf8 objectName)) mod shardCount"

definition formatDoOwnerShardKey :: "string \<Rightarrow> string \<Rightarrow> int \<Rightarrow> string" where
  "formatDoOwnerShardKey doStorageId className shard = doStorageId @ '':'' @ className @ '':shard'' @ show_int shard"

definition shardForObjectName :: "jsval \<Rightarrow> int \<Rightarrow> int result" where
  "shardForObjectName objectName shardCount =
     bind_result (requireIdentityString objectName None) (\<lambda>_.
       if shardCount \<le> 0 then Throw (CodedError 500 ''invalid_shard_count'')
       else Ok (doHostShardForObjectName (str_of objectName) shardCount))"

text \<open>A shard is \<open>None\<close> when \<open>Number\<close> did not give an integer.\<close>

definition hostIdForShard :: "jsval \<Rightarrow> jsval \<Rightarrow> int option \<Rightarrow> string result" where
  "hostIdForShard doStorageId className shard =
     (case shard of
        None \<Rightarrow> Throw (CodedError 400 ''invalid_request'')
      | Some parsed \<Rightarrow>
          if parsed < 0 \<or> parsed \<ge> DO_HOST_SHARD_COUNT then Throw (CodedError 400 ''invalid_request'')
          else bind_result (requireIdentityString doStorageId (Some STORAGE_ID_RE)) (\<lambda>_.
            bind_result (requireIdentityString className (Some CLASS_NAME_RE)) (\<lambda>_.
              let hostId = formatDoOwnerShardKey (str_of doStorageId) (str_of className) parsed in
              bind_result (requireIdentityString (JStr hostId) (Some HOST_ID_RE)) (\<lambda>_. Ok hostId))))"

definition hostIdForObject :: "jsval \<Rightarrow> jsval \<Rightarrow> jsval \<Rightarrow> string result" where
  "hostIdForObject doStorageId className objectName =
     bind_result (shardForObjectName objectName DO_HOST_SHARD_COUNT) (\<lambda>shard. hostIdForShard doStorageId className (Some shard))"

definition buildOwnerKey :: "jsval \<Rightarrow> string" where
  "buildOwnerKey invoke = str_of (jget invoke ''hostId'')"

section \<open>Configuration and keys\<close>

record do_env =
  do_vars :: jsval
  do_url :: url_parser
  do_ownerLeaseGuardMs :: rat

record do_task =
  dt_taskId :: string
  dt_endpoint :: string

definition DO_OWNER_SCOPE_PREFIX :: string where "DO_OWNER_SCOPE_PREFIX = ''do:owner:scope:''"

definition DEFAULT_OWNER_TTL_SECONDS :: int where "DEFAULT_OWNER_TTL_SECONDS = 120"

definition OWNER_CLAIM_RETRIES :: nat where "OWNER_CLAIM_RETRIES = 3"

definition DO_OWNER_PORT :: int where "DO_OWNER_PORT = 8788"

definition RENEW_OWNER_WITH_STORAGE_FENCE_SCRIPT :: string where
  "RENEW_OWNER_WITH_STORAGE_FENCE_SCRIPT =
     join (CHR 0x0A)
      ['''',
       ''local owner = redis.call('' @ [CHR 0x22] @ ''GET'' @ [CHR 0x22] @ '', KEYS[1])'',
       ''if owner ~= ARGV[1] then'', ''  return 0'', ''end'',
       ''local storage_id = redis.call('' @ [CHR 0x22] @ ''GET'' @ [CHR 0x22] @ '', KEYS[2])'',
       ''if storage_id ~= ARGV[2] then'', ''  return -1'', ''end'',
       ''redis.call('' @ [CHR 0x22] @ ''SET'' @ [CHR 0x22] @ '', KEYS[1], ARGV[3], '' @ [CHR 0x22] @ ''EX'' @ [CHR 0x22] @ '', ARGV[4])'',
       ''return 1'', '''']"

definition ownerTtlSeconds :: "do_env \<Rightarrow> int" where
  "ownerTtlSeconds env = ownerTtlSecondsEnv (do_vars env) ''DO_OWNER_TTL_SECONDS'' DEFAULT_OWNER_TTL_SECONDS"

definition do_keys :: "string \<Rightarrow> owner_keys" where
  "do_keys k = ownerProtocolKeys DO_OWNER_SCOPE_PREFIX k"

definition ownerKeyOf :: "string \<Rightarrow> string" where
  "ownerKeyOf k = ownerKey (do_keys k)"

definition ownerGenerationKeyOf :: "string \<Rightarrow> string" where
  "ownerGenerationKeyOf k = generationKey (do_keys k)"

section \<open>Scopes and owner records\<close>

definition isValidBundleScope :: "jsval \<Rightarrow> bool" where
  "isValidBundleScope v \<longleftrightarrow> isValidRuntimeLoadNs (jget v ''ns'') \<and> is_string (jget v ''worker'')
     \<and> rx_test WORKER_NAME_RE (str_of (jget v ''worker''))"

definition isValidStorageScope :: "jsval \<Rightarrow> bool" where
  "isValidStorageScope v \<longleftrightarrow> isValidBundleScope v \<and> is_string (jget v ''doStorageId'') \<and> str_of (jget v ''doStorageId'') \<noteq> []"

definition requireInvokeScope :: "jsval \<Rightarrow> jsval result" where
  "requireInvokeScope invoke =
     (if \<not> is_string (jget invoke ''hostId'') \<or> str_of (jget invoke ''hostId'') = [] \<or> \<not> isValidBundleScope invoke
         \<or> \<not> is_string (jget invoke ''doStorageId'') \<or> str_of (jget invoke ''doStorageId'') = []
      then Throw (CodedError 400 ''invalid_request'')
      else Ok (JObj [(''hostId'', jget invoke ''hostId''),
        (''className'', if is_string (jget invoke ''className'') then jget invoke ''className'' else JUndef),
        (''ns'', jget invoke ''ns''), (''worker'', jget invoke ''worker''), (''doStorageId'', jget invoke ''doStorageId'')]))"

definition shard_marker :: string where "shard_marker = '':shard''"

text \<open>
  \<open>lastIndexOf\<close>, and the shard after the marker. \<open>Number\<close> accepts more texts than digits, but a
  shard is only used to format the key again, and no other text is the canonical form of a number.
\<close>

definition last_index_of :: "string \<Rightarrow> string \<Rightarrow> nat option" where
  "last_index_of s m =
     (case filter (\<lambda>i. starts_with (drop i s) m) [0..<length s] of [] \<Rightarrow> None | is \<Rightarrow> Some (last is))"

definition shard_number :: "string \<Rightarrow> int option" where
  "shard_number s = (if s \<noteq> [] \<and> list_all is_digit s then Some (int (digits_val s)) else None)"

definition ownerMatchesScope :: "jsval option \<Rightarrow> string \<Rightarrow> jsval option \<Rightarrow> bool" where
  "ownerMatchesScope owner expectedOwnerKey expectedBundleScope =
     (case owner of
        None \<Rightarrow> False
      | Some r \<Rightarrow>
          jget r ''ownerKey'' = JStr expectedOwnerKey \<and> jget r ''hostId'' = JStr expectedOwnerKey
          \<and> is_string (jget r ''className'') \<and> str_of (jget r ''className'') \<noteq> []
          \<and> isValidBundleScope r \<and> is_string (jget r ''doStorageId'') \<and> str_of (jget r ''doStorageId'') \<noteq> []
          \<and> (case expectedBundleScope of
               None \<Rightarrow> True
             | Some e \<Rightarrow> isValidBundleScope e \<and> jget r ''ns'' = jget e ''ns'' \<and> jget r ''worker'' = jget e ''worker'')
          \<and> (case last_index_of expectedOwnerKey shard_marker of
               None \<Rightarrow> False
             | Some i \<Rightarrow>
                 (case hostIdForShard (jget r ''doStorageId'') (jget r ''className'')
                    (shard_number (drop (i + length shard_marker) expectedOwnerKey)) of
                    Inl _ \<Rightarrow> False
                  | Inr hostId \<Rightarrow> hostId = expectedOwnerKey)))"

definition parseOwner :: "url_parser \<Rightarrow> string \<Rightarrow> jsval option \<Rightarrow> owner_parser" where
  "parseOwner url expectedOwnerKey expectedBundleScope raw =
     (case raw of
        None \<Rightarrow> Ok None
      | Some s \<Rightarrow>
          (case parseOwnerRecord (Some s) of
             None \<Rightarrow> Throw (CodedError 503 ''owner_unavailable'')
           | Some r \<Rightarrow>
               if \<not> ownerMatchesScope (Some r) expectedOwnerKey expectedBundleScope
                  \<or> \<not> is_string (jget r ''taskId'') \<or> str_of (jget r ''taskId'') = []
               then Throw (CodedError 503 ''owner_unavailable'')
               else bind_result (validOwnerEndpointForService url (jget r ''endpoint'') DO_OWNER_PORT ''do-runtime'') (\<lambda>valid.
                 if valid then Ok (Some r) else Throw (CodedError 503 ''owner_unavailable''))))"

text \<open>Assignment to a property of an object; the invoke is returned with the fields that were set.\<close>

definition put :: "string \<Rightarrow> jsval \<Rightarrow> jsval \<Rightarrow> jsval" where
  "put k v x = (case x of JObj ps \<Rightarrow> JObj (omap_set k v ps) | _ \<Rightarrow> x)"

definition raw_value :: "string option \<Rightarrow> jsval" where
  "raw_value raw = (case raw of None \<Rightarrow> JNull | Some s \<Rightarrow> JStr s)"

definition applySessionPolicyFence :: "string option \<Rightarrow> jsval \<Rightarrow> bool \<Rightarrow> jsval result" where
  "applySessionPolicyFence raw invoke allowSupersededVersion =
     (case parseSessionPolicyProjection (raw_value raw) of
        Inl _ \<Rightarrow> Throw (CodedError 503 ''session_policy_state_invalid'')
      | Inr policy \<Rightarrow>
          let mode = (case policy of None \<Rightarrow> JStr SESSION_POLICY_PRESERVE | Some p \<Rightarrow> sp_mode p);
              restartSequence = (case policy of None \<Rightarrow> JNum (num 0) | Some p \<Rightarrow> sp_restartSequence p) in
          if \<not> allowSupersededVersion
             \<and> (case policy of None \<Rightarrow> False | Some p \<Rightarrow> sp_mode p = JStr SESSION_POLICY_RESTART \<and> sp_version p \<noteq> jget invoke ''version'')
          then Throw (CodedError 503 ''session_policy_version_stale'')
          else Ok (put ''restartSequence'' restartSequence (put ''sessionPolicy'' mode invoke)))"

definition ownerRecordFor :: "do_env \<Rightarrow> jsval \<Rightarrow> do_task \<Rightarrow> int \<Rightarrow> int \<Rightarrow> jsval result" where
  "ownerRecordFor env invoke localTask generation nowMs =
     bind_result (requireInvokeScope invoke) (\<lambda>scope.
     bind_result (ownerLeaseExpiresAt nowMs (ownerTtlSeconds env)) (\<lambda>lease.
       Ok (JObj [(''ownerKey'', jget scope ''hostId''), (''hostId'', jget scope ''hostId''), (''className'', jget scope ''className''),
         (''ns'', jget scope ''ns''), (''worker'', jget scope ''worker''), (''doStorageId'', jget scope ''doStorageId''),
         (''taskId'', JStr (dt_taskId localTask)), (''endpoint'', JStr (dt_endpoint localTask)),
         (''generation'', JNum (num generation)), (''leaseExpiresAt'', JNum (num lease))])))"

definition renewedOwnerRecordFor :: "do_env \<Rightarrow> jsval \<Rightarrow> do_task \<Rightarrow> int \<Rightarrow> jsval result" where
  "renewedOwnerRecordFor env current localTask nowMs =
     bind_result (ownerLeaseExpiresAt nowMs (ownerTtlSeconds env)) (\<lambda>lease.
       Ok (put ''leaseExpiresAt'' (JNum (num lease)) (put ''endpoint'' (JStr (dt_endpoint localTask))
         (put ''taskId'' (JStr (dt_taskId localTask)) current))))"

definition readOwnerFromClient :: "do_env \<Rightarrow> string \<Rightarrow> jsval option io" where
  "readOwnerFromClient env k = readOwnerRecord (ownerKeyOf k) (parseOwner (do_url env) k None)"

definition ownerStoragePointerMatches :: "string option \<Rightarrow> jsval option \<Rightarrow> bool" where
  "ownerStoragePointerMatches raw owner =
     (case owner of
        None \<Rightarrow> False
      | Some r \<Rightarrow> is_string (jget r ''doStorageId'') \<and> str_of (jget r ''doStorageId'') \<noteq> [] \<and> raw = Some (str_of (jget r ''doStorageId'')))"

definition deleteLockAllowsActiveStorage :: "string option \<Rightarrow> bool" where
  "deleteLockAllowsActiveStorage raw = (case raw of None \<Rightarrow> True | Some token \<Rightarrow> parseDeleteLockKind (JStr token) = Some VERSION_DELETE_LOCK_KIND)"

definition ownerHasStoragePointer :: "jsval option \<Rightarrow> bool" where
  "ownerHasStoragePointer owner =
     (case owner of None \<Rightarrow> False | Some r \<Rightarrow> truthy (jget r ''ns'') \<and> truthy (jget r ''worker'') \<and> truthy (jget r ''doStorageId''))"

text \<open>\<open>Number(owner?.leaseExpiresAt ?? 0)\<close>\<close>

definition lease_or_zero :: "jsval option \<Rightarrow> jsnum" where
  "lease_or_zero owner = (if nullish (leaseExpiresAt_of owner) then num 0 else lease_number (leaseExpiresAt_of owner))"

definition shouldRenewOwnerLease :: "do_env \<Rightarrow> jsval option \<Rightarrow> int \<Rightarrow> bool result" where
  "shouldRenewOwnerLease env owner now =
     (if \<not> isSafeInt now \<or> now < 0 then Throw JsError
      else Ok (case lease_or_zero owner of
          Fin lease \<Rightarrow> lease - of_int now \<le> of_int (ownerTtlSeconds env * 1000) / 2
        | NegInf \<Rightarrow> True
        | _ \<Rightarrow> False))"

section \<open>The state of the process\<close>

record do_state =
  s_ownedScopes :: "(string, jsval) omap"
  s_draining :: bool

abbreviation ownerKey_of :: "jsval \<Rightarrow> string" where
  "ownerKey_of r \<equiv> str_of (jget r ''ownerKey'')"

definition rememberOwner :: "jsval \<Rightarrow> do_state \<Rightarrow> do_state" where
  "rememberOwner owner s = s\<lparr>s_ownedScopes := omap_set (ownerKey_of owner) owner (s_ownedScopes s)\<rparr>"

definition forgetOwnedScope :: "string \<Rightarrow> do_state \<Rightarrow> do_state" where
  "forgetOwnedScope k s = s\<lparr>s_ownedScopes := omap_delete k (s_ownedScopes s)\<rparr>"

definition do_local :: "string \<Rightarrow> jsval list \<Rightarrow> do_state \<Rightarrow> reply \<times> do_state" where
  "do_local f args s =
     (if f = ''rememberOwner'' then (NoReply, rememberOwner (args ! 0) s)
      else if f = ''forgetOwnedScope'' then (NoReply, forgetOwnedScope (str_of (args ! 0)) s)
      else if f = ''isDraining'' then (Value (JBool (s_draining s)), s)
      else if f = ''ownedScopes.has'' then (Value (JBool (map_of (s_ownedScopes s) (str_of (args ! 0)) \<noteq> None)), s)
      else (NoReply, s))"

abbreviation call_remember :: "jsval \<Rightarrow> jsval io" where
  "call_remember owner \<equiv> local_call ''rememberOwner'' [owner]"

abbreviation call_forget :: "string \<Rightarrow> jsval io" where
  "call_forget k \<equiv> local_call ''forgetOwnedScope'' [JStr k]"

abbreviation unless_draining :: "'a io \<Rightarrow> 'a io" where
  "unless_draining p \<equiv> io_bind (local_call ''isDraining'' []) (\<lambda>b.
     if truthy b then io_throw (CodedError 503 ''task_draining'') else p)"

text \<open>The identity of the task comes from the environment or the metadata service; resolving it may fail.\<close>

definition resolveTaskIdentity :: "do_task io" where
  "resolveTaskIdentity = io_bind (local_call ''resolveTaskIdentity'' []) (\<lambda>v.
     case (jget v ''taskId'', jget v ''endpoint'') of
       (JStr t, JStr e) \<Rightarrow> io_return \<lparr>dt_taskId = t, dt_endpoint = e\<rparr>
     | _ \<Rightarrow> io_throw (CodedError 503 ''task_identity_unavailable''))"

definition withWatchRetries :: "'a io \<Rightarrow> string \<Rightarrow> 'a io" where
  "withWatchRetries operation exhaustedCode = withOwnerWatchRetries operation OWNER_CLAIM_RETRIES (CodedError 503 exhaustedCode)"

section \<open>Resolving an owner\<close>

text \<open>The keys that depend on the worker of a scope, in the order of a snapshot.\<close>

abbreviation scope_ns :: "jsval \<Rightarrow> string" where "scope_ns scope \<equiv> str_of (jget scope ''ns'')"
abbreviation scope_worker :: "jsval \<Rightarrow> string" where "scope_worker scope \<equiv> str_of (jget scope ''worker'')"

definition related_keys :: "string \<Rightarrow> jsval \<Rightarrow> string list" where
  "related_keys k scope = [ownerGenerationKeyOf k, deleteLockKey (scope_ns scope) (scope_worker scope),
     doStorageIdKey (scope_ns scope) (scope_worker scope), sessionPolicyKey (scope_ns scope) (scope_worker scope)]"

definition stale_storage :: "string \<Rightarrow> 'a io" where
  "stale_storage k = io_then (call_forget k) (io_throw (CodedError 503 ''stale_owner_storage''))"

text \<open>
  The first look, without watching: it answers when the record is live and remote, or local and
  neither due for renewal nor ahead of the counter. The session below repeats it under watch.
\<close>

definition first_look :: "do_env \<Rightarrow> do_task \<Rightarrow> jsval \<Rightarrow> bool \<Rightarrow> jsval \<Rightarrow> (jsval option \<times> jsval) io" where
  "first_look env localTask scope allow invoke =
     (let k = buildOwnerKey scope in
      io_bind (readOwnerSnapshotWithRedisTime (ownerKeyOf k) (related_keys k scope) (parseOwner (do_url env) k (Some scope)))
        (\<lambda>(owner, rawOwner, related, nowMs).
      io_bind (io_lift (applySessionPolicyFence (related ! 3) invoke allow)) (\<lambda>invoke.
        if \<not> deleteLockAllowsActiveStorage (related ! 1) then stale_storage k
        else case owner of
          Some c \<Rightarrow>
            if \<not> ownerLeaseExpired owner nowMs then
              (if \<not> ownerStoragePointerMatches (related ! 2) owner then stale_storage k
               else if jget c ''taskId'' \<noteq> JStr (dt_taskId localTask) then io_then (call_forget k) (io_return (Some c, invoke))
               else unless_draining
                 (io_bind (local_call ''ownedScopes.has'' [JStr k]) (\<lambda>alreadyLocal.
                  io_bind (io_lift (if truthy alreadyLocal then Ok (generation_of c) else parseOwnerGenerationCounter (related ! 0))) (\<lambda>counter.
                  io_bind (io_lift (if counter \<ge> generation_of c then shouldRenewOwnerLease env owner nowMs else Ok True)) (\<lambda>again.
                    if \<not> again then io_then (call_remember c) (io_return (Some c, invoke))
                    else io_return (None, invoke))))))
            else unless_draining (io_return (None, invoke))
        | None \<Rightarrow> unless_draining (io_return (None, invoke)))))"

text \<open>A live record of this task: the counter is repaired and the lease renewed as needed, in one transaction.\<close>

definition keep_owner :: "do_env \<Rightarrow> do_task \<Rightarrow> string \<Rightarrow> jsval \<Rightarrow> jsval \<Rightarrow> string option \<Rightarrow> int \<Rightarrow> (jsval \<times> jsval) io" where
  "keep_owner env localTask k invoke c generationRaw nowMs =
     io_bind (local_call ''ownedScopes.has'' [JStr k]) (\<lambda>alreadyLocal.
     io_bind (io_lift (if truthy alreadyLocal then Ok (generation_of c) else parseOwnerGenerationCounter generationRaw)) (\<lambda>counter.
     io_bind (io_lift (shouldRenewOwnerLease env (Some c) nowMs)) (\<lambda>renewLease.
       let repairGeneration = (counter < generation_of c) in
       if \<not> repairGeneration \<and> \<not> renewLease then
         io_then unwatch (io_then (call_remember c) (io_return (c, invoke)))
       else
         io_bind (io_lift (if renewLease then ownerRecordFor env invoke localTask (generation_of c) nowMs else Ok c)) (\<lambda>renewed.
         io_bind (io_lift (if repairGeneration then multi_set (ownerGenerationKeyOf k) (show_int (generation_of c)) no_options [] else Ok [])) (\<lambda>multi.
         io_bind (io_lift (if renewLease then stageOwnerRenew (ownerKeyOf k) renewed (ownerTtlSeconds env) multi else Ok multi)) (\<lambda>multi.
         io_then (multi_exec multi) (io_then (call_remember renewed) (io_return (renewed, invoke)))))))))"

definition claim_owner :: "do_env \<Rightarrow> do_task \<Rightarrow> string \<Rightarrow> jsval \<Rightarrow> jsval option \<Rightarrow> string option \<Rightarrow> int \<Rightarrow> (jsval \<times> jsval) io" where
  "claim_owner env localTask k invoke current generationRaw nowMs =
     io_bind (io_lift (nextOwnerGenerationFromSnapshot generationRaw (case current of None \<Rightarrow> 0 | Some c \<Rightarrow> generation_of c))) (\<lambda>generation.
     io_bind (io_lift (ownerRecordFor env invoke localTask generation nowMs)) (\<lambda>owner.
     io_bind (io_lift (stageOwnerClaim (do_keys k) owner (ownerTtlSeconds env) [])) (\<lambda>multi.
     io_then (multi_exec multi) (io_then (call_remember owner) (io_return (owner, invoke))))))"

definition resolve_session :: "do_env \<Rightarrow> do_task \<Rightarrow> jsval \<Rightarrow> bool \<Rightarrow> jsval \<Rightarrow> (jsval \<times> jsval) io" where
  "resolve_session env localTask scope allow invoke =
     (let k = buildOwnerKey scope; stale = io_then unwatch (stale_storage k) in
      io_then (watch (ownerKeyOf k # related_keys k scope))
      (io_bind (readOwnerSnapshotWithRedisTime (ownerKeyOf k) (related_keys k scope) (parseOwner (do_url env) k (Some scope)))
        (\<lambda>(current, rawOwner, related, nowMs).
      io_bind (io_lift (applySessionPolicyFence (related ! 3) invoke allow)) (\<lambda>invoke.
        if \<not> deleteLockAllowsActiveStorage (related ! 1) then stale
        else if (case current of None \<Rightarrow> False | Some c \<Rightarrow> \<not> ownerLeaseExpired current nowMs) then
          (let c = the current in
           if \<not> ownerStoragePointerMatches (related ! 2) current then stale
           else if jget c ''taskId'' \<noteq> JStr (dt_taskId localTask) then
             io_then unwatch (io_then (call_forget k) (io_return (c, invoke)))
           else unless_draining (keep_owner env localTask k invoke c (related ! 0) nowMs))
        else unless_draining
          (if \<not> ownerStoragePointerMatches (related ! 2) (Some scope) then stale
           else claim_owner env localTask k invoke current (related ! 0) nowMs)))))"

text \<open>The result is the owner and the invoke with the session policy the fence attached.\<close>

definition resolveDoOwner :: "do_env \<Rightarrow> jsval \<Rightarrow> bool \<Rightarrow> (jsval \<times> jsval) io" where
  "resolveDoOwner env invoke allowSupersededVersion =
     io_bind resolveTaskIdentity (\<lambda>localTask.
     io_bind (io_lift (requireInvokeScope invoke)) (\<lambda>scope.
     io_bind (first_look env localTask scope allowSupersededVersion invoke) (\<lambda>(found, invoke').
       case found of
         Some owner \<Rightarrow> io_return (owner, invoke')
       | None \<Rightarrow> withWatchRetries (resolve_session env localTask scope allowSupersededVersion invoke') ''owner_claim_raced'')))"

section \<open>Renewal\<close>

record do_renewal =
  dr_renewed :: bool
  dr_owner :: "jsval option"
  dr_nowMs :: int

text \<open>One attempt; \<open>None\<close> asks for another one. The script compares the record and the storage pointer before it writes.\<close>

definition renew_attempt :: "do_env \<Rightarrow> do_task \<Rightarrow> jsval \<Rightarrow> do_renewal option io" where
  "renew_attempt env localTask owner =
     (let k = ownerKey_of owner; key = ownerKeyOf k; pointerKey = doStorageIdKey (scope_ns owner) (scope_worker owner);
          lost = (\<lambda>current nowMs. io_then (call_forget k) (io_return (Some \<lparr>dr_renewed = False, dr_owner = current, dr_nowMs = nowMs\<rparr>))) in
      io_bind (readOwnerSnapshotWithRedisTime key [pointerKey] (parseOwner (do_url env) k (Some owner))) (\<lambda>(current, rawOwner, related, nowMs).
        case current of
          None \<Rightarrow> lost None nowMs
        | Some c \<Rightarrow>
            if \<not> ownerFenceMatches current (Some owner) \<or> \<not> ownerHasStoragePointer current
               \<or> \<not> ownerStoragePointerMatches (related ! 0) current \<or> ownerLeaseExpired current nowMs
            then lost current nowMs
            else io_bind (io_lift (renewedOwnerRecordFor env c localTask nowMs)) (\<lambda>renewed.
              case rawOwner of
                None \<Rightarrow> io_throw (CodedError 503 ''owner_renew_raced'')
              | Some expected \<Rightarrow>
                  io_bind (redis_eval RENEW_OWNER_WITH_STORAGE_FENCE_SCRIPT [key, pointerKey]
                      [expected, str_of (jget c ''doStorageId''), stringify renewed, show_int (ownerTtlSeconds env)]) (\<lambda>result.
                    if result = Number 1 then
                      io_then (call_remember renewed) (io_return (Some \<lparr>dr_renewed = True, dr_owner = Some renewed, dr_nowMs = nowMs\<rparr>))
                    else if result = Number (- 1) then lost current nowMs
                    else io_return None))))"

primrec renew_loop :: "nat \<Rightarrow> do_env \<Rightarrow> do_task \<Rightarrow> jsval \<Rightarrow> do_renewal io" where
  "renew_loop 0 env localTask owner = io_throw (CodedError 503 ''owner_renew_raced'')"
| "renew_loop (Suc n) env localTask owner =
     io_bind (renew_attempt env localTask owner) (\<lambda>r. case r of Some x \<Rightarrow> io_return x | None \<Rightarrow> renew_loop n env localTask owner)"

definition renewOwner :: "do_env \<Rightarrow> jsval \<Rightarrow> do_renewal io" where
  "renewOwner env owner = io_bind resolveTaskIdentity (\<lambda>localTask. renew_loop OWNER_CLAIM_RETRIES env localTask owner)"

section \<open>Asserting ownership before a dispatch\<close>

definition do_lease_remaining :: "jsval option \<Rightarrow> int \<Rightarrow> rat" where
  "do_lease_remaining owner nowMs = (case lease_or_zero owner of Fin q \<Rightarrow> q - of_int nowMs | _ \<Rightarrow> - of_int nowMs)"

definition too_short :: "string \<Rightarrow> 'a io" where
  "too_short k = io_then (call_forget k) (io_throw (CodedError 503 ''owner_lease_too_short''))"

text \<open>
  The fence is a record with the key, the task and the generation; \<open>policyInvoke\<close> is the invoke
  whose session policy is to be checked, if any. The result is the owner, the time its lease has
  left, and the invoke with its policy attached.
\<close>

definition do_renew_for_budget :: "do_env \<Rightarrow> jsval \<Rightarrow> jsval \<Rightarrow> (jsval \<times> rat) io" where
  "do_renew_for_budget env owner c =
     io_bind (renewOwner env c) (\<lambda>renewed.
       case dr_owner renewed of
         None \<Rightarrow> too_short (ownerKey_of owner)
       | Some r \<Rightarrow>
           if dr_renewed renewed \<and> ownerFenceMatches (Some r) (Some owner)
              \<and> do_lease_remaining (Some r) (dr_nowMs renewed) \<ge> do_ownerLeaseGuardMs env
           then io_return (r, do_lease_remaining (Some r) (dr_nowMs renewed))
           else too_short (ownerKey_of owner))"

definition assertCurrentOwnerWithLeaseBudget ::
  "do_env \<Rightarrow> jsval \<Rightarrow> jsval \<Rightarrow> bool \<Rightarrow> jsval option \<Rightarrow> (jsval \<times> rat \<times> jsval option) io" where
  "assertCurrentOwnerWithLeaseBudget env owner storageScope renewNearExpiry policyInvoke =
     (if \<not> truthy (jget owner ''ownerKey'') \<or> \<not> truthy (jget owner ''taskId'') \<or> nullish (jget owner ''generation'')
      then io_throw (CodedError 503 ''owner_fence_missing'')
      else if \<not> isValidStorageScope storageScope then io_throw JsError
      else
        let k = ownerKey_of owner; ns = scope_ns storageScope; worker = scope_worker storageScope;
            lose = (\<lambda>code. io_then (call_forget k) (io_throw (CodedError 503 code))) in
        io_bind (readOwnerSnapshotWithRedisTime (ownerKeyOf k)
            ([doStorageIdKey ns worker, deleteLockKey ns worker] @ (if policyInvoke = None then [] else [sessionPolicyKey ns worker]))
            (parseOwner (do_url env) k (Some storageScope))) (\<lambda>(current, rawOwner, related, nowMs).
          case current of
            None \<Rightarrow> lose ''stale_owner_generation''
          | Some c \<Rightarrow>
              if \<not> ownerFenceMatches current (Some owner) then lose ''stale_owner_generation''
              else if ownerLeaseExpired current nowMs then lose ''owner_lease_expired''
              else if jget c ''doStorageId'' \<noteq> jget storageScope ''doStorageId'' \<or> \<not> ownerStoragePointerMatches (related ! 0) current
              then lose ''stale_owner_storage''
              else if \<not> deleteLockAllowsActiveStorage (related ! 1) then lose ''stale_owner_storage''
              else io_bind (io_lift (case policyInvoke of
                  None \<Rightarrow> Ok None
                | Some invoke \<Rightarrow> bind_result (applySessionPolicyFence (related ! 2) invoke False) (\<lambda>i. Ok (Some i)))) (\<lambda>policyInvoke.
                if do_lease_remaining current nowMs < do_ownerLeaseGuardMs env then
                  (if renewNearExpiry then io_map (\<lambda>(r, left). (r, left, policyInvoke)) (do_renew_for_budget env owner c)
                   else too_short k)
                else io_return (c, do_lease_remaining current nowMs, policyInvoke))))"

section \<open>Release\<close>

fun forget_released :: "jsval list \<Rightarrow> release_results \<Rightarrow> (jsval \<times> release_result) list io" where
  "forget_released (expected # owners) (Some r # rs) =
     io_then (if rr_error r \<noteq> None then io_return JUndef else call_forget (ownerKey_of expected))
       (io_map (Cons (expected, r)) (forget_released owners rs))"
| "forget_released (expected # owners) (None # rs) = io_throw JsTypeError"
| "forget_released _ _ = io_return []"

definition releaseOwners :: "do_env \<Rightarrow> jsval list \<Rightarrow> (jsval \<times> release_result) list io" where
  "releaseOwners env owners =
     io_bind (releaseOwnerRecords (\<lambda>raw expected. parseOwner (do_url env) (ownerKey_of expected) None raw)
         (map (\<lambda>owner. (ownerKeyOf (ownerKey_of owner), owner)) owners)) (forget_released owners)"

text \<open>The counts of a drain, and the scopes whose release failed.\<close>

definition drainOwnedScopes :: "do_env \<Rightarrow> jsval list \<Rightarrow> (nat \<times> nat \<times> string list) io" where
  "drainOwnedScopes env entries =
     io_catch
       (io_map (\<lambda>outcomes.
          (length (filter (\<lambda>(_, r). rr_error r = None \<and> rr_released r) outcomes),
           length (filter (\<lambda>(_, r). rr_error r = None \<and> \<not> rr_released r) outcomes),
           map (\<lambda>(expected, _). ownerKey_of expected) (filter (\<lambda>(_, r). rr_error r \<noteq> None) outcomes)))
         (releaseOwners env entries))
       (\<lambda>_. io_return (0, 0, map ownerKey_of entries))"

section \<open>The registry under the ownership protocol\<close>

lemma do_parseOwner_Some:
  assumes "parseOwner url k scope (Some raw) = Ok owner"
  obtains r where "owner = Some r" "parseOwnerRecord (Some raw) = Some r" "ownerMatchesScope (Some r) k scope"
proof -
  from assms obtain r where r: "parseOwnerRecord (Some raw) = Some r" by (auto simp: parseOwner_def split: option.split_asm)
  with assms that [OF _ r] show thesis by (auto simp: parseOwner_def bind_result_eq_Inr split: if_split_asm)
qed

interpretation host: owner_scope "parseOwner url k scope" for url k scope
proof
  show "parseOwner url k scope None = Ok None" by (simp add: parseOwner_def)
  show "parseOwnerRecord (Some raw) = Some r" if "parseOwner url k scope (Some raw) = Ok (Some r)" for raw r
    using that by (rule do_parseOwner_Some) auto
qed

lemma do_parsed_scope: "parseOwner url k scope raw = Ok (Some c) \<Longrightarrow> ownerMatchesScope (Some c) k scope"
  by (cases raw) (auto simp: parseOwner_def [of _ _ _ None] elim: do_parseOwner_Some)

lemma host_id_storage:
  assumes "hostIdForShard sid className shard = Ok k"
  obtains rest where "k = str_of sid @ '':'' @ rest" "CHR '':'' \<notin> set (str_of sid)"
proof -
  have "rx_test STORAGE_ID_RE s \<Longrightarrow> CHR '':'' \<notin> set s" for s
    by (auto simp: STORAGE_ID_RE_def rx_test_plus_cls cls_storage_def simp del: rx_test.simps)
  with assms that show thesis
    by (auto simp: hostIdForShard_def requireIdentityString_def bind_result_eq_Inr Let_def formatDoOwnerShardKey_def
        split: option.split_asm if_split_asm)
qed

lemma prefix_unique: "a @ c # x = b @ c # y \<Longrightarrow> c \<notin> set a \<Longrightarrow> c \<notin> set b \<Longrightarrow> a = b"
  by (induction a arbitrary: b) (case_tac b; auto)+

text \<open>
  An invoke as \<open>do-runtime/protocol.js\<close> and \<open>do-runtime/index.js\<close> build it: a valid scope whose host
  is the shard of its storage and class.
\<close>

definition invoke_ok :: "jsval \<Rightarrow> bool" where
  "invoke_ok invoke \<longleftrightarrow> (\<exists>scope. requireInvokeScope invoke = Ok scope) \<and> is_string (jget invoke ''className'')
     \<and> (\<exists>shard. hostIdForShard (jget invoke ''doStorageId'') (jget invoke ''className'') shard = Ok (buildOwnerKey invoke))"

lemma jget_put: "k \<noteq> k' \<Longrightarrow> jget (put k v x) k' = jget x k'"
  by (cases x) (auto simp: put_def)

lemma invoke_scope:
  assumes "requireInvokeScope invoke = Ok scope"
  shows "jget scope ''hostId'' = jget invoke ''hostId''" "jget scope ''ns'' = jget invoke ''ns''" "jget scope ''worker'' = jget invoke ''worker''"
    "jget scope ''doStorageId'' = jget invoke ''doStorageId''" "is_string (jget invoke ''className'') \<Longrightarrow> jget scope ''className'' = jget invoke ''className''"
    "buildOwnerKey scope = buildOwnerKey invoke"
  using assms by (auto simp: requireInvokeScope_def buildOwnerKey_def split: if_split_asm)

text \<open>The policy fence only touches fields that the scope and the record do not use.\<close>

lemma fence_scope:
  assumes "applySessionPolicyFence raw invoke allow = Ok invoke'"
  shows "requireInvokeScope invoke' = requireInvokeScope invoke" "ownerRecordFor env invoke' task g now = ownerRecordFor env invoke task g now"
proof -
  from assms obtain a b where i: "invoke' = put ''restartSequence'' a (put ''sessionPolicy'' b invoke)"
    by (auto simp: applySessionPolicyFence_def Let_def split: sum.split_asm if_split_asm)
  show "requireInvokeScope invoke' = requireInvokeScope invoke"
    unfolding i requireInvokeScope_def isValidBundleScope_def by (simp add: jget_put)
  then show "ownerRecordFor env invoke' task g now = ownerRecordFor env invoke task g now"
    by (simp add: ownerRecordFor_def)
qed

lemma do_owner_record:
  assumes "invoke_ok invoke" "0 < g" "isSafeInt g" "ownerRecordFor env invoke task g now = Ok r"
  shows "storable r" "fence_of r = (g, JStr (dt_taskId task))"
proof -
  from assms(4) obtain scope lease where scope: "requireInvokeScope invoke = Ok scope" and lease: "ownerLeaseExpiresAt now (ownerTtlSeconds env) = Ok lease"
    and r: "r = JObj [(''ownerKey'', jget scope ''hostId''), (''hostId'', jget scope ''hostId''), (''className'', jget scope ''className''),
         (''ns'', jget scope ''ns''), (''worker'', jget scope ''worker''), (''doStorageId'', jget scope ''doStorageId''),
         (''taskId'', JStr (dt_taskId task)), (''endpoint'', JStr (dt_endpoint task)),
         (''generation'', JNum (num g)), (''leaseExpiresAt'', JNum (num lease))]"
    by (auto simp: ownerRecordFor_def bind_result_eq_Inr)
  from scope have "is_string (jget invoke ''hostId'')" "is_string (jget invoke ''doStorageId'')" "is_string (jget invoke ''worker'')"
      "is_string (jget invoke ''ns'')"
    by (auto simp: requireInvokeScope_def isValidBundleScope_def isValidRuntimeLoadNs_def isValidTenantNs_def split: if_split_asm jsval.split_asm)
  moreover have "is_string (jget invoke ''className'')" using assms(1) by (simp add: invoke_ok_def)
  ultimately obtain h d w n c where f: "jget scope ''hostId'' = JStr h" "jget scope ''doStorageId'' = JStr d" "jget scope ''worker'' = JStr w"
      "jget scope ''ns'' = JStr n" "jget scope ''className'' = JStr c"
    using invoke_scope [OF scope] by (auto simp: is_string_iff)
  have "positive_generation (JNum (num g))" using assms(2,3) by (simp add: positive_generation_def num_le_num [of g 0, simplified])
  then have "parseOwnerRecord (Some (stringify r)) = Some r"
    unfolding r f by (intro parse_stored_record) (simp_all add: lease_field_ok_def)
  then show "storable r" by (simp add: storable_def r)
  show "fence_of r = (g, JStr (dt_taskId task))" by (simp add: fence_of_def generation_of_def r)
qed

section \<open>Writes of a resolution\<close>

text \<open>
  What a resolution may commit, under what its session has seen: a write of the ownership
  protocol, while no lock deletes the whole worker and the storage pointer of the worker is the
  storage of the scope.
\<close>

definition do_write :: "do_env \<Rightarrow> jsval \<Rightarrow> view \<Rightarrow> cmd list \<Rightarrow> bool" where
  "do_write env scope v cmds \<longleftrightarrow>
     owner_write (parseOwner (do_url env) (buildOwnerKey scope) (Some scope)) (do_keys (buildOwnerKey scope)) v cmds
     \<and> (\<exists>lock. seen v (deleteLockKey (scope_ns scope) (scope_worker scope)) = Some lock \<and> deleteLockAllowsActiveStorage lock)
     \<and> seen v (doStorageIdKey (scope_ns scope) (scope_worker scope)) = Some (Some (str_of (jget scope ''doStorageId'')))"

lemma do_keys_differ:
  "distinct (ownerKeyOf k # related_keys k scope)" "ownerKey (do_keys k) \<noteq> generationKey (do_keys k)"
  by (simp_all add: ownerKeyOf_def ownerGenerationKeyOf_def do_keys_def ownerProtocolKeys_def ownerGenerationScopedKey_def
      ownerScopedKey_def DO_OWNER_SCOPE_PREFIX_def related_keys_def deleteLockKey_def doStorageIdKey_def sessionPolicyKey_def)

abbreviation do_seen :: "string \<Rightarrow> jsval \<Rightarrow> string option \<Rightarrow> string option list \<Rightarrow> (string \<times> string option) list" where
  "do_seen k scope raw vals \<equiv> zip (ownerKeyOf k # related_keys k scope) (raw # vals)"

lemma do_writeI:
  assumes "\<forall>(k', x) \<in> set (do_seen k scope raw [g, lock, pointer, policy]). seen v k' = Some x" "k = buildOwnerKey scope"
    and "deleteLockAllowsActiveStorage lock" "pointer = Some (str_of (jget scope ''doStorageId''))"
    and "seen v (ownerKey (do_keys k)) = Some raw \<Longrightarrow> seen v (generationKey (do_keys k)) = Some g
      \<Longrightarrow> owner_write (parseOwner (do_url env) k (Some scope)) (do_keys k) v cmds"
  shows "do_write env scope v cmds"
  using assms by (auto simp: do_write_def related_keys_def ownerKeyOf_def ownerGenerationKeyOf_def)

lemma do_guards_simple [guards_intros]:
  "guards P resolveTaskIdentity" "guards P (stale_storage k)"
  unfolding resolveTaskIdentity_def stale_storage_def
  by (intro guards_intros; (auto intro!: guards_Done split: jsval.split)?)+

lemma do_watch_retries [guards_intros]: "guards P p \<Longrightarrow> guards P (withWatchRetries p code)"
  unfolding withWatchRetries_def withOwnerWatchRetries_def by (intro guards_intros)

lemma guards_first_look: "guards P (first_look env task scope allow invoke)"
  unfolding first_look_def Let_def by (intro guards_intros)

lemma claim_seeing:
  assumes "invoke_ok invoke" "requireInvokeScope invoke = Ok scope" "applySessionPolicyFence pr invoke allow = Ok invoke'"
    and "parseOwner (do_url env) (buildOwnerKey scope) (Some scope) raw = Ok current"
    and "deleteLockAllowsActiveStorage lock" "ownerStoragePointerMatches pointer (Some scope)"
  shows "guards_seeing (do_write env scope) (do_seen (buildOwnerKey scope) scope raw [g, lock, pointer, policy])
    (claim_owner env task (buildOwnerKey scope) invoke' current g now)"
  unfolding claim_owner_def
proof (intro seeing_lift seeing_exec guards_intros, goal_cases)
  case (1 generation r cmds v)
  from 1(1) have "0 < generation" "isSafeInt generation" by (rule next_generation_range, simp)+
  note r = do_owner_record [OF assms(1) this 1(2) [unfolded fence_scope(2) [OF assms(3)]]]
  have "claimed (parseOwner (do_url env) (buildOwnerKey scope) (Some scope)) raw g r"
    using 1(1) r assms(4) by (auto simp: claimed_def fence_of_def)
  then have "claim_write (parseOwner (do_url env) (buildOwnerKey scope) (Some scope)) (do_keys (buildOwnerKey scope)) raw g cmds"
    using 1(3) by (auto simp: claim_write_def)
  then show ?case
    by (intro do_writeI [OF 1(4) refl assms(5)])
       (use assms(6) in \<open>auto simp: ownerStoragePointerMatches_def owner_write_def\<close>)
qed

lemma same_storage:
  assumes "invoke_ok invoke" "requireInvokeScope invoke = Ok scope" "ownerMatchesScope (Some c) (buildOwnerKey scope) (Some scope)"
  shows "str_of (jget c ''doStorageId'') = str_of (jget scope ''doStorageId'')"
proof -
  from assms(1) obtain n where "hostIdForShard (jget invoke ''doStorageId'') (jget invoke ''className'') n = Ok (buildOwnerKey scope)"
    using invoke_scope(6) [OF assms(2)] by (auto simp: invoke_ok_def)
  then obtain rest where s: "buildOwnerKey scope = str_of (jget scope ''doStorageId'') @ CHR '':'' # rest" "CHR '':'' \<notin> set (str_of (jget scope ''doStorageId''))"
    using invoke_scope(4) [OF assms(2)] by (metis host_id_storage append_Cons append_Nil)
  from assms(3) obtain m where "hostIdForShard (jget c ''doStorageId'') (jget c ''className'') m = Ok (buildOwnerKey scope)"
    by (auto simp: ownerMatchesScope_def split: option.split_asm sum.split_asm)
  then obtain rest' where "buildOwnerKey scope = str_of (jget c ''doStorageId'') @ CHR '':'' # rest'" "CHR '':'' \<notin> set (str_of (jget c ''doStorageId''))"
    by (metis host_id_storage append_Cons append_Nil)
  with s show ?thesis using prefix_unique by metis
qed

lemma stage_renew_append:
  "stageOwnerRenew key r ttl multi = Ok multi' \<Longrightarrow> \<exists>cmds. stageOwnerRenew key r ttl [] = Ok cmds \<and> multi' = multi @ cmds"
  by (auto simp: stageOwnerRenew_def multi_set_def bind_result_eq_Inr)

text \<open>The transaction that keeps a record: a repair of the counter, a renewal, or both.\<close>

lemma keep_write:
  assumes "invoke_ok invoke" "parse raw = Ok (Some c)" "parseOwnerRecord raw = Some c" "jget c ''taskId'' = JStr (dt_taskId task)"
    and "repair \<Longrightarrow> parseOwnerGenerationCounter g = Ok counter \<and> counter < generation_of c" "repair \<or> renew"
    and "(if renew then ownerRecordFor env invoke task (generation_of c) now else Ok c) = Ok renewed"
    and "(if repair then multi_set (ownerGenerationKeyOf k) (show_int (generation_of c)) no_options [] else Ok []) = Ok m1"
    and "(if renew then stageOwnerRenew (ownerKeyOf k) renewed (ownerTtlSeconds env) m1 else Ok m1) = Ok m2"
    and "seen v (ownerKey (do_keys k)) = Some raw" "seen v (generationKey (do_keys k)) = Some g"
  shows "owner_write parse (do_keys k) v m2"
proof -
  note gen = parsed_generation [OF assms(3)]
  have raise: "raise_write (do_keys k) g (generation_of c) m1" if repair
    using assms(5,8) that gen(3)
    by (auto simp: raise_write_def ownerGenerationKeyOf_def multi_set_def buildSetArgs_def no_options_def)
  have renew: "\<exists>cmds. renew_write parse (do_keys k) raw cmds \<and> m2 = m1 @ cmds" if on: renew
  proof -
    from on assms(7) have r: "storable renewed" "fence_of renewed = (generation_of c, JStr (dt_taskId task))"
      using do_owner_record [OF assms(1) gen(2,3)] by auto
    have "ownerFenceMatches (Some renewed) (Some c)"
      using r assms(4) fence_matches_iff [OF assms(3), of "Some (stringify renewed)" renewed]
      by (auto simp: storable_def fence_of_def)
    moreover obtain cmds where "stageOwnerRenew (ownerKeyOf k) renewed (ownerTtlSeconds env) [] = Ok cmds" "m2 = m1 @ cmds"
      using stage_renew_append [of "ownerKeyOf k" renewed "ownerTtlSeconds env" m1 m2] assms(9) on by auto
    ultimately show ?thesis using r(1) assms(2) unfolding renew_write_def ownerKeyOf_def by blast
  qed
  consider repair "\<not> renew" | "\<not> repair" renew | repair renew using assms(6) by blast
  then show ?thesis
  proof cases
    case 1
    then show ?thesis using raise assms(9,11) unfolding owner_write_def by auto
  next
    case 2
    then show ?thesis using renew assms(8,10,11) unfolding owner_write_def by auto
  next
    case 3
    then show ?thesis using raise renew assms(10,11) unfolding owner_write_def by blast
  qed
qed

lemma keep_seeing:
  assumes "invoke_ok invoke" "requireInvokeScope invoke = Ok scope" "applySessionPolicyFence pr invoke allow = Ok invoke'"
    and "parseOwner (do_url env) (buildOwnerKey scope) (Some scope) raw = Ok (Some c)" "jget c ''taskId'' = JStr (dt_taskId task)"
    and "deleteLockAllowsActiveStorage lock" "ownerStoragePointerMatches pointer (Some c)"
  shows "guards_seeing (do_write env scope) (do_seen (buildOwnerKey scope) scope raw [g, lock, pointer, policy])
    (keep_owner env task (buildOwnerKey scope) invoke' c g now)"
  unfolding keep_owner_def Let_def
proof (intro seeing_local seeing_lift seeing_if seeing_exec guards_intros, goal_cases)
  case (1 alreadyLocal counter renewLease)
  show ?case by (intro guards_seeingI guards_intros)
next
  case (2 alreadyLocal counter renewLease renewed m1 m2 v)
  note p = host.parsed [OF assms(4)]
  have counter: "parseOwnerGenerationCounter g = Ok counter \<and> counter < generation_of c" if "counter < generation_of c"
    using 2(1) that by (auto split: if_split_asm)
  have "pointer = Some (str_of (jget scope ''doStorageId''))"
    using assms(7) same_storage [OF assms(1,2) do_parsed_scope [OF assms(4)]] by (simp add: ownerStoragePointerMatches_def)
  then show ?case
    using keep_write [where parse = "parseOwner (do_url env) (buildOwnerKey scope) (Some scope)" and raw = raw,
        OF assms(1,4) p assms(5) counter _ 2(4) [unfolded fence_scope(2) [OF assms(3)]] 2(5,6)] 2(3)
    by (intro do_writeI [OF 2(7) refl assms(6)]) blast+
qed

lemma guards_session:
  assumes "invoke_ok invoke" "requireInvokeScope invoke = Ok scope"
  shows "guards (do_write env scope) (resolve_session env task scope allow invoke)"
  unfolding resolve_session_def Let_def
proof (rule snapshot_seeing [OF do_keys_differ(1)], goal_cases)
  case (1 raw vals current now)
  then obtain g lock pointer policy where vals: "vals = [g, lock, pointer, policy]" by (auto simp: related_keys_def length_Suc_conv)
  have keep: "guards_seeing (do_write env scope) (do_seen (buildOwnerKey scope) scope raw vals)
      (keep_owner env task (buildOwnerKey scope) x (the current) (vals ! 0) now)"
    if "applySessionPolicyFence (vals ! 3) invoke allow = Ok x" "deleteLockAllowsActiveStorage (vals ! 1)"
      "case current of None \<Rightarrow> False | Some c \<Rightarrow> \<not> ownerLeaseExpired current now" "ownerStoragePointerMatches (vals ! 2) current"
      "jget (the current) ''taskId'' = JStr (dt_taskId task)" for x
  proof -
    from that(3) obtain c where c: "current = Some c" by (cases current) auto
    from keep_seeing [OF assms that(1) 1(1) [unfolded c] that(5) [unfolded c option.sel] that(2) that(4) [unfolded c]]
    show ?thesis by (simp add: vals c)
  qed
  have claim: "guards_seeing (do_write env scope) (do_seen (buildOwnerKey scope) scope raw vals)
      (claim_owner env task (buildOwnerKey scope) x current (vals ! 0) now)"
    if "applySessionPolicyFence (vals ! 3) invoke allow = Ok x" "deleteLockAllowsActiveStorage (vals ! 1)" "ownerStoragePointerMatches (vals ! 2) (Some scope)" for x
    using claim_seeing [OF assms that(1) 1(1) that(2,3)] by (simp add: vals)
  show ?case
    unfolding prod.case
    by (intro seeing_lift seeing_if seeing_local keep claim; (assumption | (intro guards_seeingI guards_intros) | simp))
qed

lemma fence_invoke_ok:
  assumes "applySessionPolicyFence raw invoke allow = Ok invoke'" "invoke_ok invoke"
  shows "invoke_ok invoke'"
proof -
  from assms(1) obtain a b where i: "invoke' = put ''restartSequence'' a (put ''sessionPolicy'' b invoke)"
    by (auto simp: applySessionPolicyFence_def Let_def split: sum.split_asm if_split_asm)
  have "jget invoke' ''className'' = jget invoke ''className''" "jget invoke' ''doStorageId'' = jget invoke ''doStorageId''"
      "buildOwnerKey invoke' = buildOwnerKey invoke"
    by (simp_all add: i jget_put buildOwnerKey_def)
  with assms(2) fence_scope(1) [OF assms(1)] show ?thesis by (simp add: invoke_ok_def)
qed

lemma first_look_returns:
  "returns (first_look env task scope allow invoke) (\<lambda>(found, i). \<exists>raw. applySessionPolicyFence raw invoke allow = Ok i)"
proof -
  have tail: "returns p (\<lambda>(found, i). \<exists>raw. applySessionPolicyFence raw invoke allow = Ok i)"
    if "returns p (\<lambda>(found, i). i = x)" "applySessionPolicyFence raw invoke allow = Ok x" for p x raw
    using that by (auto simp: returns_def)
  show ?thesis
    unfolding first_look_def Let_def
    by (rule returns_then, intro returns_prod, rule returns_lift, rule tail, (intro returns_intros; simp add: stale_storage_def)?)
       (auto intro!: returns_intros)
qed

lemma guards_resolve_do:
  assumes "invoke_ok invoke" "requireInvokeScope invoke = Ok scope"
  shows "guards (do_write env scope) (resolveDoOwner env invoke allow)"
proof -
  have session: "guards (do_write env scope) (withWatchRetries (resolve_session env task scope allow i) code)"
    if "applySessionPolicyFence raw invoke allow = Ok i" for task i raw code
    using that assms fence_scope(1) [OF that] fence_invoke_ok [OF that] by (intro guards_intros guards_session) auto
  have rest: "guards (do_write env scope) (io_bind (first_look env task scope allow invoke) (\<lambda>(found, invoke').
       case found of Some owner \<Rightarrow> io_return (owner, invoke')
       | None \<Rightarrow> withWatchRetries (resolve_session env task scope allow invoke') ''owner_claim_raced''))" for task
    by (rule guards_bind_returns [OF guards_first_look first_look_returns]) (auto intro!: guards_Done session split: option.split)
  show ?thesis
    unfolding resolveDoOwner_def by (rule guards_bind [OF do_guards_simple(1)], intro guards_lift) (use rest in \<open>simp add: assms(2)\<close>)
qed

text \<open>
  C7: the transactions of \<open>resolveDoOwner\<close> are writes of the ownership protocol on what the
  session has read under watch, and they are only sent when the session has seen, under the same
  watch, that the worker is not being deleted and that its storage pointer is the storage of the
  host. On a database that still holds these values they are steps of the protocol.
\<close>

theorem do_writes_fenced:
  assumes "invoke_ok invoke" "requireInvokeScope invoke = Ok scope" "outcome (resolveDoOwner env invoke allow) tr r"
    and "tr = before @ (Transaction cmds, a) # after" "agrees_with (foldl view_after blind before) m"
  shows "(\<exists>claims'. (owner_step (parseOwner (do_url env) (buildOwnerKey scope) (Some scope)))\<^sup>*\<^sup>*
      (store_of (do_keys (buildOwnerKey scope)) m claims) (store_of (do_keys (buildOwnerKey scope)) (exec_cmds cmds m) claims'))
    \<and> deleteLockAllowsActiveStorage (m (deleteLockKey (scope_ns scope) (scope_worker scope)))
    \<and> m (doStorageIdKey (scope_ns scope) (scope_worker scope)) = Some (str_of (jget scope ''doStorageId''))"
proof -
  have "guards (do_write env scope) (resolveDoOwner env invoke allow)" using assms(1,2) by (rule guards_resolve_do)
  then have w: "do_write env scope (foldl view_after blind before) cmds"
    using assms(3,4) by (fastforce simp: guards_def always_def guarded_append)
  have "\<exists>claims'. (owner_step (parseOwner (do_url env) (buildOwnerKey scope) (Some scope)))\<^sup>*\<^sup>*
      (store_of (do_keys (buildOwnerKey scope)) m claims) (store_of (do_keys (buildOwnerKey scope)) (exec_cmds cmds m) claims')"
    using w host.write_refines [OF do_keys_differ(2) _ assms(5)] by (simp add: do_write_def)
  with w assms(5) show ?thesis by (auto simp: do_write_def agrees_with_def)
qed

definition sample_do_env :: do_env where
  "sample_do_env = \<lparr>do_vars = JObj [], do_url = sample_url, do_ownerLeaseGuardMs = 1000\<rparr>"

definition sample_invoke :: jsval where
  "sample_invoke = JObj [(''hostId'', JStr ''s1:Room:shard3''), (''className'', JStr ''Room''), (''ns'', JStr ''acme''),
     (''worker'', JStr ''chat''), (''doStorageId'', JStr ''s1''), (''version'', JStr ''v1'')]"

definition sample_scope :: jsval where
  "sample_scope = JObj [(''hostId'', JStr ''s1:Room:shard3''), (''className'', JStr ''Room''), (''ns'', JStr ''acme''),
     (''worker'', JStr ''chat''), (''doStorageId'', JStr ''s1'')]"

definition do_claim_replies :: "reply list" where
  "do_claim_replies =
     (let snapshot = Many [NoReply, NoReply, NoReply, Text ''s1'', NoReply, Many [Text ''5'', Text ''0'']] in
      [Value (JObj [(''taskId'', JStr ''t1''), (''endpoint'', JStr ''10.0.3.7:8788'')]), snapshot, Value (JBool False),
       Text ''OK'', snapshot, Value (JBool False), Many [], NoReply])"

theorem do_writes_fenced_witness:
  "\<exists>before cmds (a :: reply) claims'. (Transaction cmds, a) \<in> set before \<and> length cmds = 2
    \<and> (owner_step (parseOwner sample_url ''s1:Room:shard3'' (Some sample_scope)))\<^sup>*\<^sup>*
        (store_of (do_keys ''s1:Room:shard3'') [doStorageIdKey ''acme'' ''chat'' \<mapsto> ''s1''] [])
        (store_of (do_keys ''s1:Room:shard3'') (exec_cmds cmds [doStorageIdKey ''acme'' ''chat'' \<mapsto> ''s1'']) claims')"
proof -
  let ?run = "run_io (resolveDoOwner sample_do_env sample_invoke False) do_claim_replies"
  let ?m = "[doStorageIdKey ''acme'' ''chat'' \<mapsto> ''s1'']"
  obtain tr x where run: "?run = Some (tr, Ok x)"
    and tx: "case tr ! 6 of (Transaction cmds, _) \<Rightarrow> length cmds = 2 | _ \<Rightarrow> False" "6 < length tr"
    and seen: "list_all (\<lambda>(k, x). x = (if k = doStorageIdKey ''acme'' ''chat'' then Some ''s1'' else None)) (v_reads (foldl view_after blind (take 6 tr)))"
  proof -
    have "(case ?run of
        Some (tr, Inr x) \<Rightarrow> (case tr ! 6 of (Transaction cmds, _) \<Rightarrow> length cmds = 2 | _ \<Rightarrow> False) \<and> 6 < length tr
          \<and> list_all (\<lambda>(k, x). x = (if k = doStorageIdKey ''acme'' ''chat'' then Some ''s1'' else None)) (v_reads (foldl view_after blind (take 6 tr)))
      | _ \<Rightarrow> False)"
      by code_simp
    then show ?thesis using that by (auto split: option.split_asm prod.split_asm sum.split_asm)
  qed
  from tx(1) obtain cmds a where q: "tr ! 6 = (Transaction cmds, a)" "length cmds = 2"
    by (auto split: prod.split_asm req.split_asm)
  have split: "tr = take 6 tr @ (Transaction cmds, a) # drop 7 tr" using id_take_nth_drop [OF tx(2)] q(1) by simp
  have scope: "requireInvokeScope sample_invoke = Ok sample_scope" by code_simp
  have "hostIdForShard (jget sample_invoke ''doStorageId'') (jget sample_invoke ''className'') (Some 3) = Ok (buildOwnerKey sample_invoke)"
    "is_string (jget sample_invoke ''className'')" by code_simp+
  then have ok: "invoke_ok sample_invoke" using scope unfolding invoke_ok_def by blast
  have "agrees_with (foldl view_after blind (take 6 tr)) ?m"
    using seen by (auto simp: agrees_with_def seen_def list_all_iff dest!: map_of_SomeD split: if_split_asm)
  from do_writes_fenced [OF ok scope run_io_outcome [OF run] split this, of "[]"]
  obtain claims' where "(owner_step (parseOwner sample_url ''s1:Room:shard3'' (Some sample_scope)))\<^sup>*\<^sup>*
      (store_of (do_keys ''s1:Room:shard3'') ?m []) (store_of (do_keys ''s1:Room:shard3'') (exec_cmds cmds ?m) claims')"
    by (auto simp: sample_do_env_def sample_scope_def buildOwnerKey_def)
  moreover have "(Transaction cmds, a) \<in> set tr" using tx(2) q(1) nth_mem by metis
  ultimately show ?thesis using q(2) by blast
qed

end
