(* ===== verification/Spec2Isabelle.thy ===== *)
theory Spec2Isabelle
  imports Auth_Index Gateway Sql_Splitter Canonical_Json Replay_Cache Control_Lib D1_Registry Do_Registry
begin

text \<open>
  WDL is a multi-tenant platform for workers: a control plane that deploys them, a gateway that
  routes requests to them, an auth worker that decides on tokens, runtimes for tenant code, D1
  databases, Durable Objects and workflows, and Rust services beside them. The tiers share state
  in Redis and agree on it through the modules of \<open>shared/\<close>. This development covers
  the auth worker, the routing decision, the shared contracts and codecs, the Redis client, the
  replay cache of workflows, and the ownership of databases and Durable Object hosts.

  \<^bold>\<open>How programs are modelled.\<close> A pure function of the source is a function here; an exception is
  the left value of \<open>result\<close>. An asynchronous function is a tree of requests and
  replies (theory \<open>Wdl_Io\<close>), and a statement over all its outcomes holds for every reply of Redis,
  the clock and the random source, hence for every interleaving with other clients. Module state
  is a record, reached through requests from asynchronous code. Strings have code units below 256
  and numbers are exact rationals. Code outside of the repository (the URL parser, SHA-256, the
  collation, dates outside of the strict form) is an argument.

  \<^bold>\<open>Foundations.\<close>
  \<^item> \<open>Wdl_Prelude\<close>, \<open>Wdl_Regex\<close>, \<open>Json\<close>, \<open>Js_Date\<close>, \<open>Uri_Component\<close>: what the source uses of the
    language, with the round trips of JSON and of dates and the language of a regular expression.
  \<^item> \<open>Bytes\<close>: \<open>shared/hex.js\<close>, \<open>utf8.js\<close>, \<open>fnv1a32.js\<close>, \<open>base64.js\<close>.
  \<^item> \<open>Wdl_Io\<close>: programs, outcomes and termination, with \<open>shared/optimistic-retry.js\<close>,
    \<open>random-id.js\<close> and \<open>env.js\<close>.

  \<^bold>\<open>Names, policy and tokens.\<close>
  \<^item> \<open>Ns_Pattern\<close> (\<open>shared/ns-pattern.js\<close>): the grammars of names and the shapes they accept.
  \<^item> \<open>Auth_Roles\<close> (\<open>shared/auth-roles.js\<close>), \<open>Auth_Lib\<close> (\<open>auth/lib.js\<close>), \<open>Auth_Index\<close>
    (\<open>auth/index.js\<close>, \<open>auth/runtime.js\<close>): the access decision is characterised, bound and observer
    roles are confined, a grant rests on a live record of the presented token, and an issued token
    verifies.

  \<^bold>\<open>Routing and control.\<close>
  \<^item> \<open>Worker_Contract\<close> (\<open>shared/worker-contract.js\<close>): version tags, keys, messages; keys are
    injective and apart, with one exception that is exhibited.
  \<^item> \<open>Gateway\<close> (\<open>shared/worker-id.js\<close>, \<open>shared/route-projection.js\<close>, \<open>gateway/lib.js\<close>,
    \<open>gateway/dispatch.js\<close>, \<open>control/routing/route-plan.js\<close>): codecs round-trip, the most specific
    pattern wins, only public namespaces are forwarded to.
  \<^item> \<open>Control_Lib\<close> (\<open>control/lib.js\<close>): the URL classifier against the action table, resume ids,
    the referrer index and what it shows to whom.

  \<^bold>\<open>Data planes.\<close>
  \<^item> \<open>Sql_Splitter\<close> (\<open>shared/sql-splitter.js\<close>): splitting loses nothing, is stable, and does not
    cut inside literals.
  \<^item> \<open>Canonical_Json\<close>, \<open>Replay_Cache\<close> (\<open>runtime/dispatch/workflow-replay-cache.js\<close>): canonical
    texts, and the byte accounts of the cache under every sequence of calls.

  \<^bold>\<open>Redis and ownership.\<close>
  \<^item> \<open>Redis_Resp\<close> (\<open>shared/redis-resp.js\<close>): encoder, write batching, incremental reader; the reader
    refines a parser of the concatenated bytes.
  \<^item> \<open>Redis_Commands\<close> (\<open>shared/redis-command-surface.js\<close>, \<open>redis-session.js\<close>,
    \<open>redis-command-client.js\<close>, \<open>redis-lock.js\<close>): the commands as programs.
  \<^item> \<open>Redis_Watch\<close>: what a transaction may rely on after \<open>WATCH\<close>, with rules that follow the
    structure of a program.
  \<^item> \<open>Owner_Lease\<close>, \<open>Owner_Endpoint\<close>, \<open>Owner_Protocol\<close> (the modules \<open>shared/owner-*.js\<close> of these
    names): records, leases, endpoints, fenced release. The abstract protocol is the relation
    \<open>owner_step\<close>; the locale \<open>owner_scope\<close> holds what a record parser promises and the fencing
    theorem.
  \<^item> \<open>Owner_Writes\<close>: the transactions a registry may commit, and that each is a sequence of steps
    of the abstract protocol.
  \<^item> \<open>D1_Registry\<close> (\<open>d1-runtime/owner-registry.js\<close>, keys of \<open>d1-runtime/protocol.js\<close>) and
    \<open>Do_Registry\<close> (\<open>do-runtime/owner-registry.js\<close>, identities of \<open>do-runtime/protocol/\<close>): both
    interpret \<open>owner_scope\<close> with their own parser; their transactions are fenced and refine the
    protocol.

  \<^bold>\<open>Loops and fuel.\<close>
  \<^item> The reply parser gets more fuel than there are bytes buffered or to come; every nested item
    consumes bytes, and \<open>spec_one_no_fuel\<close> shows the fuel is never used up.
  \<^item> The loops of the replay cache are \<open>while_option\<close>, proved to end. JSON parsing and SQL
    splitting are total. A batched release ends within \<open>release_rounds\<close> requests.
  \<^item> A \<open>SCAN\<close> ends when the server says so, and \<open>resolveDbOwner\<close> and the takeover it starts call
    each other as long as other tasks interfere. Their fuel is arbitrary: the statements hold for
    every amount, and are about what such a run does, not that it returns.

  \<^bold>\<open>Not modelled.\<close>
  \<^item> Of modelled modules: log lines, metrics, sockets and timeouts; the numeric coercion of
    environment strings; \<open>configuredPublicUrl\<close>; \<open>envValueOr\<close>; \<open>renewOwnedDbs\<close>,
    \<open>renewOwnedScopes\<close> and \<open>drainOwnedDbs\<close>, the concurrent loops over owned resources (the renewal
    and the release they call are modelled); the query and invocation codecs of
    \<open>d1-runtime/protocol.js\<close> and \<open>do-runtime/protocol.js\<close>.
  \<^item> Bound to the platform: HTTP entry points, WebSockets, actors and SQLite storage, module
    loading, object storage, cryptography, process supervision.
  \<^item> Within reach of the same methods but not covered: the deployment pipeline and handlers of the
    control plane (\<open>topology.js\<close>, \<open>bindings.js\<close>, \<open>routing.js\<close> and the budgets among them), the D1
    read cache and parameter codecs, \<open>runtime/lib.js\<close>, \<open>workflow-json.js\<close> and \<open>workflow-step.js\<close>,
    the AI contract, and the Rust services with their Lua scripts.
\<close>

end
